(* ===== verification/Prelude.thy ===== *)
theory Prelude
  imports Complex_Main
begin

text \<open>
  The vocabulary every component theory shares.

  \<^item> Python exceptions (\<open>exc\<close>) and the result type \<open>exc + 'a\<close> with its bind: a raise is
    \<open>Inl\<close>, a returned value is \<open>Inr\<close>.
  \<^item> Python values (\<open>py\<close>): what \<open>json.loads\<close>, \<open>MessageToDict\<close> and asyncpg hand to the
    program. Integers are unbounded. A float is a rational number or one of the three IEEE
    specials; the rounding of float arithmetic is not modelled. An aware \<open>datetime\<close> is its
    instant, in whole microseconds since the epoch. A dict is an association list in insertion
    order.
  \<^item> The Python operations on them that the source uses: truth value, \<open>or\<close>, \<open>.get\<close>, dict
    assignment, \<open>int()\<close>, string prefix and split operations.
  \<^item> Generic facts on lists, association lists and results, collected in \<open>res_simps\<close> and
    \<open>dict_simps\<close>.
\<close>

named_theorems res_simps "evaluation of results"
named_theorems dict_simps "lookup in association lists"

section \<open>Exceptions and results\<close>

datatype exc =
    AttributeError
  | KeyError string
  | TypeError
  | ValueError
  | OverflowError
  | OSError
  | RuntimeError
  | DecodeError
  | InterfaceError
  | ConfigError
  | PostgresWriteError

type_synonym 'a res = "exc + 'a"

fun rbind :: "'a res \<Rightarrow> ('a \<Rightarrow> 'b res) \<Rightarrow> 'b res" where
  "rbind (Inl e) f = Inl e"
| "rbind (Inr x) f = f x"

lemma rbind_eq_Inr [res_simps]: "rbind m f = Inr y \<longleftrightarrow> (\<exists>x. m = Inr x \<and> f x = Inr y)"
  by (cases m) auto

lemma rbind_eq_Inl [res_simps]:
  "rbind m f = Inl e \<longleftrightarrow> m = Inl e \<or> (\<exists>x. m = Inr x \<and> f x = Inl e)"
  by (cases m) auto

lemma rbind_cong [fundef_cong]:
  "m = m' \<Longrightarrow> (\<And>x. m' = Inr x \<Longrightarrow> f x = g x) \<Longrightarrow> rbind m f = rbind m' g"
  by (cases m') auto

text \<open>A list of results, stopping at the first raise, as a comprehension does.\<close>

fun rmap :: "('a \<Rightarrow> 'b res) \<Rightarrow> 'a list \<Rightarrow> 'b list res" where
  "rmap f [] = Inr []"
| "rmap f (x # xs) = rbind (f x) (\<lambda>y. rbind (rmap f xs) (\<lambda>ys. Inr (y # ys)))"

lemma rmap_cong [fundef_cong]:
  "xs = ys \<Longrightarrow> (\<And>x. x \<in> set ys \<Longrightarrow> f x = g x) \<Longrightarrow> rmap f xs = rmap g ys"
  by (induction ys arbitrary: xs) (auto intro: rbind_cong)

lemma rmap_length: "rmap f xs = Inr ys \<Longrightarrow> length ys = length xs"
  by (induction xs arbitrary: ys) (auto simp: res_simps)

lemma rmap_total: "(\<And>x. x \<in> set xs \<Longrightarrow> f x = Inr (g x)) \<Longrightarrow> rmap f xs = Inr (map g xs)"
  by (induction xs) auto

lemma rmap_eq_iff:
  "rmap f xs = Inr ys \<Longrightarrow> rmap g xs = Inr zs \<Longrightarrow> ys = zs \<longleftrightarrow> (\<forall>x \<in> set xs. f x = g x)"
  by (induction xs arbitrary: ys zs) (auto simp: res_simps)

lemma rmap_values:
  "rmap f xs = Inr ys \<Longrightarrow> map Some ys = map (\<lambda>x. case f x of Inr y \<Rightarrow> Some y | Inl _ \<Rightarrow> None) xs"
  by (induction xs arbitrary: ys) (auto simp: res_simps)

definition is_ok :: "'a res \<Rightarrow> bool" where
  "is_ok r \<longleftrightarrow> (case r of Inl _ \<Rightarrow> False | Inr _ \<Rightarrow> True)"

lemma is_ok_simps [simp]: "is_ok (Inl e) = False" "is_ok (Inr x) = True"
  by (simp_all add: is_ok_def)

lemma is_ok_rbind [simp]:
  "is_ok (rbind m f) \<longleftrightarrow> (case m of Inl _ \<Rightarrow> False | Inr x \<Rightarrow> is_ok (f x))"
  by (cases m) auto

section \<open>Python values\<close>

datatype flt = Fin rat | PosInf | NegInf | NaN

datatype py =
    PNone
  | PBool bool
  | PInt int
  | PFloat flt
  | PStr string
  | PTime int
  | PList "py list"
  | PDict "(string \<times> py) list"

type_synonym dict = "(string \<times> py) list"

fun truthy :: "py \<Rightarrow> bool" where
  "truthy PNone = False"
| "truthy (PBool b) = b"
| "truthy (PInt i) = (i \<noteq> 0)"
| "truthy (PFloat f) = (f \<noteq> Fin 0)"
| "truthy (PStr s) = (s \<noteq> [])"
| "truthy (PTime _) = True"
| "truthy (PList xs) = (xs \<noteq> [])"
| "truthy (PDict d) = (d \<noteq> [])"

definition py_or :: "py \<Rightarrow> py \<Rightarrow> py" where
  "py_or a b = (if truthy a then a else b)"

lemma py_or_truthy [simp]: "truthy a \<Longrightarrow> py_or a b = a"
  by (simp add: py_or_def)

lemma py_or_falsy [simp]: "\<not> truthy a \<Longrightarrow> py_or a b = b"
  by (simp add: py_or_def)

fun is_str :: "py \<Rightarrow> bool" where
  "is_str (PStr _) = True"
| "is_str _ = False"

fun is_dict :: "py \<Rightarrow> bool" where
  "is_dict (PDict _) = True"
| "is_dict _ = False"

fun is_list :: "py \<Rightarrow> bool" where
  "is_list (PList _) = True"
| "is_list _ = False"

lemma is_str_conv: "is_str v \<longleftrightarrow> (\<exists>s. v = PStr s)"
  by (cases v) auto

lemma is_dict_conv: "is_dict v \<longleftrightarrow> (\<exists>d. v = PDict d)"
  by (cases v) auto

lemma is_list_conv: "is_list v \<longleftrightarrow> (\<exists>xs. v = PList xs)"
  by (cases v) auto

section \<open>Dicts as association lists\<close>

text \<open>\<open>d.get(k)\<close> and \<open>d.get(k, default)\<close>.\<close>

definition dget_or :: "dict \<Rightarrow> string \<Rightarrow> py \<Rightarrow> py" where
  "dget_or d k v = (case map_of d k of None \<Rightarrow> v | Some w \<Rightarrow> w)"

definition dget :: "dict \<Rightarrow> string \<Rightarrow> py" where
  "dget d k = dget_or d k PNone"

text \<open>\<open>d[k]\<close>: KeyError on a missing key.\<close>

definition dindex :: "dict \<Rightarrow> string \<Rightarrow> py res" where
  "dindex d k = (case map_of d k of None \<Rightarrow> Inl (KeyError k) | Some v \<Rightarrow> Inr v)"

text \<open>\<open>d[k] = v\<close>: an existing key keeps its position, a new key goes last.\<close>

fun dset :: "('k \<times> 'v) list \<Rightarrow> 'k \<Rightarrow> 'v \<Rightarrow> ('k \<times> 'v) list" where
  "dset [] k v = [(k, v)]"
| "dset ((k', v') # d) k v = (if k' = k then (k, v) # d else (k', v') # dset d k v)"

text \<open>\<open>{**d, **e}\<close> and \<open>d.update(e)\<close>.\<close>

definition dmerge :: "('k \<times> 'v) list \<Rightarrow> ('k \<times> 'v) list \<Rightarrow> ('k \<times> 'v) list" where
  "dmerge d e = foldl (\<lambda>m kv. dset m (fst kv) (snd kv)) d e"

lemma map_of_dset [dict_simps]: "map_of (dset d k v) = (map_of d)(k \<mapsto> v)"
  by (induction d k v rule: dset.induct) auto

lemma fst_set_dset: "fst ` set (dset d k v) = insert k (fst ` set d)"
  by (induction d k v rule: dset.induct) auto

lemma distinct_dset: "distinct (map fst d) \<Longrightarrow> distinct (map fst (dset d k v))"
proof (induction d k v rule: dset.induct)
  case (2 k' v' d k v)
  have "k' \<noteq> k \<Longrightarrow> k' \<notin> fst ` set d \<Longrightarrow> k' \<notin> fst ` set (dset d k v)"
    by (simp add: fst_set_dset)
  with 2 show ?case by auto
qed simp

lemma dmerge_Nil [simp]: "dmerge d [] = d"
  by (simp add: dmerge_def)

lemma dmerge_Cons: "dmerge d ((k, v) # e) = dmerge (dset d k v) e"
  by (simp add: dmerge_def)

lemma fst_set_dmerge: "fst ` set (dmerge d e) = fst ` set d \<union> fst ` set e"
proof (induction e arbitrary: d)
  case (Cons kv e)
  then show ?case by (cases kv) (simp add: dmerge_Cons fst_set_dset insert_commute)
qed simp

lemma distinct_dmerge: "distinct (map fst d) \<Longrightarrow> distinct (map fst (dmerge d e))"
  by (induction e arbitrary: d) (auto simp: dmerge_Cons distinct_dset)

lemma map_of_dmerge:
  "distinct (map fst e) \<Longrightarrow> map_of (dmerge d e) = map_of d ++ map_of e"
proof (induction e arbitrary: d)
  case (Cons kv e)
  obtain k v where kv: "kv = (k, v)" by (cases kv)
  with Cons.prems have "k \<notin> dom (map_of e)" and "distinct (map fst e)"
    by (auto simp: dom_map_of_conv_image_fst)
  then show ?case
    by (simp add: kv dmerge_Cons Cons.IH dict_simps map_add_upd_left del: fun_upd_apply
        flip: map_add_upd)
qed simp

lemma map_of_filter_fst:
  "map_of (filter (\<lambda>kv. P (fst kv)) d) k = (if P k then map_of d k else None)"
  by (induction d) auto

lemma dget_dset [dict_simps]: "dget (dset d k v) k' = (if k' = k then v else dget d k')"
  by (simp add: dget_def dget_or_def dict_simps)

lemma dget_Nil [simp]: "dget [] k = PNone"
  by (simp add: dget_def dget_or_def)

lemma dget_Cons [simp]: "dget ((k, v) # d) k' = (if k' = k then v else dget d k')"
  by (auto simp: dget_def dget_or_def)

lemma dget_or_Nil [simp]: "dget_or [] k w = w"
  by (simp add: dget_or_def)

lemma dget_or_Cons [simp]: "dget_or ((k, v) # d) k' w = (if k' = k then v else dget_or d k' w)"
  by (auto simp: dget_or_def)

lemma dget_notin: "k \<notin> fst ` set d \<Longrightarrow> dget d k = PNone"
proof -
  assume "k \<notin> fst ` set d"
  then have "map_of d k = None" by (simp add: map_of_eq_None_iff)
  then show ?thesis by (simp add: dget_def dget_or_def)
qed

lemma map_of_eq_Some_dget: "map_of d k = Some v \<Longrightarrow> dget d k = v"
  by (simp add: dget_def dget_or_def)

text \<open>
  Attribute access on an arbitrary value: \<open>v.get(k)\<close> raises AttributeError on anything that is
  not a dict.
\<close>

fun py_get :: "py \<Rightarrow> string \<Rightarrow> py res" where
  "py_get (PDict d) k = Inr (dget d k)"
| "py_get _ k = Inl AttributeError"

text \<open>\<open>(v or {})\<close> as the receiver of \<open>.get\<close>.\<close>

definition or_empty :: "py \<Rightarrow> py" where
  "or_empty v = py_or v (PDict [])"

lemma or_empty_simps [simp]:
  "or_empty PNone = PDict []" "or_empty (PDict d) = PDict d"
  "py_get (or_empty (PDict d)) k = Inr (dget d k)"
  by (auto simp: or_empty_def py_or_def)

lemma or_empty_dict: "or_empty (PDict d) = PDict d"
  by simp

section \<open>Strings\<close>

definition starts_with :: "string \<Rightarrow> string \<Rightarrow> bool" where
  "starts_with p s \<longleftrightarrow> take (length p) s = p"

lemma starts_with_append [simp]: "starts_with p (p @ s)"
  by (simp add: starts_with_def)

lemma starts_with_iff: "starts_with p s \<longleftrightarrow> (\<exists>t. s = p @ t)"
  by (metis append_eq_conv_conj append_take_drop_id starts_with_def)

text \<open>\<open>str.lower\<close> on ASCII letters.\<close>

definition lower_char :: "char \<Rightarrow> char" where
  "lower_char c = (if of_char c \<ge> (65::nat) \<and> of_char c \<le> (90::nat)
     then char_of (of_char c + (32::nat)) else c)"

definition lower :: "string \<Rightarrow> string" where
  "lower s = map lower_char s"

text \<open>\<open>str.strip()\<close> on ASCII whitespace.\<close>

definition is_space :: "char \<Rightarrow> bool" where
  "is_space c \<longleftrightarrow> of_char c \<in> {9::nat, 10, 11, 12, 13, 28, 29, 30, 31, 32}"

definition strip :: "string \<Rightarrow> string" where
  "strip s = rev (dropWhile is_space (rev (dropWhile is_space s)))"

text \<open>\<open>sep.join(xs)\<close> and \<open>s.split(sep)\<close> for a one-character separator.\<close>

fun join :: "'a list \<Rightarrow> 'a list list \<Rightarrow> 'a list" where
  "join sep [] = []"
| "join sep [x] = x"
| "join sep (x # y # xs) = x @ sep @ join sep (y # xs)"

fun split_on :: "'a \<Rightarrow> 'a list \<Rightarrow> 'a list list" where
  "split_on c [] = [[]]"
| "split_on c (x # xs) =
     (if x = c then [] # split_on c xs
      else (case split_on c xs of [] \<Rightarrow> [[x]] | y # ys \<Rightarrow> (x # y) # ys))"

lemma split_on_nonempty [simp]: "split_on c xs \<noteq> []"
  by (induction xs) (auto split: list.splits)

lemma join_Cons: "xs \<noteq> [] \<Longrightarrow> join sep (x # xs) = x @ sep @ join sep xs"
  by (cases xs) auto

lemma join_split_on: "join [c] (split_on c xs) = xs"
proof (induction xs)
  case (Cons x xs)
  obtain y ys where s: "split_on c xs = y # ys"
    by (cases "split_on c xs") (use split_on_nonempty in auto)
  with Cons show ?case by (cases ys) auto
qed simp

lemma split_on_no_sep: "p \<in> set (split_on c xs) \<Longrightarrow> c \<notin> set p"
proof (induction xs arbitrary: p)
  case (Cons x xs)
  obtain y ys where s: "split_on c xs = y # ys"
    by (cases "split_on c xs") (use split_on_nonempty in auto)
  with Cons show ?case by (auto split: if_splits)
qed simp

lemma split_on_free: "c \<notin> set p \<Longrightarrow> split_on c p = [p]"
  by (induction p) auto

lemma split_on_append_sep:
  "c \<notin> set p \<Longrightarrow> split_on c (p @ c # q) = p # split_on c q"
  by (induction p) auto

lemma split_on_join:
  "xs \<noteq> [] \<Longrightarrow> (\<forall>p \<in> set xs. c \<notin> set p) \<Longrightarrow> split_on c (join [c] xs) = xs"
  by (induction "[c]" xs rule: join.induct) (auto simp: split_on_free split_on_append_sep)

lemma length_split_on: "length (split_on c xs) = Suc (count_list xs c)"
proof (induction xs)
  case (Cons x xs)
  then show ?case by (cases "split_on c xs") auto
qed simp

section \<open>Decimal numerals and \<open>int()\<close>\<close>

definition digit_of :: "char \<Rightarrow> nat option" where
  "digit_of c = (if of_char c \<ge> (48::nat) \<and> of_char c \<le> (57::nat)
     then Some (of_char c - 48) else None)"

definition digit_char :: "nat \<Rightarrow> char" where
  "digit_char n = char_of (48 + n)"

fun show_nat :: "nat \<Rightarrow> string" where
  "show_nat n = (if n < 10 then [digit_char n] else show_nat (n div 10) @ [digit_char (n mod 10)])"

declare show_nat.simps [simp del]

definition show_int :: "int \<Rightarrow> string" where
  "show_int i = (if i < 0 then ''-'' @ show_nat (nat (- i)) else show_nat (nat i))"

text \<open>The digits of an \<open>int()\<close> literal: at least one digit, single underscores between digits.\<close>

fun read_digits :: "nat \<Rightarrow> string \<Rightarrow> nat option" where
  "read_digits acc [] = Some acc"
| "read_digits acc (c # cs) =
     (case digit_of c of
        Some d \<Rightarrow> read_digits (10 * acc + d) cs
      | None \<Rightarrow>
          (if c = CHR ''_'' then
             (case cs of [] \<Rightarrow> None
              | c' # cs' \<Rightarrow> (case digit_of c' of None \<Rightarrow> None
                            | Some d \<Rightarrow> read_digits (10 * acc + d) cs'))
           else None))"

definition read_nat :: "string \<Rightarrow> nat option" where
  "read_nat s = (case s of [] \<Rightarrow> None
     | c # cs \<Rightarrow> (case digit_of c of None \<Rightarrow> None | Some d \<Rightarrow> read_digits d cs))"

definition read_int :: "string \<Rightarrow> int option" where
  "read_int s = (let t = strip s in
     case t of
       [] \<Rightarrow> None
     | c # cs \<Rightarrow>
         (if c = CHR ''-'' then map_option (\<lambda>n. - int n) (read_nat cs)
          else if c = CHR ''+'' then map_option int (read_nat cs)
          else map_option int (read_nat t)))"

text \<open>Truncation of a rational towards zero, as \<open>int(x)\<close> of a finite float.\<close>

definition trunc_rat :: "rat \<Rightarrow> int" where
  "trunc_rat q = (if q \<ge> 0 then floor q else - floor (- q))"

text \<open>\<open>int(v)\<close>, with the exception each argument type raises.\<close>

fun py_int :: "py \<Rightarrow> int res" where
  "py_int (PInt i) = Inr i"
| "py_int (PBool b) = Inr (if b then 1 else 0)"
| "py_int (PFloat (Fin q)) = Inr (trunc_rat q)"
| "py_int (PFloat NaN) = Inl ValueError"
| "py_int (PFloat PosInf) = Inl OverflowError"
| "py_int (PFloat NegInf) = Inl OverflowError"
| "py_int (PStr s) = (case read_int s of None \<Rightarrow> Inl ValueError | Some i \<Rightarrow> Inr i)"
| "py_int _ = Inl TypeError"

lemma digit_of_digit_char: "n < 10 \<Longrightarrow> digit_of (digit_char n) = Some n"
  by (simp add: digit_of_def digit_char_def)

lemma read_digits_append_digit:
  "read_digits acc xs = Some m \<Longrightarrow> digit_of d = Some k \<Longrightarrow>
     read_digits acc (xs @ [d]) = Some (10 * m + k)"
  by (induction acc xs rule: read_digits.induct) (auto split: option.splits list.splits if_splits)

lemma show_nat_nonempty [simp]: "show_nat n \<noteq> []"
  by (subst show_nat.simps) simp

lemma read_nat_append_digit:
  "read_nat xs = Some m \<Longrightarrow> digit_of d = Some k \<Longrightarrow> read_nat (xs @ [d]) = Some (10 * m + k)"
  by (cases xs) (auto simp: read_nat_def read_digits_append_digit split: option.splits)

lemma read_nat_show_nat: "read_nat (show_nat n) = Some n"
proof (induction n rule: show_nat.induct)
  case (1 n)
  show ?case
  proof (cases "n < 10")
    case True
    then show ?thesis
      by (simp add: show_nat.simps [of n] read_nat_def digit_of_digit_char)
  next
    case False
    with 1 have "read_nat (show_nat (n div 10)) = Some (n div 10)" by simp
    then have "read_nat (show_nat (n div 10) @ [digit_char (n mod 10)]) =
        Some (10 * (n div 10) + n mod 10)"
      by (rule read_nat_append_digit) (simp add: digit_of_digit_char)
    with False show ?thesis by (simp add: show_nat.simps [of n])
  qed
qed

lemma show_nat_digits: "c \<in> set (show_nat n) \<Longrightarrow> \<exists>k<10. c = digit_char k"
proof (induction n rule: show_nat.induct)
  case (1 n)
  show ?case
  proof (cases "c = digit_char (n mod 10)")
    case True
    then show ?thesis by (intro exI [of _ "n mod 10"]) simp
  next
    case False
    with 1 show ?thesis by (cases "n < 10") (auto simp: show_nat.simps [of n])
  qed
qed

lemma show_nat_inj: "show_nat m = show_nat n \<Longrightarrow> m = n"
  by (metis option.inject read_nat_show_nat)

lemma digit_char_not_dot: "k < 10 \<Longrightarrow> digit_char k \<noteq> CHR ''.'' \<and> digit_char k \<noteq> CHR ''-''"
proof -
  assume k: "k < 10"
  have "digit_of (CHR ''.'') = None" "digit_of (CHR ''-'') = None"
    by (simp_all add: digit_of_def)
  with digit_of_digit_char [OF k] show ?thesis by auto
qed

lemma show_nat_no_dot: "CHR ''.'' \<notin> set (show_nat n)" "CHR ''-'' \<notin> set (show_nat n)"
  using show_nat_digits digit_char_not_dot by metis+

lemma show_int_no_dot: "CHR ''.'' \<notin> set (show_int i)"
  by (auto simp: show_int_def show_nat_no_dot)

lemma show_int_inj: "show_int i = show_int j \<Longrightarrow> i = j"
proof -
  assume eq: "show_int i = show_int j"
  have hd: "hd (show_nat n) \<noteq> CHR ''-''" for n
    using show_nat_no_dot(2) [of n] hd_in_set [OF show_nat_nonempty [of n]] by metis
  have "i < 0 \<longleftrightarrow> j < 0"
    using eq hd by (auto simp: show_int_def split: if_splits) (metis list.sel(1))+
  with eq show "i = j"
    by (auto simp: show_int_def split: if_splits dest!: show_nat_inj)
qed

lemma show_nat_plain:
  "c \<in> set (show_nat n) \<Longrightarrow> \<not> is_space c \<and> c \<noteq> CHR ''-'' \<and> c \<noteq> CHR ''+''"
proof -
  assume "c \<in> set (show_nat n)"
  then obtain k where k: "k < 10" "c = digit_char k" using show_nat_digits by blast
  have "of_char c = 48 + k" using k by (simp add: digit_char_def)
  then show ?thesis using k(1) by (auto simp: is_space_def)
qed

lemma dropWhile_none: "(\<forall>c \<in> set s. \<not> P c) \<Longrightarrow> dropWhile P s = s"
  by (cases s) auto

lemma strip_none: "(\<forall>c \<in> set s. \<not> is_space c) \<Longrightarrow> strip s = s"
  by (simp add: strip_def dropWhile_none)

lemma read_int_show_int: "read_int (show_int i) = Some i"
proof -
  have sp: "\<not> is_space (CHR ''-'')" by (simp add: is_space_def)
  have st: "strip (show_int i) = show_int i"
    by (rule strip_none) (auto simp: show_int_def sp dest: show_nat_plain)
  show ?thesis
  proof (cases "i < 0")
    case True
    then show ?thesis
      unfolding read_int_def st by (simp add: show_int_def read_nat_show_nat)
  next
    case False
    obtain c cs where c: "show_nat (nat i) = c # cs"
      by (cases "show_nat (nat i)") auto
    with show_nat_plain [of c "nat i"] have "c \<noteq> CHR ''-''" "c \<noteq> CHR ''+''" by simp_all
    with False c show ?thesis
      unfolding read_int_def st using read_nat_show_nat [of "nat i"]
      by (simp add: show_int_def)
  qed
qed

end
