(* ===== verification/Values.thy ===== *)
theory Values
  imports Prelude "HOL-Library.List_Lexorder" "HOL-Library.Char_ord" "HOL-Library.Multiset"
begin

text \<open>
  The Python conversions the handlers use beyond \<open>int()\<close>: \<open>float()\<close> of a value and of a literal,
  \<open>list()\<close>, \<open>str()\<close>, \<open>sorted\<close> of a list of strings, and the two ways a \<open>datetime\<close> is made from a
  number of seconds. A float literal denotes its exact rational value; a magnitude at or above the
  halfway point past the largest double is an infinity, as in IEEE 754. \<open>str()\<close> of a float, a
  datetime, a list or a dict is a parameter (\<open>repr\<close>).
\<close>

section \<open>\<open>float()\<close>\<close>

definition float_limit :: rat where
  "float_limit = of_int (2 ^ 1024 - 2 ^ 970)"

definition to_float :: "rat \<Rightarrow> flt" where
  "to_float q = (if q \<ge> float_limit then PosInf else if q \<le> - float_limit then NegInf else Fin q)"

text \<open>Digits with single underscores between them: the value, the number of digits, the rest.\<close>

fun scan_digits :: "nat \<Rightarrow> nat \<Rightarrow> string \<Rightarrow> nat \<times> nat \<times> string" where
  "scan_digits acc n [] = (acc, n, [])"
| "scan_digits acc n [c] =
     (case digit_of c of Some d \<Rightarrow> (10 * acc + d, Suc n, []) | None \<Rightarrow> (acc, n, [c]))"
| "scan_digits acc n (c # c' # cs) =
     (case digit_of c of
        Some d \<Rightarrow> scan_digits (10 * acc + d) (Suc n) (c' # cs)
      | None \<Rightarrow>
          (if c = CHR ''_'' \<and> n > 0 then
             (case digit_of c' of Some d \<Rightarrow> scan_digits (10 * acc + d) (Suc n) cs
              | None \<Rightarrow> (acc, n, c # c' # cs))
           else (acc, n, c # c' # cs)))"

definition scan_exponent :: "string \<Rightarrow> int option" where
  "scan_exponent s = (case s of
     [] \<Rightarrow> Some 0
   | c # cs \<Rightarrow>
       (if c = CHR ''e'' \<or> c = CHR ''E'' then
          (let (neg, ds) = (case cs of
               d # ds \<Rightarrow> (if d = CHR ''-'' then (True, ds) else if d = CHR ''+'' then (False, ds) else (False, cs))
             | [] \<Rightarrow> (False, []));
               (v, n, rest) = scan_digits 0 0 ds
           in if n > 0 \<and> rest = [] then Some (if neg then - int v else int v) else None)
        else None))"

definition scale10 :: "rat \<Rightarrow> int \<Rightarrow> rat" where
  "scale10 m e = (if e \<ge> 0 then m * 10 ^ nat e else m / 10 ^ nat (- e))"

definition read_unsigned_float :: "string \<Rightarrow> flt option" where
  "read_unsigned_float s =
     (if lower s = ''inf'' \<or> lower s = ''infinity'' then Some PosInf
      else if lower s = ''nan'' then Some NaN
      else
        (let (i, n, r1) = scan_digits 0 0 s;
             (f, k, r2) = (case r1 of c # cs \<Rightarrow> (if c = CHR ''.'' then scan_digits i 0 cs else (i, 0, r1))
                           | [] \<Rightarrow> (i, 0, []))
         in if n + k = 0 then None
            else (case scan_exponent r2 of None \<Rightarrow> None
                  | Some e \<Rightarrow> Some (to_float (scale10 (of_nat f) (e - int k))))))"

definition negate_flt :: "flt \<Rightarrow> flt" where
  "negate_flt f = (case f of Fin q \<Rightarrow> Fin (- q) | PosInf \<Rightarrow> NegInf | NegInf \<Rightarrow> PosInf | NaN \<Rightarrow> NaN)"

definition read_float :: "string \<Rightarrow> flt option" where
  "read_float s = (let t = strip s in
     case t of
       [] \<Rightarrow> None
     | c # cs \<Rightarrow>
         (if c = CHR ''-'' then map_option negate_flt (read_unsigned_float cs)
          else if c = CHR ''+'' then read_unsigned_float cs
          else read_unsigned_float t))"

fun py_float :: "py \<Rightarrow> flt res" where
  "py_float (PFloat f) = Inr f"
| "py_float (PInt i) =
     (if \<bar>of_int i\<bar> \<ge> float_limit then Inl OverflowError else Inr (Fin (of_int i)))"
| "py_float (PBool b) = Inr (Fin (if b then 1 else 0))"
| "py_float (PStr s) = (case read_float s of None \<Rightarrow> Inl ValueError | Some f \<Rightarrow> Inr f)"
| "py_float _ = Inl TypeError"

section \<open>\<open>list()\<close>, \<open>str()\<close>, \<open>sorted\<close>\<close>

fun py_list :: "py \<Rightarrow> py list res" where
  "py_list (PList xs) = Inr xs"
| "py_list (PStr s) = Inr (map (\<lambda>c. PStr [c]) s)"
| "py_list (PDict d) = Inr (map (\<lambda>kv. PStr (fst kv)) d)"
| "py_list _ = Inl TypeError"

fun py_str :: "(py \<Rightarrow> string) \<Rightarrow> py \<Rightarrow> string" where
  "py_str repr (PStr s) = s"
| "py_str repr (PInt i) = show_int i"
| "py_str repr (PBool b) = (if b then ''True'' else ''False'')"
| "py_str repr PNone = ''None''"
| "py_str repr v = repr v"

fun py_strings :: "py list \<Rightarrow> string list res" where
  "py_strings [] = Inr []"
| "py_strings (PStr s # vs) = rbind (py_strings vs) (\<lambda>ss. Inr (s # ss))"
| "py_strings (v # vs) = Inl TypeError"

lemma py_strings_map [simp]: "py_strings (map PStr ss) = Inr ss"
  by (induction ss) auto

lemma py_strings_map_Cons: "py_strings (PStr s # map PStr ss) = Inr (s # ss)"
  by simp

lemma py_strings_Inr: "py_strings vs = Inr ss \<longleftrightarrow> vs = map PStr ss"
proof (induction vs arbitrary: ss)
  case (Cons v vs)
  show ?case by (cases v; cases ss) (auto simp: Cons.IH res_simps)
qed auto

section \<open>Numbers of seconds\<close>

text \<open>
  \<open>datetime.fromtimestamp(secs, tz=utc)\<close> of an instant given in microseconds: outside the years 1 to
  9999 it raises ValueError, where the C library cannot represent the year OSError, and outside
  \<open>time_t\<close> OverflowError.
\<close>

definition from_timestamp_us :: "int \<Rightarrow> py res" where
  "from_timestamp_us us =
     (let secs = us div 1000000 in
      if secs < - (2 ^ 63) \<or> secs \<ge> 2 ^ 63 then Inl OverflowError
      else if secs < - 67768040609740800 \<or> secs > 67768036191676799 then Inl OSError
      else if secs < - 62135596800 \<or> secs \<ge> 253402300800 then Inl ValueError
      else Inr (PTime us))"

text \<open>\<open>secs\<close> a float: rounded to the nearest microsecond, ties to even.\<close>

definition round_half_even :: "rat \<Rightarrow> int" where
  "round_half_even q =
     (let f = floor q; d = q - of_int f in
      if d < 1/2 then f else if d > 1/2 then f + 1 else if even f then f else f + 1)"

lemma round_half_even_error: "\<bar>of_int (round_half_even q) - q\<bar> \<le> 1/2"
proof -
  define d where "d = q - of_int (floor q)"
  have q: "q = of_int (floor q) + d" by (simp add: d_def)
  have "0 \<le> d" "d < 1" by (simp_all add: d_def) linarith
  then show ?thesis
    unfolding round_half_even_def Let_def d_def [symmetric]
    by (subst (5) q) (auto simp: abs_le_iff)
qed

lemma round_half_even_int [simp]: "round_half_even (of_int i) = i"
  by (simp add: round_half_even_def)

end
