(* ===== verification/Edge_Assignment.thy ===== *)
theory Edge_Assignment
  imports Values
begin

text \<open>
  \<open>edge_assignment.py\<close>: the strategies that give a customer asset its edge and region, their
  construction from the configuration, the resolver installed at startup, and the reading of a
  position out of the kinematics block.

  The great-circle distance is an argument of the strategy that uses it, because its sines and
  square roots have no exact rational value; it may raise, as \<open>math.sin\<close> of an infinity does. The rounding of the
  logged distance is an argument for the same reason. Builders registered from outside the file
  (\<open>register_strategy\<close>) are an argument too. The module's two globals are the \<open>resolver\<close> option.
\<close>

section \<open>Types\<close>

record fob =
  fob_edge_id :: py
  fob_region_id :: py
  fob_lat :: py
  fob_lon :: py
  fob_label :: py

record asset_context =
  ac_asset_id :: py
  ac_lat :: "flt option"
  ac_lon :: "flt option"

record assignment =
  as_edge_id :: py
  as_region_id :: py
  as_basis :: dict

type_synonym strategy = "asset_context \<Rightarrow> assignment option res"

type_synonym distance = "flt \<Rightarrow> flt \<Rightarrow> py \<Rightarrow> py \<Rightarrow> flt res"

section \<open>Strategies\<close>

text \<open>IEEE \<open><\<close>: false with a NaN on either side.\<close>

fun flt_less :: "flt \<Rightarrow> flt \<Rightarrow> bool" where
  "flt_less (Fin a) (Fin b) = (a < b)"
| "flt_less (Fin a) PosInf = True"
| "flt_less NegInf (Fin b) = True"
| "flt_less NegInf PosInf = True"
| "flt_less _ _ = False"

text \<open>\<open>min(xs, key=second)\<close>: the first of the smallest.\<close>

fun min_second :: "'a \<times> flt \<Rightarrow> ('a \<times> flt) list \<Rightarrow> 'a \<times> flt" where
  "min_second b [] = b"
| "min_second b (x # xs) = min_second (if flt_less (snd x) (snd b) then x else b) xs"

definition nearest_fob_strategy :: "distance \<Rightarrow> (flt \<Rightarrow> flt) \<Rightarrow> fob list \<Rightarrow> strategy" where
  "nearest_fob_strategy km round2 fobs ctx =
     (case (ac_lat ctx, ac_lon ctx, fobs) of
        (Some lat, Some lon, f # fs) \<Rightarrow>
          rbind (rmap (\<lambda>f. rbind (km lat lon (fob_lat f) (fob_lon f)) (\<lambda>d. Inr (f, d))) fobs)
            (\<lambda>ds. case ds of
                [] \<Rightarrow> Inr None
              | x # xs \<Rightarrow>
                  (let (nearest, d) = min_second x xs in
                   Inr (Some \<lparr>as_edge_id = fob_edge_id nearest, as_region_id = fob_region_id nearest,
                     as_basis = [(''method'', PStr ''nearest_fob''),
                       (''fob_edge_id'', fob_edge_id nearest), (''fob_label'', fob_label nearest),
                       (''distance_km'', PFloat (round2 d))]\<rparr>)))
      | _ \<Rightarrow> Inr None)"

definition static_strategy :: "(string \<times> py \<times> py) list \<Rightarrow> strategy" where
  "static_strategy static_map ctx =
     (case ac_asset_id ctx of
        PStr a \<Rightarrow>
          (case map_of static_map a of
             None \<Rightarrow> Inr None
           | Some (e, r) \<Rightarrow>
               Inr (Some \<lparr>as_edge_id = e, as_region_id = r,
                 as_basis = [(''method'', PStr ''static_map''), (''asset_id'', PStr a)]\<rparr>))
      | PDict _ \<Rightarrow> Inl TypeError
      | PList _ \<Rightarrow> Inl TypeError
      | _ \<Rightarrow> Inr None)"

fun chained_strategy :: "strategy list \<Rightarrow> strategy" where
  "chained_strategy [] ctx = Inr None"
| "chained_strategy (s # ss) ctx =
     rbind (s ctx) (\<lambda>r. case r of Some a \<Rightarrow> Inr (Some a) | None \<Rightarrow> chained_strategy ss ctx)"

section \<open>Building from the configuration\<close>

text \<open>\<open>Fob(**f)\<close>: the four required fields, the optional label, and nothing else.\<close>

definition fob_fields :: "string list" where
  "fob_fields = [''edge_id'', ''region_id'', ''lat'', ''lon'']"

definition make_fob :: "py \<Rightarrow> fob res" where
  "make_fob f =
     (case f of
        PDict d \<Rightarrow>
          (if set fob_fields \<subseteq> fst ` set d \<and> fst ` set d \<subseteq> set (''label'' # fob_fields)
           then Inr \<lparr>fob_edge_id = dget d ''edge_id'', fob_region_id = dget d ''region_id'',
             fob_lat = dget d ''lat'', fob_lon = dget d ''lon'',
             fob_label = dget_or d ''label'' (PStr [])\<rparr>
           else Inl TypeError)
      | _ \<Rightarrow> Inl TypeError)"

definition build_nearest_fob :: "distance \<Rightarrow> (flt \<Rightarrow> flt) \<Rightarrow> dict \<Rightarrow> strategy res" where
  "build_nearest_fob km round2 cfg =
     rbind (py_list (py_or (dget cfg ''fobs'') (PList []))) (\<lambda>fs.
     rbind (rmap make_fob fs) (\<lambda>fobs. Inr (nearest_fob_strategy km round2 fobs)))"

definition build_asset_id_prefix :: "dict \<Rightarrow> strategy res" where
  "build_asset_id_prefix cfg = Inl ValueError"

fun static_entry :: "string \<times> py \<Rightarrow> (string \<times> py \<times> py) res" where
  "static_entry (a, PDict v) =
     rbind (dindex v ''edge_id'') (\<lambda>e. rbind (dindex v ''region_id'') (\<lambda>r. Inr (a, e, r)))"
| "static_entry (a, _) = Inl TypeError"

definition build_static :: "dict \<Rightarrow> strategy res" where
  "build_static cfg =
     (case or_empty (dget cfg ''static_map'') of
        PDict raw \<Rightarrow> rbind (rmap static_entry raw) (\<lambda>m. Inr (static_strategy m))
      | _ \<Rightarrow> Inl AttributeError)"

text \<open>A member of a chain that is no dict: an empty value has no strategy, another has no \<open>.get\<close>.\<close>

definition build_nondict :: "py \<Rightarrow> strategy res" where
  "build_nondict v = (if truthy v then Inl AttributeError else Inl ValueError)"

lemma size_dget: "map_of d k = Some v \<Longrightarrow> size v < size (PDict d)"
proof (induction d)
  case (Cons kv d)
  then show ?case by (cases kv) (auto split: if_splits)
qed simp

lemma size_dget_list:
  assumes "dget d k = PList xs" "x \<in> set xs"
  shows "size x < size (PDict d)"
proof -
  obtain v where v: "map_of d k = Some v" "v = PList xs"
    using assms(1) by (auto simp: dget_def dget_or_def split: option.splits)
  have "size x < size v" using assms(2) v(2) by (induction xs arbitrary: v) auto
  with size_dget [OF v(1)] show ?thesis by simp
qed

function build_strategy_from_config ::
  "distance \<Rightarrow> (flt \<Rightarrow> flt) \<Rightarrow> (string \<times> (dict \<Rightarrow> strategy res)) list \<Rightarrow> py \<Rightarrow> strategy res" where
  "build_strategy_from_config km round2 registered (PDict cfg) =
     (case dget cfg ''strategy'' of
        PStr name \<Rightarrow>
          (if name = [] then Inl ValueError
           else case map_of registered name of
             Some builder \<Rightarrow> builder cfg
           | None \<Rightarrow>
               (if name = ''nearest_fob'' then build_nearest_fob km round2 cfg
                else if name = ''asset_id_prefix'' then build_asset_id_prefix cfg
                else if name = ''static'' then build_static cfg
                else if name = ''chain'' then
                  (case dget cfg ''chain'' of
                     PList subs \<Rightarrow>
                       rbind (rmap (build_strategy_from_config km round2 registered) subs)
                         (\<lambda>ss. Inr (chained_strategy ss))
                   | v \<Rightarrow>
                       rbind (py_list (py_or v (PList []))) (\<lambda>subs.
                       rbind (rmap build_nondict subs) (\<lambda>ss. Inr (chained_strategy ss))))
                else Inl ValueError))
      | v \<Rightarrow>
          (if \<not> truthy v then Inl ValueError
           else if is_dict v \<or> is_list v then Inl TypeError
           else Inl ValueError))"
| "build_strategy_from_config km round2 registered PNone = build_nondict PNone"
| "build_strategy_from_config km round2 registered (PBool b) = build_nondict (PBool b)"
| "build_strategy_from_config km round2 registered (PInt i) = build_nondict (PInt i)"
| "build_strategy_from_config km round2 registered (PFloat f) = build_nondict (PFloat f)"
| "build_strategy_from_config km round2 registered (PStr s) = build_nondict (PStr s)"
| "build_strategy_from_config km round2 registered (PTime t) = build_nondict (PTime t)"
| "build_strategy_from_config km round2 registered (PList l) = build_nondict (PList l)"
  by pat_completeness auto
termination
  by (relation "measure (\<lambda>(_, _, _, v). size v)") (auto dest: size_dget_list)

section \<open>The resolver\<close>

record resolver =
  rs_strategy :: strategy
  rs_fallback_edge :: py
  rs_fallback_region :: py

definition configure_from_config ::
  "distance \<Rightarrow> (flt \<Rightarrow> flt) \<Rightarrow> (string \<times> (dict \<Rightarrow> strategy res)) list \<Rightarrow> py \<Rightarrow> resolver res" where
  "configure_from_config km round2 registered cfg =
     (if \<not> truthy cfg then
        Inr \<lparr>rs_strategy = (\<lambda>ctx. Inr None), rs_fallback_edge = PStr ''edge-unspecified'',
          rs_fallback_region = PStr ''region-unspecified''\<rparr>
      else
        rbind (build_strategy_from_config km round2 registered cfg) (\<lambda>s.
        rbind (py_get cfg ''fallback'') (\<lambda>fb.
        case or_empty fb of
          PDict f \<Rightarrow>
            Inr \<lparr>rs_strategy = s,
              rs_fallback_edge = dget_or f ''edge_id'' (PStr ''edge-unspecified''),
              rs_fallback_region = dget_or f ''region_id'' (PStr ''region-unspecified'')\<rparr>
        | _ \<Rightarrow> Inl AttributeError)))"

definition resolve_for ::
  "resolver option \<Rightarrow> py \<Rightarrow> flt option \<Rightarrow> flt option \<Rightarrow> assignment res" where
  "resolve_for installed asset_id lat lon =
     (case installed of
        None \<Rightarrow> Inl RuntimeError
      | Some rs \<Rightarrow>
          rbind (rs_strategy rs \<lparr>ac_asset_id = asset_id, ac_lat = lat, ac_lon = lon\<rparr>) (\<lambda>r.
          Inr (case r of
                 Some a \<Rightarrow> a
               | None \<Rightarrow> \<lparr>as_edge_id = rs_fallback_edge rs, as_region_id = rs_fallback_region rs,
                   as_basis = [(''method'', PStr ''fallback'')]\<rparr>)))"

section \<open>Positions\<close>

definition unwrap_value :: "py \<Rightarrow> py" where
  "unwrap_value v = (case v of PDict d \<Rightarrow> dget d ''value'' | _ \<Rightarrow> v)"

definition float_or_none :: "py \<Rightarrow> flt option res" where
  "float_or_none v = (if v = PNone then Inr None else rbind (py_float v) (\<lambda>f. Inr (Some f)))"

definition extract_wgs84 :: "py \<Rightarrow> (flt option \<times> flt option) res" where
  "extract_wgs84 kinematics =
     (case kinematics of
        PDict k \<Rightarrow>
          (case or_empty (dget k ''position'') of
             PDict pos \<Rightarrow>
               (let wgs84 = py_or (dget pos ''wgs84'') (PDict pos);
                    pick = (\<lambda>a b. case wgs84 of
                        PDict w \<Rightarrow> (if dget w a = PNone then dget w b else dget w a)
                      | _ \<Rightarrow> PNone);
                    lat_raw = unwrap_value (pick ''latitude'' ''lat'');
                    lon_raw = unwrap_value (pick ''longitude'' ''lon'')
                in (case rbind (float_or_none lat_raw) (\<lambda>lat.
                           rbind (float_or_none lon_raw) (\<lambda>lon. Inr (lat, lon))) of
                      Inr p \<Rightarrow> Inr p
                    | Inl e \<Rightarrow> if e = TypeError \<or> e = ValueError then Inr (None, None) else Inl e))
           | _ \<Rightarrow> Inl AttributeError)
      | _ \<Rightarrow> Inr (None, None))"

section \<open>What the strategies decide\<close>

lemma flt_less_trans: "flt_less a b \<Longrightarrow> flt_less b c \<Longrightarrow> flt_less a c"
  by (cases a; cases b; cases c) auto

lemma flt_less_irrefl [simp]: "\<not> flt_less a a"
  by (cases a) auto

lemma flt_less_neg_trans: "b \<noteq> NaN \<Longrightarrow> flt_less a c \<Longrightarrow> flt_less a b \<or> flt_less b c"
  by (cases a; cases b; cases c) auto

text \<open>The element chosen, its position, and that nothing before it is as small and nothing is smaller.\<close>

lemma min_second_step:
  assumes "c = (if flt_less (snd x) (snd b) then x else b)" "snd x \<noteq> NaN"
    and split: "c # xs = pre @ m # post"
    and pre: "\<forall>y \<in> set pre. flt_less (snd m) (snd y)" and post: "\<forall>y \<in> set post. \<not> flt_less (snd y) (snd m)"
  shows "\<exists>pre post. b # x # xs = pre @ m # post
    \<and> (\<forall>y \<in> set pre. flt_less (snd m) (snd y)) \<and> (\<forall>y \<in> set post. \<not> flt_less (snd y) (snd m))"
proof (cases "flt_less (snd x) (snd b)")
  case True
  then have cx: "c = x" by (simp add: assms(1))
  have "m = x \<or> flt_less (snd m) (snd x)" using split pre cx by (cases pre) auto
  with True have "flt_less (snd m) (snd b)" using flt_less_trans by blast
  with split pre post cx show ?thesis
    by (intro exI [of _ "b # pre"] exI [of _ post]) auto
next
  case False
  with split have split': "b # xs = pre @ m # post" by (simp add: assms(1))
  show ?thesis
  proof (cases pre)
    case Nil
    with split' False post show ?thesis
      by (intro exI [of _ "[]"] exI [of _ "x # xs"]) auto
  next
    case (Cons p ps)
    with split' pre have p: "xs = ps @ m # post" "flt_less (snd m) (snd b)" by auto
    then have "flt_less (snd m) (snd x)" using False assms(2) flt_less_neg_trans by blast
    with pre post p Cons split' show ?thesis
      by (intro exI [of _ "b # x # ps"] exI [of _ post]) auto
  qed
qed

lemma min_second_spec:
  assumes "\<forall>x \<in> set (b # xs). snd x \<noteq> NaN"
  shows "\<exists>pre post. b # xs = pre @ min_second b xs # post
    \<and> (\<forall>x \<in> set pre. flt_less (snd (min_second b xs)) (snd x))
    \<and> (\<forall>x \<in> set post. \<not> flt_less (snd x) (snd (min_second b xs)))"
  using assms
proof (induction xs arbitrary: b)
  case Nil
  show ?case by (intro exI [of _ "[]"]) simp
next
  case (Cons x xs)
  let ?c = "if flt_less (snd x) (snd b) then x else b"
  have "\<forall>y \<in> set (?c # xs). snd y \<noteq> NaN" using Cons.prems by simp
  from Cons.IH [OF this] obtain pre post where "?c # xs = pre @ min_second ?c xs # post"
    "\<forall>y \<in> set pre. flt_less (snd (min_second ?c xs)) (snd y)"
    "\<forall>y \<in> set post. \<not> flt_less (snd y) (snd (min_second ?c xs))" by blast
  from min_second_step [OF refl _ this] Cons.prems show ?case by simp
qed

text \<open>
  \<open>nearest_fob\<close> decides for every asset with a position, provided the configuration names a
  base, and it picks a configured base such that no configured base is nearer and every base
  listed before it is strictly farther; without a position or without bases it declines, so that a chain goes on.
\<close>

lemma nearest_fob_minimal:
  assumes dist: "\<And>f. f \<in> set fobs \<Longrightarrow> km lat lon (fob_lat f) (fob_lon f) = Inr (d f)"
    and num: "\<And>f. f \<in> set fobs \<Longrightarrow> d f \<noteq> NaN"
  shows "(fobs \<noteq> [] \<longrightarrow> (\<exists>pre f post a. fobs = pre @ f # post
        \<and> nearest_fob_strategy km round2 fobs \<lparr>ac_asset_id = i, ac_lat = Some lat, ac_lon = Some lon\<rparr>
            = Inr (Some a)
        \<and> as_edge_id a = fob_edge_id f \<and> as_region_id a = fob_region_id f
        \<and> (\<forall>g \<in> set pre. flt_less (d f) (d g)) \<and> (\<forall>g \<in> set post. \<not> flt_less (d g) (d f))))
    \<and> nearest_fob_strategy km round2 [] ctx = Inr None
    \<and> nearest_fob_strategy km round2 fobs \<lparr>ac_asset_id = i, ac_lat = None, ac_lon = lo\<rparr> = Inr None
    \<and> nearest_fob_strategy km round2 fobs \<lparr>ac_asset_id = i, ac_lat = la, ac_lon = None\<rparr> = Inr None"
proof (intro conjI impI)
  assume "fobs \<noteq> []"
  then obtain f0 fs where fobs: "fobs = f0 # fs" by (cases fobs) auto
  let ?p = "\<lambda>f. (f, d f)"
  have "rmap (\<lambda>f. rbind (km lat lon (fob_lat f) (fob_lon f)) (\<lambda>d. Inr (f, d))) fobs = Inr (map ?p fobs)"
    by (rule rmap_total) (simp add: dist)
  then have run: "nearest_fob_strategy km round2 fobs
      \<lparr>ac_asset_id = i, ac_lat = Some lat, ac_lon = Some lon\<rparr>
      = (let (nearest, dn) = min_second (?p f0) (map ?p fs) in
         Inr (Some \<lparr>as_edge_id = fob_edge_id nearest, as_region_id = fob_region_id nearest,
           as_basis = [(''method'', PStr ''nearest_fob''),
             (''fob_edge_id'', fob_edge_id nearest), (''fob_label'', fob_label nearest),
             (''distance_km'', PFloat (round2 dn))]\<rparr>))"
    by (simp add: nearest_fob_strategy_def fobs del: rmap.simps)
  have "\<forall>x \<in> set (?p f0 # map ?p fs). snd x \<noteq> NaN" using num fobs by auto
  from min_second_spec [OF this] obtain pre post where
    split: "map ?p fobs = pre @ min_second (?p f0) (map ?p fs) # post"
    and pre: "\<forall>x \<in> set pre. flt_less (snd (min_second (?p f0) (map ?p fs))) (snd x)"
    and post: "\<forall>x \<in> set post. \<not> flt_less (snd x) (snd (min_second (?p f0) (map ?p fs)))"
    by (auto simp: fobs)
  from split obtain fpre f fpost where f: "fobs = fpre @ f # fpost" "pre = map ?p fpre"
      "min_second (?p f0) (map ?p fs) = ?p f" "post = map ?p fpost"
    by (auto simp: map_eq_append_conv map_eq_Cons_conv)
  with run pre post show "\<exists>pre f post a. fobs = pre @ f # post
        \<and> nearest_fob_strategy km round2 fobs \<lparr>ac_asset_id = i, ac_lat = Some lat, ac_lon = Some lon\<rparr>
            = Inr (Some a)
        \<and> as_edge_id a = fob_edge_id f \<and> as_region_id a = fob_region_id f
        \<and> (\<forall>g \<in> set pre. flt_less (d f) (d g)) \<and> (\<forall>g \<in> set post. \<not> flt_less (d g) (d f))"
    by (intro exI [of _ fpre] exI [of _ f] exI [of _ fpost]) simp
qed (simp_all add: nearest_fob_strategy_def split: option.split)

lemma chained_skip:
  "(\<forall>s \<in> set ss. s ctx = Inr None) \<Longrightarrow> chained_strategy (ss @ ts) ctx = chained_strategy ts ctx"
  by (induction ss) auto

text \<open>
  The resolver answers for every asset it is installed for: with a chain whose members do not
  raise, the first member that decides gives the answer, later members are not consulted, and when
  none decides the configured fallback does; with an empty configuration it is always the
  unspecified edge and region, and with nothing installed it raises.
\<close>

lemma resolve_first_decides:
  assumes "rs_strategy rs = chained_strategy (before @ s # after)"
    and "\<forall>t \<in> set before. t \<lparr>ac_asset_id = i, ac_lat = la, ac_lon = lo\<rparr> = Inr None"
    and "s \<lparr>ac_asset_id = i, ac_lat = la, ac_lon = lo\<rparr> = Inr r"
    and "\<forall>t \<in> set after. t \<lparr>ac_asset_id = i, ac_lat = la, ac_lon = lo\<rparr> = Inr None \<or> r \<noteq> None"
  shows "resolve_for (Some rs) i la lo
      = Inr (case r of Some a \<Rightarrow> a
             | None \<Rightarrow> \<lparr>as_edge_id = rs_fallback_edge rs, as_region_id = rs_fallback_region rs,
                 as_basis = [(''method'', PStr ''fallback'')]\<rparr>)
    \<and> rbind (configure_from_config km round2 reg (PDict [])) (\<lambda>rs. resolve_for (Some rs) i la lo)
      = Inr \<lparr>as_edge_id = PStr ''edge-unspecified'', as_region_id = PStr ''region-unspecified'',
          as_basis = [(''method'', PStr ''fallback'')]\<rparr>
    \<and> resolve_for None i la lo = Inl RuntimeError"
proof -
  let ?c = "\<lparr>ac_asset_id = i, ac_lat = la, ac_lon = lo\<rparr>"
  have "chained_strategy (before @ s # after) ?c = Inr r"
  proof (cases r)
    case None
    with assms(4) have "chained_strategy (after @ []) ?c = chained_strategy [] ?c"
      by (intro chained_skip) auto
    with None assms(2,3) show ?thesis by (simp add: chained_skip)
  next
    case (Some a)
    with assms(2,3) show ?thesis by (simp add: chained_skip)
  qed
  with assms(1) show ?thesis
    by (simp add: resolve_for_def configure_from_config_def split: option.split)
qed

section \<open>Witnesses\<close>

definition sample_fob :: "string \<Rightarrow> rat \<Rightarrow> fob" where
  "sample_fob e x = \<lparr>fob_edge_id = PStr e, fob_region_id = PStr ''r'', fob_lat = PFloat (Fin x),
     fob_lon = PFloat (Fin 0), fob_label = PStr []\<rparr>"

definition flat_km :: distance where
  "flat_km la lo fla flo =
     (case (la, fla) of (Fin a, PFloat (Fin b)) \<Rightarrow> Inr (Fin \<bar>a - b\<bar>) | _ \<Rightarrow> Inl ValueError)"

end
