(* ===== verification/Write_Sql.thy ===== *)
theory Write_Sql
  imports Prelude
begin

text \<open>
  \<open>persistence/postgres.py\<close>, the pure half: a handler's \<open>Write\<close>, the statement
  \<open>PostgresPool.build_sql\<close> makes of it and the parameters \<open>_bind_values\<close> sends with it.

  \<open>build_sql\<close> is translated in two steps. \<open>build_stmt\<close> follows the branches of the code
  and yields a statement as a value of \<open>stmt\<close>; \<open>render_stmt\<close> is the text the code's
  f-strings produce for it, and \<open>build_sql\<close> is their composition. The statement value is what
  \<open>Pg_Store\<close> gives a meaning to, so a wrong placeholder number is visible there.
  Numbers of placeholders start at 1, as in the text.
\<close>

section \<open>Write\<close>

record revive =
  rv_column :: string
  rv_from_values :: "string list"
  rv_to_value :: string
  rv_at_column :: string
  rv_at_from :: string

record pg_write =
  w_table :: string
  w_mode :: string
  w_key_columns :: "string list"
  w_row :: dict
  w_jsonb_columns :: "string list"
  w_revive :: "revive option"

section \<open>Statements\<close>

datatype sexp =
    Param nat
  | Excluded string
  | OldCol string
  | CaseIn string "nat list" sexp sexp

datatype action = DoNothing | DoUpdate "(string \<times> sexp) list"

datatype stmt =
    Insert string "string list" "nat list" "string list" action
  | Update string "(string \<times> nat) list" "(string \<times> nat) list"

text \<open>The checks on \<open>write.revive\<close>, in the code's order; each raises ValueError.\<close>

definition check_revive :: "pg_write \<Rightarrow> unit res" where
  "check_revive w =
     (case w_revive w of
        None \<Rightarrow> Inr ()
      | Some rv \<Rightarrow>
          (if w_mode w \<noteq> ''upsert'' then Inl ValueError
           else if rv_column rv \<in> fst ` set (w_row w) \<or> rv_at_column rv \<in> fst ` set (w_row w)
             then Inl ValueError
           else if rv_at_from rv \<notin> fst ` set (w_row w) then Inl ValueError
           else Inr ()))"

text \<open>The \<open>m\<close> placeholder numbers that follow \<open>n\<close>.\<close>

definition places :: "nat \<Rightarrow> nat \<Rightarrow> nat list" where
  "places n m = [Suc n..<Suc (n + m)]"

lemma length_places [simp]: "length (places n m) = m"
  by (simp add: places_def)

lemma set_places [simp]: "set (places n m) = {Suc n..n + m}"
  by (auto simp: places_def)

lemma nth_places [simp]: "i < m \<Longrightarrow> places n m ! i = Suc (n + i)"
  by (simp add: places_def del: upt_Suc)

text \<open>\<open>(c, placeholder of c)\<close> for every column of the row, in row order.\<close>

definition numbered :: "pg_write \<Rightarrow> (string \<times> nat) list" where
  "numbered w = zip (map fst (w_row w)) (places 0 (length (w_row w)))"

definition key_updates :: "pg_write \<Rightarrow> (string \<times> sexp) list" where
  "key_updates w =
     map (\<lambda>c. (c, Excluded c))
       (filter (\<lambda>c. c \<notin> set (w_key_columns w)) (map fst (w_row w)))"

definition revive_updates :: "pg_write \<Rightarrow> (string \<times> sexp) list" where
  "revive_updates w =
     (case w_revive w of
        None \<Rightarrow> []
      | Some rv \<Rightarrow>
          (let n = length (w_row w);
               m = length (rv_from_values rv);
               ins = places n m;
               c = rv_column rv;
               a = rv_at_column rv
           in [(a, CaseIn c ins (Excluded (rv_at_from rv)) (OldCol a)),
               (c, CaseIn c ins (Param (Suc (n + m))) (OldCol c))]))"

definition build_stmt :: "pg_write \<Rightarrow> stmt res" where
  "build_stmt w =
     rbind (check_revive w) (\<lambda>_.
       Inr (if w_mode w = ''append'' then
              Insert (w_table w) (map fst (w_row w)) (map snd (numbered w)) (w_key_columns w)
                DoNothing
            else if w_mode w = ''update'' then
              Update (w_table w)
                (filter (\<lambda>ci. fst ci \<notin> set (w_key_columns w)) (numbered w))
                (filter (\<lambda>ci. fst ci \<in> set (w_key_columns w)) (numbered w))
            else
              Insert (w_table w) (map fst (w_row w)) (map snd (numbered w)) (w_key_columns w)
                (DoUpdate (key_updates w @ revive_updates w))))"

section \<open>The text of a statement\<close>

definition quote :: "string \<Rightarrow> string" where
  "quote c = [CHR 0x22] @ c @ [CHR 0x22]"

definition placeholder :: "nat \<Rightarrow> string" where
  "placeholder i = [CHR 0x24] @ show_nat i"

fun render_sexp :: "string \<Rightarrow> sexp \<Rightarrow> string" where
  "render_sexp t (Param i) = placeholder i"
| "render_sexp t (Excluded c) = ''EXCLUDED.'' @ quote c"
| "render_sexp t (OldCol c) = quote t @ ''.'' @ quote c"
| "render_sexp t (CaseIn c ps e1 e2) =
     ''CASE WHEN '' @ quote t @ ''.'' @ quote c @ '' IN ('' @ join '', '' (map placeholder ps) @
     '') THEN '' @ render_sexp t e1 @ '' ELSE '' @ render_sexp t e2 @ '' END''"

definition render_set :: "string \<Rightarrow> string \<times> sexp \<Rightarrow> string" where
  "render_set t ce = quote (fst ce) @ '' = '' @ render_sexp t (snd ce)"

definition render_eq :: "string \<times> nat \<Rightarrow> string" where
  "render_eq ci = quote (fst ci) @ '' = '' @ placeholder (snd ci)"

fun render_action :: "string \<Rightarrow> action \<Rightarrow> string" where
  "render_action t DoNothing = '' DO NOTHING''"
| "render_action t (DoUpdate us) = '' DO UPDATE SET '' @ join '', '' (map (render_set t) us)"

fun render_stmt :: "stmt \<Rightarrow> string" where
  "render_stmt (Insert t cols ps conflict act) =
     ''INSERT INTO '' @ quote t @ '' ('' @ join '', '' (map quote cols) @ '') VALUES ('' @
     join '', '' (map placeholder ps) @ '') ON CONFLICT ('' @
     join '', '' (map quote conflict) @ '')'' @ render_action t act"
| "render_stmt (Update t sets wheres) =
     ''UPDATE '' @ quote t @ '' SET '' @ join '', '' (map render_eq sets) @ '' WHERE '' @
     join '' AND '' (map render_eq wheres)"

definition build_sql :: "pg_write \<Rightarrow> string res" where
  "build_sql w = rbind (build_stmt w) (\<lambda>st. Inr (render_stmt st))"

section \<open>Parameters\<close>

text \<open>\<open>json.dumps(v)\<close> for the jsonb columns; \<open>Raw v\<close> is the value itself.\<close>

datatype bound = Raw py | Dumped py

definition bind_values :: "pg_write \<Rightarrow> bound list" where
  "bind_values w =
     map (\<lambda>(c, v). if c \<in> set (w_jsonb_columns w) \<and> v \<noteq> PNone then Dumped v else Raw v) (w_row w)
     @ (case w_revive w of
          None \<Rightarrow> []
        | Some rv \<Rightarrow> map (\<lambda>s. Raw (PStr s)) (rv_from_values rv) @ [Raw (PStr (rv_to_value rv))])"

section \<open>Placeholders and parameters agree\<close>

fun sexp_params :: "sexp \<Rightarrow> nat list" where
  "sexp_params (Param i) = [i]"
| "sexp_params (Excluded c) = []"
| "sexp_params (OldCol c) = []"
| "sexp_params (CaseIn c ps e1 e2) = ps @ sexp_params e1 @ sexp_params e2"

fun action_params :: "action \<Rightarrow> nat list" where
  "action_params DoNothing = []"
| "action_params (DoUpdate us) = concat (map (\<lambda>ce. sexp_params (snd ce)) us)"

fun stmt_params :: "stmt \<Rightarrow> nat list" where
  "stmt_params (Insert t cols ps conflict act) = ps @ action_params act"
| "stmt_params (Update t sets wheres) = map snd sets @ map snd wheres"

lemma length_numbered [simp]: "length (numbered w) = length (w_row w)"
  by (simp add: numbered_def)

lemma fst_numbered [simp]: "map fst (numbered w) = map fst (w_row w)"
  by (simp add: numbered_def)

lemma snd_numbered [simp]: "map snd (numbered w) = places 0 (length (w_row w))"
  by (simp add: numbered_def)

lemma set_snd_numbered: "snd ` set (numbered w) = {1..length (w_row w)}"
proof -
  have "snd ` set (numbered w) = set (map snd (numbered w))" by (simp only: set_map)
  also have "\<dots> = {1..length (w_row w)}" by simp
  finally show ?thesis .
qed

lemma key_updates_params [simp]: "concat (map (\<lambda>ce. sexp_params (snd ce)) (key_updates w)) = []"
  by (simp add: key_updates_def)

lemma revive_updates_params:
  "w_revive w = Some rv \<Longrightarrow>
     set (concat (map (\<lambda>ce. sexp_params (snd ce)) (revive_updates w)))
       = {Suc (length (w_row w))..Suc (length (w_row w) + length (rv_from_values rv))}"
  by (auto simp: revive_updates_def Let_def)

lemma length_bind_values:
  "length (bind_values w) =
     length (w_row w) + (case w_revive w of None \<Rightarrow> 0 | Some rv \<Rightarrow> Suc (length (rv_from_values rv)))"
  by (simp add: bind_values_def split: option.split)

lemma check_revive_Inr:
  "check_revive w = Inr () \<longleftrightarrow>
     (\<forall>rv. w_revive w = Some rv \<longrightarrow> w_mode w = ''upsert''
        \<and> rv_column rv \<notin> fst ` set (w_row w) \<and> rv_at_column rv \<notin> fst ` set (w_row w)
        \<and> rv_at_from rv \<in> fst ` set (w_row w))"
  by (auto simp: check_revive_def split: option.split if_split)

lemma build_stmt_Inr:
  "build_stmt w = Inr st \<longleftrightarrow> check_revive w = Inr () \<and>
     st = (if w_mode w = ''append'' then
             Insert (w_table w) (map fst (w_row w)) (places 0 (length (w_row w)))
               (w_key_columns w) DoNothing
           else if w_mode w = ''update'' then
             Update (w_table w)
               (filter (\<lambda>ci. fst ci \<notin> set (w_key_columns w)) (numbered w))
               (filter (\<lambda>ci. fst ci \<in> set (w_key_columns w)) (numbered w))
           else
             Insert (w_table w) (map fst (w_row w)) (places 0 (length (w_row w)))
               (w_key_columns w) (DoUpdate (key_updates w @ revive_updates w)))"
  by (cases "check_revive w") (auto simp: build_stmt_def)

lemma stmt_params_exact:
  assumes "build_stmt w = Inr st"
  shows "set (stmt_params st) = {1..length (bind_values w)}"
proof (cases "w_mode w = ''update''")
  case True
  with assms have none: "w_revive w = None" and st: "st = Update (w_table w)
      (filter (\<lambda>ci. fst ci \<notin> set (w_key_columns w)) (numbered w))
      (filter (\<lambda>ci. fst ci \<in> set (w_key_columns w)) (numbered w))"
    by (simp_all add: build_stmt_Inr check_revive_Inr split: if_splits)
  have "set (stmt_params st) = snd ` set (numbered w)" by (auto simp: st)
  then show ?thesis by (simp add: set_snd_numbered length_bind_values none)
next
  case False
  define act where "act = (if w_mode w = ''append'' then DoNothing
      else DoUpdate (key_updates w @ revive_updates w))"
  from False assms have st: "st = Insert (w_table w) (map fst (w_row w))
      (places 0 (length (w_row w))) (w_key_columns w) act"
    by (simp add: build_stmt_Inr act_def)
  show ?thesis
  proof (cases "w_revive w")
    case None
    then show ?thesis
      by (simp add: st act_def length_bind_values revive_updates_def)
  next
    case (Some rv)
    with assms have "w_mode w = ''upsert''"
      by (simp add: build_stmt_Inr check_revive_Inr)
    then have "set (stmt_params st) = {1..length (w_row w)}
        \<union> set (concat (map (\<lambda>ce. sexp_params (snd ce)) (revive_updates w)))"
      by (simp add: st act_def)
    also have "\<dots> = {1..length (w_row w)}
        \<union> {Suc (length (w_row w))..Suc (length (w_row w) + length (rv_from_values rv))}"
      by (simp only: revive_updates_params [OF Some])
    also have "\<dots> = {1..length (bind_values w)}"
      by (auto simp: length_bind_values Some)
    finally show ?thesis .
  qed
qed

text \<open>
  Every SQL text \<open>build_sql\<close> returns is the text of a statement that uses exactly the
  placeholders 1 to n, n being the number of values \<open>_bind_values\<close> sends with it: no value is left
  unused and none is missing, in every mode and with or without a revive.
\<close>

lemma build_sql_params:
  assumes "build_sql w = Inr sql"
  shows "\<exists>st. build_stmt w = Inr st \<and> sql = render_stmt st
           \<and> set (stmt_params st) = {1..length (bind_values w)}"
  using assms by (auto simp: build_sql_def res_simps stmt_params_exact)

end
