(* ===== verification/Pg_Store.thy ===== *)
theory Pg_Store
  imports Write_Sql
begin

text \<open>
  What a statement of \<open>Write_Sql\<close> does to a table, and \<open>PostgresPool.execute\<close>.

  A row is its columns, NULL being \<open>PNone\<close>; a table is its rows. The statements mean what SQL says
  they mean: an INSERT fails on a NULL key, takes the conflict action when a row with the same key
  exists and appends a row otherwise, with the schema's column defaults (a parameter, as the schema
  is not in this repository) for columns it does not name; every SET expression reads the old row;
  a NULL never equals anything. A statement the server cannot parse or plan (an empty SET list, a
  column assigned twice) is an error of class PostgresError, and a number of parameters other than
  the number of placeholders is asyncpg's InterfaceError.

  \<open>apply_write\<close> states what a \<open>Write\<close> promises, on the row dict alone; \<open>run_write_refines\<close> shows
  that the statement and the parameters the code sends do exactly that. The locale \<open>row_store\<close> is
  the contract the rest of the program relies on, and \<open>pg\<close> its interpretation on the model.
\<close>

section \<open>Tables\<close>

type_synonym row = "string \<Rightarrow> py"
type_synonym table = "row list"

definition key_match :: "string list \<Rightarrow> row \<Rightarrow> row \<Rightarrow> bool" where
  "key_match ks r n \<longleftrightarrow> list_all (\<lambda>k. r k = n k \<and> n k \<noteq> PNone) ks"

definition lookup_row :: "string list \<Rightarrow> table \<Rightarrow> py list \<Rightarrow> row option" where
  "lookup_row ks t kv = List.find (\<lambda>r. map r ks = kv) t"

text \<open>The columns of \<open>d\<close> written over \<open>r\<close>.\<close>

definition overlay :: "dict \<Rightarrow> row \<Rightarrow> row" where
  "overlay d r = (\<lambda>c. case map_of d c of None \<Rightarrow> r c | Some v \<Rightarrow> v)"

section \<open>The meaning of a statement\<close>

fun bound_value :: "bound \<Rightarrow> py" where
  "bound_value (Raw v) = v"
| "bound_value (Dumped v) = v"

definition param :: "bound list \<Rightarrow> nat \<Rightarrow> py" where
  "param ps i = bound_value (ps ! (i - 1))"

fun eval_sexp :: "bound list \<Rightarrow> row \<Rightarrow> row \<Rightarrow> sexp \<Rightarrow> py" where
  "eval_sexp ps new old (Param i) = param ps i"
| "eval_sexp ps new old (Excluded c) = new c"
| "eval_sexp ps new old (OldCol c) = old c"
| "eval_sexp ps new old (CaseIn c is e1 e2) =
     (if old c \<noteq> PNone \<and> old c \<in> set (map (param ps) is)
      then eval_sexp ps new old e1 else eval_sexp ps new old e2)"

definition assign :: "bound list \<Rightarrow> row \<Rightarrow> (string \<times> sexp) list \<Rightarrow> row \<Rightarrow> row" where
  "assign ps new us old =
     (\<lambda>c. case map_of us c of None \<Rightarrow> old c | Some e \<Rightarrow> eval_sexp ps new old e)"

fun stmt_ok :: "stmt \<Rightarrow> bool" where
  "stmt_ok (Insert t cols ps conflict act) \<longleftrightarrow>
     cols \<noteq> [] \<and> distinct cols \<and> conflict \<noteq> [] \<and> length ps = length cols
     \<and> (case act of DoNothing \<Rightarrow> True
        | DoUpdate us \<Rightarrow> us \<noteq> [] \<and> distinct (map fst us)
            \<and> list_all (\<lambda>ce. case snd ce of CaseIn c is e1 e2 \<Rightarrow> is \<noteq> [] | _ \<Rightarrow> True) us)"
| "stmt_ok (Update t sets wheres) \<longleftrightarrow>
     sets \<noteq> [] \<and> wheres \<noteq> [] \<and> distinct (map fst sets)"

definition where_match :: "bound list \<Rightarrow> (string \<times> nat) list \<Rightarrow> row \<Rightarrow> bool" where
  "where_match ps ws r \<longleftrightarrow> list_all (\<lambda>(c, i). r c = param ps i \<and> param ps i \<noteq> PNone) ws"

definition set_params :: "bound list \<Rightarrow> (string \<times> nat) list \<Rightarrow> row \<Rightarrow> row" where
  "set_params ps ss r = (\<lambda>c. case map_of ss c of None \<Rightarrow> r c | Some i \<Rightarrow> param ps i)"

fun run_stmt :: "row \<Rightarrow> stmt \<Rightarrow> bound list \<Rightarrow> table \<Rightarrow> (table \<times> nat) res" where
  "run_stmt dflt (Insert t cols is conflict act) ps tbl =
     (if \<not> stmt_ok (Insert t cols is conflict act) then Inl PostgresWriteError
      else if set (stmt_params (Insert t cols is conflict act)) \<noteq> {1..length ps} then Inl InterfaceError
      else
        (let new = overlay (zip cols (map (param ps) is)) dflt in
         if \<exists>k \<in> set conflict. new k = PNone then Inl PostgresWriteError
         else if list_ex (\<lambda>r. key_match conflict r new) tbl then
           (case act of
              DoNothing \<Rightarrow> Inr (tbl, 0)
            | DoUpdate us \<Rightarrow>
                Inr (map (\<lambda>r. if key_match conflict r new then assign ps new us r else r) tbl, 1))
         else Inr (tbl @ [new], 1)))"
| "run_stmt dflt (Update t sets wheres) ps tbl =
     (if \<not> stmt_ok (Update t sets wheres) then Inl PostgresWriteError
      else if set (stmt_params (Update t sets wheres)) \<noteq> {1..length ps} then Inl InterfaceError
      else Inr (map (\<lambda>r. if where_match ps wheres r then set_params ps sets r else r) tbl,
                length (filter (where_match ps wheres) tbl)))"

definition run_write :: "row \<Rightarrow> pg_write \<Rightarrow> table \<Rightarrow> (table \<times> nat) res" where
  "run_write dflt w tbl = rbind (build_stmt w) (\<lambda>st. run_stmt dflt st (bind_values w) tbl)"

section \<open>What a Write promises\<close>

text \<open>
  The writes a handler may make: a row without duplicate columns that carries every key column
  with a value, at least one other column, and a revive only where \<open>build_sql\<close> accepts it.
\<close>

definition wf_write :: "pg_write \<Rightarrow> bool" where
  "wf_write w \<longleftrightarrow>
     w_mode w \<in> {''upsert'', ''append'', ''update''}
     \<and> distinct (map fst (w_row w))
     \<and> w_key_columns w \<noteq> [] \<and> distinct (w_key_columns w)
     \<and> (\<forall>k \<in> set (w_key_columns w). dget (w_row w) k \<noteq> PNone)
     \<and> (\<exists>c \<in> fst ` set (w_row w). c \<notin> set (w_key_columns w))
     \<and> check_revive w = Inr ()
     \<and> (\<forall>rv. w_revive w = Some rv \<longrightarrow>
          rv_column rv \<noteq> rv_at_column rv \<and> rv_from_values rv \<noteq> []
          \<and> rv_to_value rv \<notin> set (rv_from_values rv))"

definition revived :: "pg_write \<Rightarrow> row \<Rightarrow> row \<Rightarrow> row" where
  "revived w old r =
     (case w_revive w of
        None \<Rightarrow> r
      | Some rv \<Rightarrow>
          (if old (rv_column rv) \<in> (PStr ` set (rv_from_values rv))
           then r(rv_column rv := PStr (rv_to_value rv),
                  rv_at_column rv := dget (w_row w) (rv_at_from rv))
           else r))"

text \<open>The effect on the row found under the write's key.\<close>

definition merge_row :: "row \<Rightarrow> pg_write \<Rightarrow> row option \<Rightarrow> row option" where
  "merge_row dflt w old =
     (case old of
        None \<Rightarrow> (if w_mode w = ''update'' then None else Some (overlay (w_row w) dflt))
      | Some r \<Rightarrow>
          (if w_mode w = ''append'' then Some r
           else Some (revived w r (overlay (w_row w) r))))"

definition write_key :: "pg_write \<Rightarrow> py list" where
  "write_key w = map (dget (w_row w)) (w_key_columns w)"

definition row_hit :: "pg_write \<Rightarrow> row \<Rightarrow> bool" where
  "row_hit w r \<longleftrightarrow> map r (w_key_columns w) = write_key w"

definition apply_write :: "row \<Rightarrow> pg_write \<Rightarrow> table \<Rightarrow> table" where
  "apply_write dflt w tbl =
     (if list_ex (row_hit w) tbl
      then map (\<lambda>r. if row_hit w r then the (merge_row dflt w (Some r)) else r) tbl
      else (case merge_row dflt w None of None \<Rightarrow> tbl | Some r \<Rightarrow> tbl @ [r]))"

definition write_count :: "pg_write \<Rightarrow> table \<Rightarrow> nat" where
  "write_count w tbl =
     (if w_mode w = ''update'' then length (filter (row_hit w) tbl)
      else if w_mode w = ''append'' \<and> list_ex (row_hit w) tbl then 0 else 1)"

section \<open>Refinement\<close>

lemma overlay_simps [simp]:
  "overlay [] r = r"
  "overlay ((c, v) # d) r = (overlay d r)(c := v)"
  by (auto simp: overlay_def fun_eq_iff)

lemma overlay_in: "c \<in> fst ` set d \<Longrightarrow> overlay d r c = dget d c"
  by (auto simp: overlay_def dget_def dget_or_def dom_map_of_conv_image_fst[symmetric] dom_def)

lemma overlay_notin: "c \<notin> fst ` set d \<Longrightarrow> overlay d r c = r c"
  by (simp add: overlay_def map_of_eq_None_iff[THEN iffD2])

lemma overlay_overlay: "fst ` set d \<subseteq> fst ` set e \<Longrightarrow> overlay e (overlay d r) = overlay e r"
proof
  fix c
  assume sub: "fst ` set d \<subseteq> fst ` set e"
  show "overlay e (overlay d r) c = overlay e r c"
  proof (cases "c \<in> fst ` set e")
    case False
    with sub have "c \<notin> fst ` set d" by auto
    with False show ?thesis by (simp add: overlay_notin)
  qed (simp add: overlay_in)
qed

lemma bound_value_bind:
  "i < length (w_row w) \<Longrightarrow> bound_value (bind_values w ! i) = snd (w_row w ! i)"
  by (auto simp: bind_values_def nth_append split: prod.split)

lemma param_place [simp]:
  "i < length (w_row w) \<Longrightarrow> param (bind_values w) (Suc i) = snd (w_row w ! i)"
  by (simp add: param_def bound_value_bind)

lemma params_of_row: "map (param (bind_values w)) (places 0 (length (w_row w))) = map snd (w_row w)"
  by (rule nth_equalityI) auto

lemma zip_row: "zip (map fst (w_row w)) (map snd (w_row w)) = w_row w"
  by (simp add: zip_map_fst_snd)

lemma numbered_params: "map (\<lambda>(c, i). (c, param (bind_values w) i)) (numbered w) = w_row w"
  by (rule nth_equalityI) (auto simp: numbered_def split: prod.split intro: prod_eqI)

lemma param_revive_value:
  "w_revive w = Some rv \<Longrightarrow> i < length (rv_from_values rv) \<Longrightarrow>
     param (bind_values w) (Suc (length (w_row w) + i)) = PStr (rv_from_values rv ! i)"
  by (auto simp: param_def bind_values_def nth_append)

lemma param_revive_to:
  "w_revive w = Some rv \<Longrightarrow>
     param (bind_values w) (Suc (length (w_row w) + length (rv_from_values rv)))
       = PStr (rv_to_value rv)"
  by (auto simp: param_def bind_values_def nth_append)

lemma params_of_revive:
  "w_revive w = Some rv \<Longrightarrow>
     set (map (param (bind_values w)) (places (length (w_row w)) (length (rv_from_values rv))))
       = PStr ` set (rv_from_values rv)"
proof -
  assume rv: "w_revive w = Some rv"
  have "map (param (bind_values w)) (places (length (w_row w)) (length (rv_from_values rv)))
      = map PStr (rv_from_values rv)"
    by (rule nth_equalityI) (auto simp: param_revive_value [OF rv])
  then show ?thesis by (metis set_map)
qed

text \<open>The facts a well-formed write gives.\<close>

lemma wf_writeD:
  assumes "wf_write w"
  shows "distinct (map fst (w_row w))" "w_key_columns w \<noteq> []" "check_revive w = Inr ()"
    "k \<in> set (w_key_columns w) \<Longrightarrow> dget (w_row w) k \<noteq> PNone"
    "k \<in> set (w_key_columns w) \<Longrightarrow> k \<in> fst ` set (w_row w)"
    "\<exists>c \<in> fst ` set (w_row w). c \<notin> set (w_key_columns w)"
  using assms by (auto simp: wf_write_def dest: dget_notin)

lemma key_match_overlay:
  assumes "wf_write w"
  shows "key_match (w_key_columns w) r (overlay (w_row w) s) \<longleftrightarrow> row_hit w r"
  using wf_writeD(4,5) [OF assms]
  by (auto simp: key_match_def row_hit_def write_key_def list_all_iff overlay_in)

lemma updates_distinct:
  assumes "wf_write w"
  shows "distinct (map fst (key_updates w @ revive_updates w))"
proof -
  have "distinct (map fst (key_updates w))"
    using wf_writeD(1) [OF assms] by (simp add: key_updates_def comp_def)
  moreover have "fst ` set (key_updates w) \<subseteq> fst ` set (w_row w)"
    by (force simp: key_updates_def)
  moreover have "distinct (map fst (revive_updates w))
      \<and> fst ` set (revive_updates w) \<inter> fst ` set (w_row w) = {}"
  proof (cases "w_revive w")
    case (Some rv)
    with assms have "rv_column rv \<noteq> rv_at_column rv" "rv_column rv \<notin> fst ` set (w_row w)"
        "rv_at_column rv \<notin> fst ` set (w_row w)"
      by (simp_all add: wf_write_def check_revive_Inr)
    with Some show ?thesis by (simp add: revive_updates_def Let_def)
  qed (simp add: revive_updates_def)
  ultimately show ?thesis by auto
qed

lemma updates_stmt_ok:
  assumes "wf_write w"
  shows "stmt_ok (Insert t (map fst (w_row w)) (places 0 (length (w_row w))) (w_key_columns w)
           (DoUpdate (key_updates w @ revive_updates w)))"
proof -
  have "key_updates w \<noteq> []"
    using wf_writeD(6) [OF assms] by (auto simp: key_updates_def filter_empty_conv)
  moreover have "list_all (\<lambda>ce. case snd ce of CaseIn c is e1 e2 \<Rightarrow> is \<noteq> [] | _ \<Rightarrow> True)
      (key_updates w @ revive_updates w)"
  proof (cases "w_revive w")
    case (Some rv)
    with assms have "rv_from_values rv \<noteq> []" by (simp add: wf_write_def)
    then have "places (length (w_row w)) (length (rv_from_values rv)) \<noteq> []"
      by (metis length_0_conv length_places)
    with Some show ?thesis by (auto simp: key_updates_def revive_updates_def Let_def list_all_iff)
  qed (auto simp: key_updates_def revive_updates_def list_all_iff)
  ultimately show ?thesis
    using wf_writeD(1,2,6) [OF assms] updates_distinct [OF assms] by auto
qed

lemma map_of_key_updates:
  "map_of (key_updates w) c =
     (if c \<in> fst ` set (w_row w) \<and> c \<notin> set (w_key_columns w) then Some (Excluded c) else None)"
  by (auto simp: key_updates_def map_of_map_restrict restrict_map_def)

lemma eval_revive_case:
  assumes "wf_write w" and rv: "w_revive w = Some rv"
  shows "eval_sexp (bind_values w) new old
      (CaseIn c (places (length (w_row w)) (length (rv_from_values rv))) e1 e2) =
    (if old c \<in> PStr ` set (rv_from_values rv) then eval_sexp (bind_values w) new old e1
     else eval_sexp (bind_values w) new old e2)"
  by (auto simp: params_of_revive [OF rv, simplified])

text \<open>The DO UPDATE list writes every non-key column of the row and applies the revive.\<close>

lemma assign_updates:
  assumes w: "wf_write w" and hit: "row_hit w r"
  shows "assign (bind_values w) (overlay (w_row w) d) (key_updates w @ revive_updates w) r
       = revived w r (overlay (w_row w) r)"
proof
  fix c
  have key: "k \<in> set (w_key_columns w) \<Longrightarrow> r k = dget (w_row w) k" for k
    using hit by (auto simp: row_hit_def write_key_def)
  have plain: "assign (bind_values w) (overlay (w_row w) d) (key_updates w) r c
      = overlay (w_row w) r c"
    using key wf_writeD(5) [OF w, of c]
    by (auto simp: assign_def map_of_key_updates overlay_in overlay_notin)
  show "assign (bind_values w) (overlay (w_row w) d) (key_updates w @ revive_updates w) r c
      = revived w r (overlay (w_row w) r) c"
  proof (cases "w_revive w")
    case None
    with plain show ?thesis by (simp add: revive_updates_def revived_def)
  next
    case (Some rv)
    let ?a = "rv_at_column rv" and ?c = "rv_column rv"
    have rv: "?c \<notin> fst ` set (w_row w)" "?a \<notin> fst ` set (w_row w)"
        "rv_at_from rv \<in> fst ` set (w_row w)" "?c \<noteq> ?a"
      using w Some by (auto simp: wf_write_def check_revive_Inr)
    have none: "map_of (key_updates w) ?a = None" "map_of (key_updates w) ?c = None"
      using rv by (auto simp: map_of_key_updates)
    show ?thesis
    proof (cases "c = ?a \<or> c = ?c")
      case True
      then show ?thesis
        using rv none
        by (auto simp: assign_def revive_updates_def Some Let_def revived_def map_add_def
            eval_revive_case [OF w Some] param_revive_to [OF Some] overlay_in overlay_notin
            simp del: eval_sexp.simps(4))
    next
      case False
      then have "map_of (revive_updates w) c = None"
        by (simp add: revive_updates_def Some Let_def)
      with plain False show ?thesis
        by (auto simp: assign_def map_add_def revived_def Some split: option.splits)
    qed
  qed
qed

lemma where_key_params:
  assumes w: "wf_write w"
  shows "where_match (bind_values w) (filter (\<lambda>ci. fst ci \<in> set (w_key_columns w)) (numbered w)) r
      \<longleftrightarrow> row_hit w r"
proof -
  have num: "(c, v) \<in> set (w_row w) \<longleftrightarrow> (\<exists>i. (c, i) \<in> set (numbered w) \<and> v = param (bind_values w) i)" for c v
    using arg_cong [OF numbered_params [of w], of set] by (force simp: set_eq_iff)
  have get: "(c, i) \<in> set (numbered w) \<Longrightarrow> param (bind_values w) i = dget (w_row w) c" for c i
    using wf_writeD(1) [OF w] num [of c "param (bind_values w) i"]
    by (auto simp: dget_def dget_or_def)
  have mem: "c \<in> set (w_key_columns w) \<Longrightarrow> \<exists>i. (c, i) \<in> set (numbered w)" for c
    using wf_writeD(5) [OF w] num by force
  show ?thesis
    using get mem wf_writeD(4) [OF w]
    by (fastforce simp: where_match_def row_hit_def write_key_def list_all_iff)
qed

lemma set_key_params:
  assumes w: "wf_write w" and hit: "row_hit w r"
  shows "set_params (bind_values w) (filter (\<lambda>ci. fst ci \<notin> set (w_key_columns w)) (numbered w)) r
      = overlay (w_row w) r"
proof
  fix c
  let ?n = "filter (\<lambda>ci. fst ci \<notin> set (w_key_columns w)) (numbered w)"
  have row: "map_of (w_row w) c = map_option (param (bind_values w)) (map_of (numbered w) c)"
    by (subst numbered_params [symmetric]) (simp add: map_of_map)
  have flt: "map_of ?n c = (if c \<in> set (w_key_columns w) then None else map_of (numbered w) c)"
    by (simp add: map_of_filter_fst [where P = "\<lambda>c. c \<notin> set (w_key_columns w)"])
  have key: "k \<in> set (w_key_columns w) \<Longrightarrow> r k = dget (w_row w) k" for k
    using hit by (auto simp: row_hit_def write_key_def)
  show "set_params (bind_values w) ?n r c = overlay (w_row w) r c"
    using key wf_writeD(5) [OF w, of c]
    by (auto simp: set_params_def flt overlay_in) (auto simp: overlay_def row split: option.split)
qed

lemma no_match_hit:
  "wf_write w \<Longrightarrow> list_ex (\<lambda>r. key_match (w_key_columns w) r (overlay (w_row w) d)) tbl
     = list_ex (row_hit w) tbl"
  by (simp add: key_match_overlay)

lemma run_update_refines:
  assumes w: "wf_write w" and m: "w_mode w = ''update''"
  shows "run_write dflt w tbl = Inr (apply_write dflt w tbl, write_count w tbl)"
proof -
  have ok: "check_revive w = Inr ()" by (rule wf_writeD(3) [OF w])
  let ?st = "Update (w_table w)
    (filter (\<lambda>ci. fst ci \<notin> set (w_key_columns w)) (numbered w))
    (filter (\<lambda>ci. fst ci \<in> set (w_key_columns w)) (numbered w))"
  have st: "build_stmt w = Inr ?st" using m ok by (simp add: build_stmt_Inr)
  have none: "w_revive w = None" using ok m by (auto simp: check_revive_Inr)
  have cols: "fst ` set (numbered w) = fst ` set (w_row w)"
    by (metis fst_numbered list.set_map)
  have mem: "c \<in> fst ` set (w_row w) \<Longrightarrow> \<exists>ci \<in> set (numbered w). fst ci = c" for c
    using cols by (metis imageE)
  obtain c where "c \<in> fst ` set (w_row w)" "c \<notin> set (w_key_columns w)"
    using wf_writeD(6) [OF w] by blast
  with mem have sets: "filter (\<lambda>ci. fst ci \<notin> set (w_key_columns w)) (numbered w) \<noteq> []"
    unfolding filter_empty_conv by metis
  obtain k where k: "k \<in> set (w_key_columns w)" using wf_writeD(2) [OF w] by (cases "w_key_columns w") auto
  with mem wf_writeD(5) [OF w] have wheres: "filter (\<lambda>ci. fst ci \<in> set (w_key_columns w)) (numbered w) \<noteq> []"
    unfolding filter_empty_conv by metis
  have "distinct (map fst (numbered w))" using wf_writeD(1) [OF w] by simp
  then have sok: "stmt_ok ?st"
    using sets wheres by (simp add: distinct_map_filter)
  have upd: "(if row_hit w r then set_params (bind_values w)
      (filter (\<lambda>ci. fst ci \<notin> set (w_key_columns w)) (numbered w)) r else r)
      = (if row_hit w r then overlay (w_row w) r else r)" for r
    by (simp add: set_key_params [OF w])
  have wm: "where_match (bind_values w)
      (filter (\<lambda>ci. fst ci \<in> set (w_key_columns w)) (numbered w)) = row_hit w"
    by (rule ext) (rule where_key_params [OF w])
  have hits: "\<not> list_ex (row_hit w) tbl \<Longrightarrow>
      map (\<lambda>r. if row_hit w r then overlay (w_row w) r else r) tbl = tbl"
    by (induction tbl) auto
  show ?thesis
    using sok stmt_params_exact [OF st] m hits
    by (simp add: run_write_def st wm upd apply_write_def write_count_def
        merge_row_def revived_def none del: stmt_ok.simps stmt_params.simps cong: if_cong map_cong)
qed

text \<open>The statement and its parameters do what the Write promises.\<close>

lemma run_write_refines:
  assumes w: "wf_write w"
  shows "run_write dflt w tbl = Inr (apply_write dflt w tbl, write_count w tbl)"
proof -
  have mode: "w_mode w = ''upsert'' \<or> w_mode w = ''append'' \<or> w_mode w = ''update''"
    using w by (simp add: wf_write_def)
  have ok: "check_revive w = Inr ()" by (rule wf_writeD(3) [OF w])
  have new: "overlay (zip (map fst (w_row w))
      (map (param (bind_values w)) (places 0 (length (w_row w))))) dflt = overlay (w_row w) dflt"
    by (simp only: params_of_row zip_row)
  have keys: "\<not> (\<exists>k \<in> set (w_key_columns w). overlay (w_row w) dflt k = PNone)"
    using wf_writeD(4,5) [OF w] by (simp add: overlay_in)
  from mode show ?thesis
  proof (elim disjE)
    assume m: "w_mode w = ''upsert''"
    let ?st = "Insert (w_table w) (map fst (w_row w)) (places 0 (length (w_row w)))
      (w_key_columns w) (DoUpdate (key_updates w @ revive_updates w))"
    have st: "build_stmt w = Inr ?st" using m ok by (simp add: build_stmt_Inr)
    show ?thesis
      using updates_stmt_ok [OF w] stmt_params_exact [OF st] keys m
      by (simp add: run_write_def st new key_match_overlay [OF w] assign_updates [OF w] Let_def
          apply_write_def write_count_def merge_row_def del: stmt_ok.simps stmt_params.simps
          cong: if_cong map_cong)
  next
    assume m: "w_mode w = ''append''"
    let ?st = "Insert (w_table w) (map fst (w_row w)) (places 0 (length (w_row w)))
      (w_key_columns w) DoNothing"
    have st: "build_stmt w = Inr ?st" using m ok by (simp add: build_stmt_Inr)
    have sok: "stmt_ok ?st" using wf_writeD(1,2,6) [OF w] by auto
    show ?thesis
      using sok stmt_params_exact [OF st] keys m
      by (simp add: run_write_def st new key_match_overlay [OF w] Let_def
          apply_write_def write_count_def merge_row_def del: stmt_ok.simps stmt_params.simps
          cong: if_cong map_cong)
  next
    assume "w_mode w = ''update''"
    with w show ?thesis by (rule run_update_refines)
  qed
qed

section \<open>The contract of a keyed store\<close>

text \<open>
  What the consumer, the retry loop and the redelivery argument rely on: a write changes nothing
  but the row under its key, the new row is a function of the old one, and writing twice is
  writing once.
\<close>

locale row_store =
  fixes lookup :: "'s \<Rightarrow> 'k \<Rightarrow> 'r option"
    and put :: "'w \<Rightarrow> 's \<Rightarrow> 's"
    and key_of :: "'w \<Rightarrow> 'k"
    and merge :: "'w \<Rightarrow> 'r option \<Rightarrow> 'r option"
    and ok :: "'w \<Rightarrow> bool"
  assumes lookup_same: "ok w \<Longrightarrow> lookup (put w s) (key_of w) = merge w (lookup s (key_of w))"
    and lookup_other: "ok w \<Longrightarrow> k \<noteq> key_of w \<Longrightarrow> lookup (put w s) k = lookup s k"
    and merge_idem: "ok w \<Longrightarrow> merge w (merge w x) = merge w x"
begin

lemma lookup_put:
  "ok w \<Longrightarrow> lookup (put w s) k = (if k = key_of w then merge w (lookup s k) else lookup s k)"
  by (simp add: lookup_same lookup_other)

lemma put_twice: "ok w \<Longrightarrow> lookup (put w (put w s)) k = lookup (put w s) k"
  by (simp add: lookup_put merge_idem)

lemma put_swap:
  "ok v \<Longrightarrow> ok w \<Longrightarrow> key_of v \<noteq> key_of w \<Longrightarrow> lookup (put v (put w s)) k = lookup (put w (put v s)) k"
  by (simp add: lookup_put)

text \<open>A run of writes, seen from one key, is the run of that key's merges.\<close>

lemma lookup_fold:
  "\<forall>w \<in> set ws. ok w \<Longrightarrow>
     lookup (fold put ws s) k = fold merge (filter (\<lambda>w. key_of w = k) ws) (lookup s k)"
  by (induction ws arbitrary: s) (auto simp: lookup_put)

end

text \<open>
  A later write of the same key that names at least the columns of the earlier one makes the
  earlier one irrelevant. This is what batch coalescing needs.
\<close>

locale overwriting_store = row_store +
  fixes covers :: "'c \<Rightarrow> 'c \<Rightarrow> bool"
  assumes merge_covered:
    "ok w \<Longrightarrow> ok v \<Longrightarrow> key_of w = key_of v \<Longrightarrow> covers v w \<Longrightarrow> merge v (merge w x) = merge v x"
begin

lemma merge_last:
  assumes "ws \<noteq> []" and "\<forall>w \<in> set ws. ok w \<and> key_of w = k \<and> covers (last ws) w"
  shows "fold merge ws x = merge (last ws) x"
  using assms
proof (induction ws arbitrary: x)
  case (Cons w ws)
  show ?case
  proof (cases ws)
    case Nil
    then show ?thesis by simp
  next
    case (Cons v vs)
    with Cons.IH Cons.prems have "fold merge ws (merge w x) = merge (last ws) (merge w x)"
      by simp
    moreover from Cons Cons.prems have "ok (last ws)" "key_of w = key_of (last ws)" "covers (last ws) w"
      using last_in_set [of ws] by auto
    ultimately show ?thesis
      using Cons Cons.prems merge_covered [of w "last ws" x] by simp
  qed
qed simp

text \<open>Delivering a prefix and then everything again is delivering everything once.\<close>

lemma merge_replay:
  assumes "ws \<noteq> []" and "set pre \<subseteq> set ws"
    and "\<forall>w \<in> set ws. ok w \<and> key_of w = k \<and> covers (last ws) w"
  shows "fold merge (pre @ ws) x = fold merge ws x"
  using assms merge_last [of "pre @ ws" k x] merge_last [of ws k x] by auto

end

section \<open>The model is such a store\<close>

text \<open>
  The writes of a table with primary key \<open>ks\<close> and column defaults \<open>dflt\<close>. The last condition is on
  the schema: a freshly inserted row does not hold a value the write would revive at once.
\<close>

definition ok_write :: "row \<Rightarrow> string list \<Rightarrow> pg_write \<Rightarrow> bool" where
  "ok_write dflt ks w \<longleftrightarrow> wf_write w \<and> w_key_columns w = ks
     \<and> (\<forall>rv. w_revive w = Some rv \<longrightarrow> dflt (rv_column rv) \<notin> PStr ` set (rv_from_values rv))"

definition covers_write :: "pg_write \<Rightarrow> pg_write \<Rightarrow> bool" where
  "covers_write v w \<longleftrightarrow> w_mode v = ''upsert'' \<and> w_mode w = ''upsert''
     \<and> w_revive v = None \<and> w_revive w = None \<and> fst ` set (w_row w) \<subseteq> fst ` set (w_row v)"

lemma lookup_row_Cons:
  "lookup_row ks (r # t) kv = (if map r ks = kv then Some r else lookup_row ks t kv)"
  by (simp add: lookup_row_def)

lemma lookup_row_Nil [simp]: "lookup_row ks [] kv = None"
  by (simp add: lookup_row_def)

lemma lookup_row_append:
  "lookup_row ks (t @ u) kv
     = (case lookup_row ks t kv of None \<Rightarrow> lookup_row ks u kv | Some r \<Rightarrow> Some r)"
  by (induction t) (auto simp: lookup_row_Cons)

lemma lookup_row_None: "lookup_row ks t kv = None \<longleftrightarrow> (\<forall>r \<in> set t. map r ks \<noteq> kv)"
  by (induction t) (auto simp: lookup_row_Cons)

lemma lookup_row_SomeD: "lookup_row ks t kv = Some r \<Longrightarrow> r \<in> set t \<and> map r ks = kv"
  by (induction t) (auto simp: lookup_row_Cons split: if_splits)

lemma lookup_row_map:
  "(\<And>r. map (f r) ks = map r ks) \<Longrightarrow>
     lookup_row ks (map f t) kv = map_option f (lookup_row ks t kv)"
  by (induction t) (auto simp: lookup_row_Cons)

lemma lookup_row_map_on:
  "(\<And>r. r \<in> set t \<Longrightarrow> map (f r) ks = map r ks) \<Longrightarrow>
     lookup_row ks (map f t) kv = map_option f (lookup_row ks t kv)"
  by (induction t) (auto simp: lookup_row_Cons)

lemma revived_keys:
  assumes "wf_write w" "k \<in> fst ` set (w_row w)"
  shows "revived w old r k = r k"
proof (cases "w_revive w")
  case (Some rv)
  with assms(1) have "rv_column rv \<notin> fst ` set (w_row w)" "rv_at_column rv \<notin> fst ` set (w_row w)"
    by (simp_all add: wf_write_def check_revive_Inr)
  with assms(2) have "k \<noteq> rv_column rv" "k \<noteq> rv_at_column rv" by metis+
  with Some show ?thesis by (simp add: revived_def)
qed (simp add: revived_def)

lemma overlay_key:
  assumes "wf_write w"
  shows "map (overlay (w_row w) d) (w_key_columns w) = write_key w"
  using wf_writeD(5) [OF assms] by (auto simp: write_key_def overlay_in)

lemma revived_overlay_key:
  assumes "wf_write w"
  shows "map (revived w old (overlay (w_row w) d)) (w_key_columns w) = write_key w"
proof -
  have "map (revived w old (overlay (w_row w) d)) (w_key_columns w)
      = map (overlay (w_row w) d) (w_key_columns w)"
    using wf_writeD(5) [OF assms] revived_keys [OF assms] by simp
  then show ?thesis by (simp add: overlay_key [OF assms])
qed

lemma apply_write_lookup:
  assumes ok: "ok_write dflt ks w"
  shows "lookup_row ks (apply_write dflt w t) kv =
    (if kv = write_key w then merge_row dflt w (lookup_row ks t kv) else lookup_row ks t kv)"
proof -
  from ok have w: "wf_write w" and ks: "w_key_columns w = ks" by (auto simp: ok_write_def)
  show ?thesis
  proof (cases "list_ex (row_hit w) t")
    case True
    let ?f = "\<lambda>r. if row_hit w r then the (merge_row dflt w (Some r)) else r"
    have keep: "map (?f r) ks = map r ks" for r
    proof (cases "row_hit w r \<and> w_mode w \<noteq> ''append''")
      case True
      then have "map (?f r) ks = write_key w"
        using revived_overlay_key [OF w, of r r] ks by (simp add: merge_row_def)
      with True ks show ?thesis by (simp add: row_hit_def)
    qed (auto simp: merge_row_def)
    have "lookup_row ks (map ?f t) kv = map_option ?f (lookup_row ks t kv)"
      by (rule lookup_row_map [OF keep])
    moreover have "row_hit w r \<longleftrightarrow> kv = write_key w" if "lookup_row ks t kv = Some r" for r
      using lookup_row_SomeD [OF that] ks by (auto simp: row_hit_def)
    moreover have "lookup_row ks t (write_key w) \<noteq> None"
      using True ks by (auto simp: lookup_row_None list_ex_iff row_hit_def)
    ultimately show ?thesis
      using True
      by (cases "lookup_row ks t kv") (auto simp: apply_write_def merge_row_def)
  next
    case False
    then have none: "lookup_row ks t (write_key w) = None"
      using ks by (auto simp: lookup_row_None list_ex_iff row_hit_def)
    show ?thesis
      using False none overlay_key [OF w, of dflt] ks
      by (auto simp: apply_write_def merge_row_def lookup_row_append lookup_row_Cons
          split: option.split)
  qed
qed

lemma merge_row_idem:
  assumes ok: "ok_write dflt ks w"
  shows "merge_row dflt w (merge_row dflt w x) = merge_row dflt w x"
proof -
  have w: "wf_write w" using ok by (simp add: ok_write_def)
  have once: "revived w (revived w r (overlay (w_row w) r))
      (overlay (w_row w) (revived w r (overlay (w_row w) r))) = revived w r (overlay (w_row w) r)" for r
  proof (cases "w_revive w")
    case None
    then show ?thesis by (simp add: revived_def overlay_overlay)
  next
    case (Some rv)
    have facts: "rv_column rv \<notin> fst ` set (w_row w)" "rv_at_column rv \<notin> fst ` set (w_row w)"
        "rv_column rv \<noteq> rv_at_column rv" "rv_to_value rv \<notin> set (rv_from_values rv)"
      using w Some by (auto simp: wf_write_def check_revive_Inr)
    have "overlay (w_row w) (revived w r (overlay (w_row w) r)) = revived w r (overlay (w_row w) r)"
    proof
      fix c
      show "overlay (w_row w) (revived w r (overlay (w_row w) r)) c
          = revived w r (overlay (w_row w) r) c"
        by (cases "c \<in> fst ` set (w_row w)")
          (simp_all add: overlay_in overlay_notin revived_keys [OF w])
    qed
    with facts Some show ?thesis
      by (auto simp: revived_def overlay_notin image_iff)
  qed
  have fresh: "revived w (overlay (w_row w) dflt) (overlay (w_row w) dflt) = overlay (w_row w) dflt"
  proof (cases "w_revive w")
    case (Some rv)
    with ok have "rv_column rv \<notin> fst ` set (w_row w)"
        "dflt (rv_column rv) \<notin> PStr ` set (rv_from_values rv)"
      by (simp_all add: ok_write_def wf_write_def check_revive_Inr)
    with Some show ?thesis by (simp add: revived_def overlay_notin)
  qed (simp add: revived_def)
  show ?thesis
    using once fresh by (auto simp: merge_row_def overlay_overlay split: option.splits)
qed

interpretation pg: row_store "lookup_row ks" "apply_write dflt" write_key "merge_row dflt"
    "ok_write dflt ks" for ks dflt
  by unfold_locales (auto simp: apply_write_lookup merge_row_idem)

lemma merge_row_covered:
  assumes "ok_write dflt ks w" "ok_write dflt ks v" "covers_write v w"
  shows "merge_row dflt v (merge_row dflt w x) = merge_row dflt v x"
  using assms
  by (auto simp: merge_row_def covers_write_def revived_def overlay_overlay split: option.splits)

interpretation pgo: overwriting_store "lookup_row ks" "apply_write dflt" write_key "merge_row dflt"
    "ok_write dflt ks" covers_write for ks dflt
  by unfold_locales (simp add: merge_row_covered)

section \<open>Invariants of a keyed table\<close>

text \<open>Every row satisfies \<open>P\<close>, and no two have the same key.\<close>

definition keyed_rows :: "string \<Rightarrow> (row \<Rightarrow> bool) \<Rightarrow> table \<Rightarrow> bool" where
  "keyed_rows k P t \<longleftrightarrow> list_all P t \<and> distinct (map (\<lambda>r. r k) t)"

lemma keyed_rows_map:
  assumes "keyed_rows k P t" "\<And>r. P r \<Longrightarrow> P (f r) \<and> f r k = r k"
  shows "keyed_rows k P (map f t)"
proof -
  have "map (\<lambda>r. r k) (map f t) = map (\<lambda>r. r k) t"
    using assms by (simp add: keyed_rows_def list_all_iff)
  moreover have "list_all P (map f t)" using assms by (auto simp: keyed_rows_def list_all_iff)
  ultimately show ?thesis using assms(1) unfolding keyed_rows_def by metis
qed

lemma keyed_rows_snoc:
  "keyed_rows k P t \<Longrightarrow> P r \<Longrightarrow> r k \<notin> (\<lambda>r. r k) ` set t \<Longrightarrow> keyed_rows k P (t @ [r])"
  by (simp add: keyed_rows_def)

lemma keyed_rows_filter: "keyed_rows k P t \<Longrightarrow> keyed_rows k P (filter p t)"
  by (auto simp: keyed_rows_def list_all_iff distinct_map_filter)

lemma merge_row_key:
  assumes "ok_write dflt [k] w" "merge_row dflt w old = Some r" "\<And>q. old = Some q \<Longrightarrow> row_hit w q"
  shows "[r k] = write_key w"
proof -
  have w: "wf_write w" "w_key_columns w = [k]" using assms(1) by (auto simp: ok_write_def)
  show ?thesis
    using assms(2,3) overlay_key [OF w(1)] revived_overlay_key [OF w(1)] w(2)
    by (cases old) (auto simp: merge_row_def row_hit_def split: if_splits)
qed

lemma keyed_rows_write:
  assumes "ok_write dflt [k] w" "keyed_rows k P t"
    and P: "\<And>old r. (\<forall>q. old = Some q \<longrightarrow> P q) \<Longrightarrow> merge_row dflt w old = Some r \<Longrightarrow> row_hit w r \<Longrightarrow> P r"
  shows "keyed_rows k P (apply_write dflt w t)"
proof -
  have keys: "row_hit w r \<longleftrightarrow> [r k] = write_key w" for r using assms(1) by (simp add: row_hit_def ok_write_def)
  show ?thesis
  proof (cases "list_ex (row_hit w) t")
    case True
    have "P (if row_hit w r then the (merge_row dflt w (Some r)) else r)
        \<and> (if row_hit w r then the (merge_row dflt w (Some r)) else r) k = r k" if "P r" for r
    proof (cases "row_hit w r")
      case hit: True
      obtain r' where r': "merge_row dflt w (Some r) = Some r'"
        by (cases "w_mode w = ''append''") (auto simp: merge_row_def)
      have "[r' k] = write_key w" using merge_row_key [OF assms(1) r'] hit by blast
      then have "row_hit w r'" "r' k = r k" using hit unfolding keys by (simp_all add: eq_commute)
      with r' P [OF _ r'] that hit show ?thesis by simp
    qed (use that in simp)
    with True assms(2) show ?thesis unfolding apply_write_def by (simp add: keyed_rows_map)
  next
    case False
    show ?thesis
    proof (cases "merge_row dflt w None")
      case (Some r)
      have "r k \<notin> (\<lambda>r. r k) ` set t" "row_hit w r"
        using merge_row_key [OF assms(1) Some] False keys by (auto simp: list_ex_iff)
      with Some False assms(2) P [OF _ Some] show ?thesis by (simp add: apply_write_def keyed_rows_snoc)
    qed (use False assms(2) in \<open>simp add: apply_write_def\<close>)
  qed
qed

lemma lookup_filter_unique:
  assumes "keyed_rows k P t" "lookup_row [k] t [v] = Some r"
  shows "lookup_row [k] (filter p t) [v] = (if p r then Some r else None)"
proof -
  from lookup_row_SomeD [OF assms(2)] have r: "r \<in> set t" "r k = v" by simp_all
  have only: "q = r" if "q \<in> set t" "q k = v" for q
    using assms(1) that r by (metis keyed_rows_def distinct_map inj_on_def)
  show ?thesis
  proof (cases "lookup_row [k] (filter p t) [v]")
    case None
    with r show ?thesis by (auto simp: lookup_row_None)
  next
    case (Some q)
    from lookup_row_SomeD [OF Some] have "q \<in> set t" "q k = v" "p q" by simp_all
    with only Some show ?thesis by simp
  qed
qed

end
