(* ===== verification/Handler_Base.thy ===== *)
theory Handler_Base
  imports Edge_Assignment Pg_Store
begin

text \<open>
  \<open>handlers/base.py\<close>: the field-mapping helpers every handler uses, and what a handler is here.

  A handler takes the environment, the Kafka key and the decoded message and answers \<open>Skip\<close> (the
  code returns None), \<open>Refused label reason\<close> (it calls \<open>refuse_row\<close> and returns None) or
  \<open>Wrote w\<close>; a raise is \<open>Inl\<close>. The environment holds what the code reads from outside the
  message: this instance's clock (\<open>now_utc\<close>), its edge and region names, the installed
  edge-assignment resolver, \<open>datetime.fromisoformat\<close> (the instant of a text in microseconds, UTC
  assumed when it names no zone, None where it raises ValueError), the \<open>str()\<close> of a value that is no
  string, number, boolean or None, and the two generated protobuf enums, None when the stubs are
  not installed. The log lines of the fallbacks are not modelled, but for their throttle.
\<close>

section \<open>Environment and answers\<close>

record env =
  e_now :: int
  e_edge_id :: string
  e_region_id :: string
  e_resolver :: "resolver option"
  e_fromisoformat :: "string \<Rightarrow> int option"
  e_repr :: "py \<Rightarrow> string"
  e_config_status :: "(int \<Rightarrow> string option) option"
  e_lifecycle :: "(int \<Rightarrow> string option) option"

datatype answer = Skip | Refused string string | Wrote pg_write

type_synonym handler = "env \<Rightarrow> string \<Rightarrow> dict \<Rightarrow> answer res"

text \<open>\<open>(v or {})\<close> as the receiver of several \<open>.get\<close>.\<close>

definition dict_or_empty :: "py \<Rightarrow> dict res" where
  "dict_or_empty v = (case or_empty v of PDict d \<Rightarrow> Inr d | _ \<Rightarrow> Inl AttributeError)"

lemma dict_or_empty_simps [simp]:
  "dict_or_empty PNone = Inr []" "dict_or_empty (PDict d) = Inr d"
  by (simp_all add: dict_or_empty_def)

section \<open>Timestamps and durations\<close>

text \<open>\<open>value.replace("Z", "+00:00")\<close>.\<close>

definition replace_z :: "string \<Rightarrow> string" where
  "replace_z s = concat (map (\<lambda>c. if c = CHR ''Z'' then ''+00:00'' else [c]) s)"

definition parse_timestamp :: "env \<Rightarrow> py \<Rightarrow> py" where
  "parse_timestamp env v =
     (case v of
        PTime t \<Rightarrow> PTime t
      | PStr s \<Rightarrow>
          (if s = [] then PNone
           else case e_fromisoformat env (replace_z s) of None \<Rightarrow> PNone | Some t \<Rightarrow> PTime t)
      | _ \<Rightarrow> PNone)"

definition parse_ns_timestamp :: "py \<Rightarrow> py res" where
  "parse_ns_timestamp v =
     (case v of
        PNone \<Rightarrow> Inr PNone
      | PTime t \<Rightarrow> Inr (PTime t)
      | _ \<Rightarrow>
          (case py_int v of
             Inl e \<Rightarrow> if e = TypeError \<or> e = ValueError then Inr PNone else Inl e
           | Inr ns \<Rightarrow>
               (if ns \<le> 0 then Inr PNone
                else if of_int ns \<ge> float_limit * 1000000000 then Inl OverflowError
                else from_timestamp_us (round_half_even (of_int ns / 1000)))))"

definition duration_to_seconds :: "py \<Rightarrow> py res" where
  "duration_to_seconds v =
     (case v of
        PBool _ \<Rightarrow> rbind (py_int v) (\<lambda>i. Inr (PInt i))
      | PInt i \<Rightarrow> Inr (PInt i)
      | PFloat _ \<Rightarrow> rbind (py_int v) (\<lambda>i. Inr (PInt i))
      | PStr s \<Rightarrow>
          (if s = [] then Inr PNone
           else
             (let text = (if last s = CHR ''s'' then butlast s else s) in
              case rbind (py_float (PStr text)) (\<lambda>f. py_int (PFloat f)) of
                Inr i \<Rightarrow> Inr (PInt i)
              | Inl e \<Rightarrow> if e = ValueError then Inr PNone else Inl e))
      | _ \<Rightarrow> Inr PNone)"

fun first_present :: "dict \<Rightarrow> string list \<Rightarrow> py \<Rightarrow> py" where
  "first_present d [] dv = dv"
| "first_present d (k # ks) dv =
     (if k \<in> fst ` set d \<and> dget d k \<noteq> PNone then dget d k else first_present d ks dv)"

section \<open>Provenance\<close>

definition origin_provenance :: "env \<Rightarrow> dict" where
  "origin_provenance env =
     [(''edge_id'', PStr (e_edge_id env)), (''region_id'', PStr (e_region_id env))]"

text \<open>
  \<open>resolve_provenance_from_dict\<close> and \<open>resolve_provenance_from_top_level\<close> have the same body on a
  dict; \<open>resolve_provenance_from_proto\<close> reads the same two fields as attributes.
\<close>

definition resolve_provenance_from_dict :: "env \<Rightarrow> py \<Rightarrow> dict res" where
  "resolve_provenance_from_dict env prov =
     rbind (dict_or_empty prov) (\<lambda>p.
       Inr [(''edge_id'', py_or (py_or (dget p ''edge_id'') (PStr [])) (PStr (e_edge_id env))),
            (''region_id'', py_or (py_or (dget p ''region_id'') (PStr [])) (PStr (e_region_id env)))])"

definition resolve_provenance_from_top_level :: "env \<Rightarrow> py \<Rightarrow> dict res" where
  "resolve_provenance_from_top_level env envelope =
     rbind (dict_or_empty envelope) (\<lambda>p.
       Inr [(''edge_id'', py_or (py_or (dget p ''edge_id'') (PStr [])) (PStr (e_edge_id env))),
            (''region_id'', py_or (py_or (dget p ''region_id'') (PStr [])) (PStr (e_region_id env)))])"

definition releasability_from :: "py \<Rightarrow> dict res" where
  "releasability_from prov =
     rbind (dict_or_empty prov) (\<lambda>p.
       let nation = py_or (dget p ''originator_nation'') (PStr []) in
       if \<not> truthy nation then Inr []
       else rbind (py_list (py_or (dget p ''releasable_to'') (PList []))) (\<lambda>xs.
         Inr [(''originator_nation'', nation), (''releasable_to'', PList xs)]))"

definition label_source :: "dict \<Rightarrow> py" where
  "label_source decoded =
     (case dget decoded ''provenance'' of
        PDict p \<Rightarrow> (if truthy (dget p ''originator_nation'') then PDict p else PDict decoded)
      | _ \<Rightarrow> PDict decoded)"

definition aggregate_releasability_from :: "py \<Rightarrow> dict res" where
  "aggregate_releasability_from prov =
     rbind (dict_or_empty prov) (\<lambda>p.
     rbind (py_list (py_or (dget p ''releasable_to'') (PList []))) (\<lambda>xs.
       Inr [(''originator_nation'', PNone), (''releasable_to'', PList xs)]))"

text \<open>
  \<open>",".join(sorted(releasable))\<close>; a member that is no string raises TypeError, in \<open>sorted\<close> or in
  \<open>join\<close>.
\<close>

definition aggregate_partition_key :: "py \<Rightarrow> py res" where
  "aggregate_partition_key prov =
     rbind (dict_or_empty prov) (\<lambda>p.
     rbind (py_list (py_or (dget p ''releasable_to'') (PList []))) (\<lambda>xs.
     rbind (py_strings xs) (\<lambda>ss. Inr (PStr (join '','' (sort ss))))))"

definition resolve_origin_or_derive :: "env \<Rightarrow> py \<Rightarrow> py \<Rightarrow> flt option \<Rightarrow> flt option \<Rightarrow> dict res" where
  "resolve_origin_or_derive env prov asset_id lat lon =
     rbind (dict_or_empty prov) (\<lambda>p.
       let msg_edge = py_or (dget p ''edge_id'') (PStr []);
           msg_region = py_or (dget p ''region_id'') (PStr [])
       in if truthy msg_edge \<and> truthy msg_region
          then Inr [(''edge_id'', msg_edge), (''region_id'', msg_region)]
          else rbind (resolve_for (e_resolver env) asset_id lat lon) (\<lambda>a.
            Inr [(''edge_id'', as_edge_id a), (''region_id'', as_region_id a)]))"

section \<open>Counted refusals and throttled warnings\<close>

text \<open>\<open>refuse_row\<close>: the counter, the time of the last warning, and whether this call logs.\<close>

record refusals =
  rf_count :: "(string \<times> string) \<Rightarrow> nat"
  rf_last_warn :: "(string \<times> string) \<Rightarrow> rat option"

definition refuse_warn_window_s :: rat where
  "refuse_warn_window_s = 60"

definition refuse_row :: "string \<times> string \<Rightarrow> rat \<Rightarrow> refusals \<Rightarrow> bool \<times> refusals" where
  "refuse_row key now st =
     (let st1 = st\<lparr>rf_count := (rf_count st)(key := rf_count st key + 1)\<rparr>;
          due = (case rf_last_warn st key of None \<Rightarrow> True | Some t \<Rightarrow> now - t \<ge> refuse_warn_window_s)
      in (due, if due then st1\<lparr>rf_last_warn := (rf_last_warn st1)(key := Some now)\<rparr> else st1))"

text \<open>
  \<open>warn_provenance_fallback\<close>: per key the time of the last line and the calls suppressed since; the
  answer is the number of suppressed calls the line logged mentions, None when nothing is logged.
\<close>

type_synonym throttle = "(string \<times> string \<times> string) \<Rightarrow> (rat \<times> nat) option"

definition fallback_warn_window_s :: rat where
  "fallback_warn_window_s = 60"

definition warn_provenance_fallback ::
  "string \<times> string \<times> string \<Rightarrow> rat \<Rightarrow> throttle \<Rightarrow> nat option \<times> throttle" where
  "warn_provenance_fallback key now th =
     (case th key of
        None \<Rightarrow> (Some 0, th(key \<mapsto> (now, 0)))
      | Some (t, n) \<Rightarrow>
          (if now - t \<ge> fallback_warn_window_s then (Some n, th(key \<mapsto> (now, 0)))
           else (None, th(key \<mapsto> (t, n + 1)))))"

section \<open>What the helpers promise\<close>

text \<open>Collected for the proofs that a handler's write is well formed: which columns a helper adds.\<close>

named_theorems columns "the columns a helper returns"

lemma resolve_provenance_columns [columns]:
  "resolve_provenance_from_dict env v = Inr d \<Longrightarrow> map fst d = [''edge_id'', ''region_id'']"
  "resolve_provenance_from_top_level env v = Inr d \<Longrightarrow> map fst d = [''edge_id'', ''region_id'']"
  by (auto simp: resolve_provenance_from_dict_def resolve_provenance_from_top_level_def res_simps)

lemma resolve_origin_columns [columns]:
  "resolve_origin_or_derive env v i la lo = Inr d \<Longrightarrow> map fst d = [''edge_id'', ''region_id'']"
  by (auto simp: resolve_origin_or_derive_def res_simps Let_def split: if_splits)

lemma releasability_columns [columns]:
  "releasability_from v = Inr d \<Longrightarrow> map fst d = [] \<or> map fst d = [''originator_nation'', ''releasable_to'']"
  by (auto simp: releasability_from_def res_simps Let_def split: if_splits)

lemma aggregate_releasability_columns [columns]:
  "aggregate_releasability_from v = Inr d \<Longrightarrow> map fst d = [''originator_nation'', ''releasable_to'']"
  by (auto simp: aggregate_releasability_from_def res_simps)

text \<open>When a write is well formed, for the shapes the handlers return.\<close>

lemma wf_plain:
  assumes "w_mode w \<in> {''upsert'', ''append'', ''update''}" "distinct (map fst (w_row w))"
    "w_key_columns w \<noteq> []" "distinct (w_key_columns w)"
    "\<And>k. k \<in> set (w_key_columns w) \<Longrightarrow> dget (w_row w) k \<noteq> PNone"
    "\<not> fst ` set (w_row w) \<subseteq> set (w_key_columns w)" "w_revive w = None"
  shows "wf_write w"
  using assms by (auto simp: wf_write_def check_revive_def)

text \<open>
  \<open>writes P m\<close>: every write the answer \<open>m\<close> makes satisfies \<open>P\<close>. Its rules walk through a handler.
\<close>

definition writes :: "(pg_write \<Rightarrow> bool) \<Rightarrow> answer res \<Rightarrow> bool" where
  "writes P m \<longleftrightarrow> (\<forall>w. m = Inr (Wrote w) \<longrightarrow> P w)"

lemma writes_bind: "(\<And>x. m = Inr x \<Longrightarrow> writes P (f x)) \<Longrightarrow> writes P (rbind m f)"
  by (cases m) (auto simp: writes_def)

lemma writes_if: "(b \<Longrightarrow> writes P x) \<Longrightarrow> (\<not> b \<Longrightarrow> writes P y) \<Longrightarrow> writes P (if b then x else y)"
  by simp

lemma writes_option:
  "(v = None \<Longrightarrow> writes P x) \<Longrightarrow> (\<And>c. v = Some c \<Longrightarrow> writes P (f c)) \<Longrightarrow> writes P (case v of None \<Rightarrow> x | Some c \<Rightarrow> f c)"
  by (cases v) auto

lemma writes_pair: "(\<And>a b. p = (a, b) \<Longrightarrow> writes P (f a b)) \<Longrightarrow> writes P (case p of (a, b) \<Rightarrow> f a b)"
  by (cases p) auto

lemma writes_ends: "writes P (Inr Skip)" "writes P (Inr (Refused l r))" "writes P (Inl e)"
  by (simp_all add: writes_def)

lemma writes_write: "P w \<Longrightarrow> writes P (Inr (Wrote w))"
  by (simp add: writes_def)

lemmas writes_intros = writes_if writes_bind writes_option writes_pair writes_ends writes_write

definition contract :: "string \<Rightarrow> string \<Rightarrow> string list \<Rightarrow> pg_write \<Rightarrow> bool" where
  "contract t m ks w \<longleftrightarrow> wf_write w \<and> w_table w = t \<and> w_mode w = m \<and> w_key_columns w = ks"

lemma contractI:
  assumes "distinct (map fst row)" "\<And>k. k \<in> set ks \<Longrightarrow> dget row k \<noteq> PNone" "\<not> fst ` set row \<subseteq> set ks"
    "m \<in> {''upsert'', ''append'', ''update''}" "ks \<noteq> []" "distinct ks"
  shows "contract t m ks \<lparr>w_table = t, w_mode = m, w_key_columns = ks, w_row = row,
    w_jsonb_columns = j, w_revive = None\<rparr>"
proof -
  have "wf_write \<lparr>w_table = t, w_mode = m, w_key_columns = ks, w_row = row, w_jsonb_columns = j, w_revive = None\<rparr>"
    by (rule wf_plain) (simp_all add: assms(1,3,5,6) assms(4) [simplified], rule assms(2))
  then show ?thesis by (simp add: contract_def)
qed

lemma contractI_names:
  assumes "map fst row = cs" "distinct cs" "\<And>k. k \<in> set ks \<Longrightarrow> dget row k \<noteq> PNone" "\<not> set cs \<subseteq> set ks"
    "m \<in> {''upsert'', ''append'', ''update''}" "ks \<noteq> []" "distinct ks"
  shows "contract t m ks \<lparr>w_table = t, w_mode = m, w_key_columns = ks, w_row = row,
    w_jsonb_columns = j, w_revive = None\<rparr>"
  by (rule contractI) (use assms set_map [of fst row] in simp_all)

lemma dget_append: "dget (d @ e) k = (if k \<in> fst ` set d then dget d k else dget e k)"
  by (auto simp: dget_def dget_or_def map_add_def map_of_eq_None_iff dom_map_of_conv_image_fst [symmetric]
      split: option.split)

lemma truthy_not_None: "truthy v \<Longrightarrow> v \<noteq> PNone"
  by (cases v) auto

lemma parse_timestamp_kind:
  "parse_timestamp env v = PNone \<or> (\<exists>t. parse_timestamp env v = PTime t)"
  by (auto simp: parse_timestamp_def split: py.splits option.splits)

lemma from_timestamp_kind: "from_timestamp_us us = Inr v \<Longrightarrow> v = PTime us"
  by (auto simp: from_timestamp_us_def Let_def split: if_splits)

lemma parse_ns_kind: "parse_ns_timestamp v = Inr t \<Longrightarrow> t = PNone \<or> (\<exists>us. t = PTime us)"
  by (auto simp: parse_ns_timestamp_def split: py.splits if_splits sum.splits dest!: from_timestamp_kind)

text \<open>
  The class of an aggregate partial names its audience: two partials of the same region share
  a row exactly when their releasable_to lists hold the same nations the same number of times, in
  whatever order, provided nation names are non-empty and carry no comma; the class of nobody is the empty
  string and is a class of its own.
\<close>

lemma partition_key_audience:
  assumes "\<forall>n \<in> set ns. n \<noteq> [] \<and> CHR '','' \<notin> set n" "\<forall>m \<in> set ms. m \<noteq> [] \<and> CHR '','' \<notin> set m"
  shows "(aggregate_partition_key (PDict [(''releasable_to'', PList (map PStr ns))])
        = aggregate_partition_key (PDict [(''releasable_to'', PList (map PStr ms))])
        \<longleftrightarrow> mset ns = mset ms)
    \<and> aggregate_partition_key PNone = Inr (PStr [])
    \<and> (aggregate_partition_key (PDict [(''releasable_to'', PList (map PStr ns))]) = Inr (PStr []) \<longleftrightarrow> ns = [])"
proof -
  have key: "aggregate_partition_key (PDict [(''releasable_to'', PList (map PStr ks))])
      = Inr (PStr (join '','' (sort ks)))" for ks
    by (cases ks) (simp_all add: aggregate_partition_key_def py_or_def py_strings_map_Cons)
  have split: "split_on (CHR '','') (join '','' (sort ks)) = sort ks"
    if "\<forall>n \<in> set ks. n \<noteq> [] \<and> CHR '','' \<notin> set n" "ks \<noteq> []" for ks
    by (rule split_on_join) (use that in \<open>auto simp flip: set_empty\<close>)
  have ne: "join '','' (sort ks) \<noteq> []" if "\<forall>n \<in> set ks. n \<noteq> [] \<and> CHR '','' \<notin> set n" "ks \<noteq> []" for ks
  proof
    assume "join '','' (sort ks) = []"
    with split [OF that] have "sort ks = [[]]" by simp
    then have "[] \<in> set ks" by (metis list.set_intros(1) set_sort)
    with that show False by auto
  qed
  have "join '','' (sort ns) = join '','' (sort ms) \<longleftrightarrow> mset ns = mset ms"
  proof
    assume eq: "join '','' (sort ns) = join '','' (sort ms)"
    have "sort ns = sort ms"
    proof (cases "ns = [] \<or> ms = []")
      case True
      then have "join '','' (sort ns) = [] \<or> join '','' (sort ms) = []" by auto
      then have "ns = [] \<and> ms = []" using eq ne [OF assms(1)] ne [OF assms(2)] by metis
      then show ?thesis by simp
    next
      case False
      then show ?thesis using eq split [OF assms(1)] split [OF assms(2)] by metis
    qed
    then show "mset ns = mset ms" by (metis mset_sort)
  next
    assume "mset ns = mset ms"
    then have "sort ns = sort ms" by (metis mset_sort properties_for_sort sorted_sort)
    then show "join '','' (sort ns) = join '','' (sort ms)" by simp
  qed
  then show ?thesis
    using key ne [OF assms(1)] by (auto simp: aggregate_partition_key_def py_or_def)
qed

text \<open>
  A row is labelled exactly when its message names a nation, it then carries both label
  columns, and the labels are the message's own; an aggregate always writes both columns, never
  claims a nation, and writes an empty audience rather than none.
\<close>

lemma labels_carried_not_derived:
  "(releasability_from (PDict p) = Inr [] \<longleftrightarrow> \<not> truthy (dget p ''originator_nation''))
   \<and> (\<forall>d. releasability_from (PDict p) = Inr d \<and> d \<noteq> [] \<longrightarrow>
        dget d ''originator_nation'' = dget p ''originator_nation''
        \<and> (\<forall>xs. dget p ''releasable_to'' = PList xs \<longrightarrow> dget d ''releasable_to'' = PList xs)
        \<and> map fst d = [''originator_nation'', ''releasable_to''])
   \<and> releasability_from PNone = Inr []
   \<and> (\<forall>d. aggregate_releasability_from (PDict p) = Inr d \<longrightarrow>
        d = [(''originator_nation'', PNone), (''releasable_to'', dget d ''releasable_to'')]
        \<and> (\<not> truthy (dget p ''releasable_to'') \<longrightarrow> dget d ''releasable_to'' = PList []))"
proof -
  have list: "py_or (PList xs) (PList []) = PList xs" for xs by (simp add: py_or_def)
  show ?thesis
    by (cases "truthy (dget p ''originator_nation'')")
      (auto simp: releasability_from_def aggregate_releasability_from_def res_simps Let_def list)
qed

text \<open>
  A duration text reads as its whole seconds, truncated towards zero, with or without its unit
  letter; a text that is no number reads as no duration, and one that is infinite raises
  OverflowError instead, which the function does not catch.
\<close>

lemma duration_reading:
  "(read_float t = Some (Fin q) \<longrightarrow> t \<noteq> [] \<longrightarrow>
      duration_to_seconds (PStr (t @ ''s'')) = Inr (PInt (trunc_rat q)))
   \<and> (read_float t = None \<longrightarrow> duration_to_seconds (PStr (t @ ''s'')) = Inr PNone)
   \<and> (read_float t = Some PosInf \<longrightarrow> duration_to_seconds (PStr (t @ ''s'')) = Inl OverflowError)
   \<and> (read_float t = Some NaN \<longrightarrow> duration_to_seconds (PStr (t @ ''s'')) = Inr PNone)
   \<and> duration_to_seconds (PStr []) = Inr PNone \<and> duration_to_seconds PNone = Inr PNone"
  by (simp add: duration_to_seconds_def)

definition suppressed_calls :: "string \<times> string \<times> string \<Rightarrow> rat list \<Rightarrow> throttle \<Rightarrow> throttle" where
  "suppressed_calls key nows th = foldl (\<lambda>th now. snd (warn_provenance_fallback key now th)) th nows"

lemma suppressed_calls_count:
  "th key = Some (t, n) \<Longrightarrow> \<forall>now \<in> set nows. now - t < fallback_warn_window_s \<Longrightarrow>
     suppressed_calls key nows th key = Some (t, n + length nows)"
proof (induction nows arbitrary: th n)
  case (Cons now nows)
  then have "snd (warn_provenance_fallback key now th) key = Some (t, n + 1)"
    by (simp add: warn_provenance_fallback_def)
  with Cons.IH [of "snd (warn_provenance_fallback key now th)" "n + 1"] Cons.prems show ?case by (simp add: suppressed_calls_def)
qed (simp add: suppressed_calls_def)

text \<open>
  Of two refusals or fallback warnings of the same key, each is counted, and a second line is
  logged only when the window has passed since the last one logged; the suppressed calls in between
  are all accounted for in the next line.
\<close>

lemma throttle_accounts:
  assumes "\<forall>now \<in> set nows. now - t < fallback_warn_window_s" "fallback_warn_window_s \<le> later - t"
    and "th key = None"
  shows "fst (warn_provenance_fallback key t th) = Some 0
    \<and> fst (warn_provenance_fallback key later
        (suppressed_calls key nows (snd (warn_provenance_fallback key t th)))) = Some (length nows)
    \<and> rf_count (snd (refuse_row rk now rf)) rk = rf_count rf rk + 1
    \<and> (rf_last_warn rf rk = Some t' \<longrightarrow> now - t' < refuse_warn_window_s \<longrightarrow> \<not> fst (refuse_row rk now rf))"
proof -
  let ?th = "snd (warn_provenance_fallback key t th)"
  have "?th key = Some (t, 0)" using assms(3) by (simp add: warn_provenance_fallback_def)
  with suppressed_calls_count [of ?th key t 0 nows] assms show ?thesis
    by (simp add: warn_provenance_fallback_def refuse_row_def Let_def)
qed

text \<open>An environment and a reader of answers for the witnesses.\<close>

definition sample_env :: env where
  "sample_env = \<lparr>e_now = 100, e_edge_id = ''edge-01'', e_region_id = ''region-01'',
     e_resolver = Some \<lparr>rs_strategy = (\<lambda>_. Inr None), rs_fallback_edge = PStr ''edge-unspecified'',
       rs_fallback_region = PStr ''region-unspecified''\<rparr>,
     e_fromisoformat = (\<lambda>s. if s = ''2026-01-01T00:00:00+00:00'' then Some 1767225600000000 else None),
     e_repr = (\<lambda>_. []), e_config_status = None, e_lifecycle = None\<rparr>"

definition written :: "answer res \<Rightarrow> pg_write" where
  "written m = (case m of Inr (Wrote w) \<Rightarrow> w
     | _ \<Rightarrow> \<lparr>w_table = [], w_mode = [], w_key_columns = [], w_row = [], w_jsonb_columns = [], w_revive = None\<rparr>)"

end
