(* ===== verification/Config.thy ===== *)
theory Config
  imports Handler_Base
begin

text \<open>
  \<open>config.py\<close>: the mappings of topics to tables with their retention, and the settings, from the
  parsed file and the environment. The YAML text, its parser and the files are outside: the
  argument is what \<open>load_yaml_no_duplicate_keys\<close> returns, with text keys. The fields of a mapping
  are whatever the file holds; the code checks none of their types.
\<close>

record mapping =
  mp_topic :: py
  mp_handler :: py
  mp_table :: py
  mp_consumer_group :: py
  mp_decode_as :: py
  mp_mode :: py
  mp_retention_hours :: py
  mp_asset_ttl_hours :: py

record settings =
  sg_rate_limit_per_sec :: int
  sg_retry_base :: flt
  sg_retry_max :: flt

record config =
  cf_mappings :: "mapping list"
  cf_settings :: settings
  cf_edge_assignment :: py

text \<open>
  The loader that \<open>load_yaml_no_duplicate_keys\<close> uses: a mapping node's keys and values in order. A key
  that came before is refused, where YAML's own loader would let the later value win.
\<close>

fun construct_mapping :: "(string \<times> py) list \<Rightarrow> dict \<Rightarrow> dict res" where
  "construct_mapping [] d = Inr d"
| "construct_mapping ((k, v) # kvs) d =
     (if k \<in> fst ` set d then Inl ValueError else construct_mapping kvs (dset d k v))"

lemma construct_mapping_distinct:
  "construct_mapping kvs d = (if distinct (map fst kvs) \<and> fst ` set kvs \<inter> fst ` set d = {} then Inr (d @ kvs) else Inl ValueError)"
proof (induction kvs d rule: construct_mapping.induct)
  case (2 k v kvs d)
  have "k \<notin> fst ` set d \<Longrightarrow> dset d k v = d @ [(k, v)]" by (induction d) auto
  with 2 show ?case by auto
qed simp

text \<open>The three environment variables, and the overlay file: None when it is not set or no file.\<close>

record config_env =
  ce_asset_ttl_hours :: "string option"
  ce_rate_limit :: "string option"
  ce_edge_overlay :: "py option"

definition ttl_override :: "string option \<Rightarrow> flt option res" where
  "ttl_override raw =
     (let s = strip (case raw of None \<Rightarrow> [] | Some s \<Rightarrow> s) in
      if s = [] then Inr None else rbind (py_float (PStr s)) (\<lambda>f. Inr (Some f)))"

definition positive :: "flt \<Rightarrow> bool" where
  "positive f \<longleftrightarrow> flt_less (Fin 0) f"

definition element_telemetry :: string where
  "element_telemetry = ''asset_element_telemetry''"

definition check_element_mapping :: "dict \<Rightarrow> py \<Rightarrow> py \<Rightarrow> unit res" where
  "check_element_mapping entry mode asset_ttl =
     rbind (dindex entry ''handler'') (\<lambda>h.
       if h \<noteq> PStr element_telemetry then Inr ()
       else
         (let refuse = rbind (dindex entry ''topic'') (\<lambda>_. Inl ValueError) in
          if mode \<noteq> PStr ''custom'' \<or> \<not> truthy asset_ttl then refuse
          else rbind (py_float asset_ttl) (\<lambda>f. if positive f then Inr () else refuse)))"

definition effective_ttl :: "flt option \<Rightarrow> py \<Rightarrow> py \<Rightarrow> py" where
  "effective_ttl override mode asset_ttl =
     (case override of
        None \<Rightarrow> asset_ttl
      | Some f \<Rightarrow>
          (if mode = PStr ''upsert'' \<or> (mode = PStr ''custom'' \<and> truthy asset_ttl)
           then (if positive f then PFloat f else PNone) else asset_ttl))"

definition load_mapping :: "flt option \<Rightarrow> py \<Rightarrow> mapping res" where
  "load_mapping override v =
     (case v of
        PDict entry \<Rightarrow>
          (let mode = dget_or entry ''mode'' (PStr ''upsert''); asset_ttl = dget entry ''asset_ttl_hours'' in
           rbind (check_element_mapping entry mode asset_ttl) (\<lambda>_.
           rbind (dindex entry ''topic'') (\<lambda>topic.
           rbind (dindex entry ''handler'') (\<lambda>handler.
           rbind (dindex entry ''table'') (\<lambda>table.
           rbind (dindex entry ''consumer_group'') (\<lambda>grp.
           rbind (dindex entry ''decode_as'') (\<lambda>decode_as.
             Inr \<lparr>mp_topic = topic, mp_handler = handler, mp_table = table, mp_consumer_group = grp,
                  mp_decode_as = decode_as, mp_mode = mode, mp_retention_hours = dget entry ''retention_hours'',
                  mp_asset_ttl_hours = effective_ttl override mode asset_ttl\<rparr>)))))))
      | _ \<Rightarrow> Inl AttributeError)"

definition load_settings :: "string option \<Rightarrow> py \<Rightarrow> settings res" where
  "load_settings rate raw =
     (case or_empty raw of
        PDict s \<Rightarrow>
          rbind (py_int (case rate of Some r \<Rightarrow> PStr r | None \<Rightarrow> dget_or s ''rate_limit_per_sec'' (PInt 10))) (\<lambda>r.
          rbind (py_float (dget_or s ''postgres_retry_base_seconds'' (PFloat (Fin (1 / 2))))) (\<lambda>b.
          rbind (py_float (dget_or s ''postgres_retry_max_seconds'' (PFloat (Fin 30)))) (\<lambda>m.
            Inr \<lparr>sg_rate_limit_per_sec = r, sg_retry_base = b, sg_retry_max = m\<rparr>)))
      | _ \<Rightarrow> Inl AttributeError)"

definition edge_block :: "config_env \<Rightarrow> dict \<Rightarrow> py res" where
  "edge_block ce raw =
     (case ce_edge_overlay ce of
        None \<Rightarrow> Inr (or_empty (dget raw ''edge_assignment''))
      | Some v \<Rightarrow>
          (case or_empty v of
             PDict d \<Rightarrow> Inr (dget_or d ''edge_assignment'' (PDict d))
           | _ \<Rightarrow> Inl AttributeError))"

text \<open>Iterating over a text or a mapping under \<open>mappings\<close> yields texts, which have no \<open>.get\<close>.\<close>

definition load_config :: "config_env \<Rightarrow> py \<Rightarrow> config res" where
  "load_config ce parsed =
     (case parsed of
        PDict raw \<Rightarrow>
          rbind (ttl_override (ce_asset_ttl_hours ce)) (\<lambda>override.
          rbind (py_list (dget_or raw ''mappings'' (PList []))) (\<lambda>entries.
          rbind (rmap (load_mapping override) entries) (\<lambda>ms.
          rbind (load_settings (ce_rate_limit ce) (dget_or raw ''settings'' (PDict []))) (\<lambda>s.
          rbind (edge_block ce raw) (\<lambda>e.
            Inr \<lparr>cf_mappings = ms, cf_settings = s, cf_edge_assignment = e\<rparr>)))))
      | _ \<Rightarrow> Inl AttributeError)"

end
