(* ===== verification/Element_Diff.thy ===== *)
theory Element_Diff
  imports Handler_Base
begin

text \<open>
  \<open>handlers/asset_element_telemetry.py\<close>, the pure part: the configuration and its validation, the
  Schmitt trigger that turns a health number into a band, and \<open>diff_snapshot\<close>, which decides which
  element rows a snapshot writes.

  The dict of a written row has always the same keys, so it is a record here; a dict of rows is an
  association list in insertion order. The set of classes that caused a write is the pair of its two
  possible members. Differences of floats are exact.
\<close>

section \<open>Configuration\<close>

record element_config =
  ec_deadbands :: "(string \<times> rat \<times> rat) list"
  ec_limits :: "rat list"
  ec_names :: "string list"
  ec_hysteresis :: rat
  ec_heartbeat_s :: rat

text \<open>A finite number; \<open>math.isfinite\<close> of an integer past the float range raises.\<close>

definition finite_number :: "py \<Rightarrow> rat res" where
  "finite_number v =
     (case v of
        PInt i \<Rightarrow> rbind (py_float v) (\<lambda>_. Inr (of_int i))
      | PFloat (Fin q) \<Rightarrow> Inr q
      | _ \<Rightarrow> Inl ValueError)"

definition num :: "bool \<Rightarrow> py \<Rightarrow> rat res" where
  "num positive v =
     rbind (finite_number v) (\<lambda>q. if q < 0 \<or> (positive \<and> q = 0) then Inl ValueError else Inr q)"

definition value_fields :: "string list" where
  "value_fields = [''temp_c'', ''load_pct'']"

definition parse_deadband :: "string \<times> py \<Rightarrow> (string \<times> rat \<times> rat) res" where
  "parse_deadband kv =
     (case snd kv of
        PDict d \<Rightarrow>
          (if fst ` set d \<noteq> set value_fields then Inl ValueError
           else rbind (num False (dget d ''temp_c'')) (\<lambda>t.
                rbind (num False (dget d ''load_pct'')) (\<lambda>l. Inr (fst kv, t, l))))
      | _ \<Rightarrow> Inl ValueError)"

definition parse_names :: "nat \<Rightarrow> py \<Rightarrow> string list res" where
  "parse_names n v =
     (case v of
        PList xs \<Rightarrow>
          (case py_strings xs of
             Inr ss \<Rightarrow> (if length xs \<noteq> n + 1 \<or> [] \<in> set ss \<or> \<not> distinct ss then Inl ValueError else Inr ss)
           | Inl _ \<Rightarrow> Inl ValueError)
      | _ \<Rightarrow> Inl ValueError)"

definition guard :: "bool \<Rightarrow> unit res" where
  "guard b = (if b then Inr () else Inl ValueError)"

definition need_dict :: "py \<Rightarrow> dict res" where
  "need_dict v = (case v of PDict d \<Rightarrow> Inr d | _ \<Rightarrow> Inl ValueError)"

definition need_list :: "py \<Rightarrow> py list res" where
  "need_list v = (case v of PList xs \<Rightarrow> Inr xs | _ \<Rightarrow> Inl ValueError)"

text \<open>Each check of \<open>parse_config\<close> in its order; \<open>loads\<close> raises ValueError for what is no JSON.\<close>

definition parse_config :: "(string \<Rightarrow> py res) \<Rightarrow> string option \<Rightarrow> element_config res" where
  "parse_config loads raw =
     (case raw of
        None \<Rightarrow> Inl ValueError
      | Some s \<Rightarrow>
          rbind (guard (strip s \<noteq> [])) (\<lambda>_.
          rbind (loads s) (\<lambda>v.
          rbind (need_dict v) (\<lambda>doc.
          rbind (guard ({''deadbands'', ''bands'', ''heartbeat_s''} \<subseteq> fst ` set doc)) (\<lambda>_.
          rbind (need_dict (dget doc ''deadbands'')) (\<lambda>db.
          rbind (guard (db \<noteq> [])) (\<lambda>_.
          rbind (rmap parse_deadband db) (\<lambda>deadbands.
          rbind (need_dict (dget doc ''bands'')) (\<lambda>bands.
          rbind (need_dict (dget bands ''health'')) (\<lambda>h.
          rbind (guard ({''limits'', ''names'', ''hysteresis''} \<subseteq> fst ` set h)) (\<lambda>_.
          rbind (need_list (dget h ''limits'')) (\<lambda>ls.
          rbind (guard (ls \<noteq> [])) (\<lambda>_.
          rbind (rmap finite_number ls) (\<lambda>limits.
          rbind (guard (sorted_wrt (<) limits)) (\<lambda>_.
          rbind (parse_names (length limits) (dget h ''names'')) (\<lambda>names.
          rbind (num False (dget h ''hysteresis'')) (\<lambda>hyst.
          rbind (num True (dget doc ''heartbeat_s'')) (\<lambda>hb.
            Inr \<lparr>ec_deadbands = deadbands, ec_limits = limits, ec_names = names,
                 ec_hysteresis = hyst, ec_heartbeat_s = hb\<rparr>))))))))))))))))))"

section \<open>Bands\<close>

definition reads_above :: "flt \<Rightarrow> rat \<Rightarrow> bool" where
  "reads_above health edge \<longleftrightarrow> flt_less (Fin edge) health"

definition reads_below :: "flt \<Rightarrow> rat \<Rightarrow> bool" where
  "reads_below health edge \<longleftrightarrow> flt_less health (Fin edge)"

text \<open>The two loops: climb while above the next limit, then fall while below the last one's lower edge.\<close>

function rise :: "rat list \<Rightarrow> flt \<Rightarrow> nat \<Rightarrow> nat" where
  "rise limits health i =
     (if i < length limits \<and> reads_above health (limits ! i) then rise limits health (i + 1) else i)"
  by auto

termination by (relation "measure (\<lambda>(limits, health, i). length limits - i)") auto

fun fall :: "rat list \<Rightarrow> rat \<Rightarrow> flt \<Rightarrow> nat \<Rightarrow> nat" where
  "fall limits hyst health 0 = 0"
| "fall limits hyst health (Suc i) =
     (if reads_below health (limits ! i - hyst) then fall limits hyst health i else Suc i)"

declare rise.simps [simp del]

definition band_index :: "element_config \<Rightarrow> flt \<Rightarrow> nat option \<Rightarrow> nat" where
  "band_index cfg health prev =
     (case prev of
        None \<Rightarrow> length (filter (reads_above health) (ec_limits cfg))
      | Some i \<Rightarrow> fall (ec_limits cfg) (ec_hysteresis cfg) health (rise (ec_limits cfg) health i))"

section \<open>The diff\<close>

fun flt_distance :: "flt \<Rightarrow> flt \<Rightarrow> flt" where
  "flt_distance (Fin a) (Fin b) = Fin \<bar>a - b\<bar>"
| "flt_distance NaN _ = NaN"
| "flt_distance _ NaN = NaN"
| "flt_distance PosInf PosInf = NaN"
| "flt_distance NegInf NegInf = NaN"
| "flt_distance _ _ = PosInf"

definition value_crossed :: "flt option \<Rightarrow> flt option \<Rightarrow> rat \<Rightarrow> bool" where
  "value_crossed new old deadband =
     (case (new, old) of
        (None, None) \<Rightarrow> False
      | (Some a, Some b) \<Rightarrow>
          (if deadband = 0 then flt_less (Fin 0) (flt_distance a b)
           else flt_less (Fin deadband) (flt_distance a b) \<or> flt_distance a b = Fin deadband)
      | _ \<Rightarrow> True)"

definition ancestors :: "string \<Rightarrow> string list" where
  "ancestors path =
     (let parts = split_on (CHR ''/'') path in
      map (\<lambda>i. join ''/'' (take i parts)) (rev [1..<length parts]))"

definition num_or_none :: "py \<Rightarrow> flt option res" where
  "num_or_none v =
     (case v of
        PInt _ \<Rightarrow> rbind (py_float v) (\<lambda>f. Inr (Some f))
      | PFloat f \<Rightarrow> Inr (Some f)
      | _ \<Rightarrow> Inr None)"

definition bool_or_none :: "py \<Rightarrow> bool option" where
  "bool_or_none v = (case v of PBool b \<Rightarrow> Some b | _ \<Rightarrow> None)"

text \<open>The fields compared: what \<open>cur\<close> holds, and of a written row the same.\<close>

record element_fields =
  ef_temp_c :: "flt option"
  ef_load_pct :: "flt option"
  ef_tx_active :: "bool option"
  ef_rx_active :: "bool option"
  ef_moved_by :: "string option"
  ef_health_band :: "string option"

record element_row =
  er_parent_path :: "string option"
  er_depth :: nat
  er_layer_name :: string
  er_health :: "flt option"
  er_fields :: element_fields
  er_value_changes :: int
  er_subtree_changes :: int
  er_subtree_changes_window :: int
  er_observed_at :: int

definition name_index :: "string list \<Rightarrow> string option \<Rightarrow> nat option" where
  "name_index names b =
     (case b of None \<Rightarrow> None
      | Some n \<Rightarrow> if n \<in> set names then Some (length (takeWhile (\<lambda>m. m \<noteq> n) names)) else None)"

definition next_band :: "element_config \<Rightarrow> flt option \<Rightarrow> string option \<Rightarrow> string option" where
  "next_band cfg health old_band =
     (case health of
        None \<Rightarrow> old_band
      | Some h \<Rightarrow> Some (ec_names cfg ! band_index cfg h (name_index (ec_names cfg) old_band)))"

definition current_fields ::
  "(py \<Rightarrow> string) \<Rightarrow> element_config \<Rightarrow> dict \<Rightarrow> element_row option \<Rightarrow> (flt option \<times> element_fields) res" where
  "current_fields repr cfg el old =
     rbind (num_or_none (dget el ''health'')) (\<lambda>health.
     rbind (num_or_none (dget el ''temp_c'')) (\<lambda>temp_c.
     rbind (num_or_none (dget el ''load_pct'')) (\<lambda>load_pct.
       Inr (health,
         \<lparr>ef_temp_c = temp_c, ef_load_pct = load_pct,
          ef_tx_active = bool_or_none (dget el ''tx_active''),
          ef_rx_active = bool_or_none (dget el ''rx_active''),
          ef_moved_by = (if dget el ''moved_by'' = PNone then None else Some (py_str repr (dget el ''moved_by''))),
          ef_health_band = next_band cfg health
            (case old of None \<Rightarrow> None | Some r \<Rightarrow> ef_health_band (er_fields r))\<rparr>))))"

text \<open>Which classes cause a write: (value, transition).\<close>

definition write_cause :: "rat \<times> rat \<Rightarrow> element_fields \<Rightarrow> element_row option \<Rightarrow> bool \<times> bool" where
  "write_cause db cur old =
     (case old of
        None \<Rightarrow>
          (let v = (ef_temp_c cur \<noteq> None \<or> ef_load_pct cur \<noteq> None);
               t = (ef_tx_active cur \<noteq> None \<or> ef_rx_active cur \<noteq> None \<or> ef_moved_by cur \<noteq> None
                    \<or> ef_health_band cur \<noteq> None)
           in (v, t \<or> \<not> v))
      | Some r \<Rightarrow>
          (value_crossed (ef_temp_c cur) (ef_temp_c (er_fields r)) (fst db)
             \<or> value_crossed (ef_load_pct cur) (ef_load_pct (er_fields r)) (snd db),
           ef_tx_active cur \<noteq> ef_tx_active (er_fields r) \<or> ef_rx_active cur \<noteq> ef_rx_active (er_fields r)
             \<or> ef_moved_by cur \<noteq> ef_moved_by (er_fields r) \<or> ef_health_band cur \<noteq> ef_health_band (er_fields r)))"

definition new_row ::
  "string \<Rightarrow> string \<Rightarrow> flt option \<Rightarrow> element_fields \<Rightarrow> bool \<Rightarrow> element_row option \<Rightarrow> int \<Rightarrow> element_row" where
  "new_row path layer health cur by_value old observed_at =
     (let depth = length (filter (\<lambda>c. c = CHR ''/'') path) in
      \<lparr>er_parent_path = (if depth = 0 then None
          else Some (join ''/'' (butlast (split_on (CHR ''/'') path)))),
       er_depth = depth, er_layer_name = layer, er_health = health, er_fields = cur,
       er_value_changes = (case old of None \<Rightarrow> 0 | Some r \<Rightarrow> er_value_changes r + (if by_value then 1 else 0)),
       er_subtree_changes = (case old of None \<Rightarrow> 0 | Some r \<Rightarrow> er_subtree_changes r),
       er_subtree_changes_window = 0, er_observed_at = observed_at\<rparr>)"

record diff_state =
  df_rows :: "(string \<times> element_row) list"
  df_classes :: "(string \<times> bool \<times> bool) list"
  df_undeclared :: "(string \<times> nat) list"
  df_window :: "(string \<times> nat) list"

definition count_up :: "(string \<times> nat) list \<Rightarrow> string \<Rightarrow> (string \<times> nat) list" where
  "count_up d k = dset d k ((case map_of d k of None \<Rightarrow> 0 | Some n \<Rightarrow> n) + 1)"

definition diff_element ::
  "(py \<Rightarrow> string) \<Rightarrow> element_config \<Rightarrow> (string \<times> element_row) list \<Rightarrow> int \<Rightarrow> py \<Rightarrow> diff_state \<Rightarrow> diff_state res" where
  "diff_element repr cfg last_rows observed_at el st =
     (case el of
        PDict e \<Rightarrow>
          (case dget e ''element_id'' of
             PStr path \<Rightarrow>
               (if path = [] then Inr st
                else
                  (case (dget e ''layer_name'',
                         (case dget e ''layer_name'' of PStr layer \<Rightarrow> map_of (ec_deadbands cfg) layer | _ \<Rightarrow> None)) of
                     (PStr layer, Some db) \<Rightarrow>
                       (let old = map_of last_rows path in
                        rbind (current_fields repr cfg e old) (\<lambda>(health, cur).
                          let (v, t) = write_cause db cur old in
                          if \<not> v \<and> \<not> t then Inr st
                          else Inr (st\<lparr>df_rows := dset (df_rows st) path (new_row path layer health cur v old observed_at),
                                  df_classes := dset (df_classes st) path (v, t),
                                  df_window := (if old = None then df_window st
                                                else foldl count_up (df_window st) (ancestors path))\<rparr>)))
                   | (layer, _) \<Rightarrow> Inr (st\<lparr>df_undeclared := count_up (df_undeclared st) (py_str repr layer)\<rparr>)))
           | _ \<Rightarrow> Inr st)
      | _ \<Rightarrow> Inr st)"

fun diff_elements ::
  "(py \<Rightarrow> string) \<Rightarrow> element_config \<Rightarrow> (string \<times> element_row) list \<Rightarrow> int \<Rightarrow> py list \<Rightarrow> diff_state \<Rightarrow> diff_state res" where
  "diff_elements repr cfg last_rows observed_at [] st = Inr st"
| "diff_elements repr cfg last_rows observed_at (el # els) st =
     rbind (diff_element repr cfg last_rows observed_at el st) (diff_elements repr cfg last_rows observed_at els)"

text \<open>Ancestor counts, then the return to zero of the windows.\<close>

definition count_ancestor ::
  "(string \<times> element_row) list \<Rightarrow> int \<Rightarrow> (string \<times> element_row) list \<Rightarrow> string \<times> nat \<Rightarrow> (string \<times> element_row) list" where
  "count_ancestor last_rows observed_at rows an =
     (case (case map_of rows (fst an) of Some r \<Rightarrow> Some r
            | None \<Rightarrow> map_option (\<lambda>r. r\<lparr>er_observed_at := observed_at\<rparr>) (map_of last_rows (fst an))) of
        None \<Rightarrow> rows
      | Some r \<Rightarrow> dset rows (fst an) (r\<lparr>er_subtree_changes := er_subtree_changes r + int (snd an),
                                         er_subtree_changes_window := int (snd an)\<rparr>))"

definition return_to_zero ::
  "(string \<times> nat) list \<Rightarrow> int \<Rightarrow> (string \<times> element_row) list \<Rightarrow> string \<times> element_row \<Rightarrow> (string \<times> element_row) list" where
  "return_to_zero window observed_at rows po =
     (if er_subtree_changes_window (snd po) \<noteq> 0 \<and> fst po \<notin> fst ` set window
      then dset rows (fst po)
        ((case map_of rows (fst po) of Some r \<Rightarrow> r | None \<Rightarrow> (snd po)\<lparr>er_observed_at := observed_at\<rparr>)
           \<lparr>er_subtree_changes_window := 0\<rparr>)
      else rows)"

type_synonym snapshot_diff =
  "(string \<times> element_row) list \<times> (string \<times> bool \<times> bool) list \<times> (string \<times> nat) list"

definition diff_snapshot ::
  "(py \<Rightarrow> string) \<Rightarrow> element_config \<Rightarrow> (string \<times> element_row) list \<Rightarrow> py list \<Rightarrow> int \<Rightarrow> snapshot_diff res" where
  "diff_snapshot repr cfg last_rows elements observed_at =
     rbind (diff_elements repr cfg last_rows observed_at elements
             \<lparr>df_rows = [], df_classes = [], df_undeclared = [], df_window = []\<rparr>) (\<lambda>st.
       Inr (foldl (return_to_zero (df_window st) observed_at)
              (foldl (count_ancestor last_rows observed_at) (df_rows st) (df_window st)) last_rows,
            df_classes st, df_undeclared st))"

end
