(* ===== verification/Element_Delivery.thy ===== *)
theory Element_Delivery
  imports Element_Diff
begin

text \<open>
  What the element diff delivers: the accepted configurations, the Schmitt trigger as a clamp, the
  accuracy of the delivered rows, and that an unchanged snapshot settles.
\<close>

section \<open>Accepted configurations\<close>

definition config_ok :: "element_config \<Rightarrow> bool" where
  "config_ok cfg \<longleftrightarrow> ec_deadbands cfg \<noteq> [] \<and> list_all (\<lambda>(_, t, l). 0 \<le> t \<and> 0 \<le> l) (ec_deadbands cfg)
     \<and> ec_limits cfg \<noteq> [] \<and> sorted_wrt (<) (ec_limits cfg)
     \<and> length (ec_names cfg) = length (ec_limits cfg) + 1 \<and> distinct (ec_names cfg) \<and> [] \<notin> set (ec_names cfg)
     \<and> 0 \<le> ec_hysteresis cfg \<and> 0 < ec_heartbeat_s cfg"

lemma num_Inr: "num p v = Inr q \<Longrightarrow> 0 \<le> q \<and> (p \<longrightarrow> 0 < q)"
  by (auto simp: num_def res_simps split: if_splits)

lemma rmap_length_Inr: "rmap f xs = Inr ys \<Longrightarrow> length ys = length xs"
  by (induction xs arbitrary: ys) (auto simp: res_simps)

lemma rmap_list_all: "rmap f xs = Inr ys \<Longrightarrow> (\<And>x y. f x = Inr y \<Longrightarrow> P y) \<Longrightarrow> list_all P ys"
  by (induction xs arbitrary: ys) (auto simp: res_simps)

lemma parse_deadband_Inr: "parse_deadband kv = Inr d \<Longrightarrow> (\<lambda>(_, t, l). 0 \<le> t \<and> 0 \<le> l) d"
  by (auto simp: parse_deadband_def res_simps split: py.splits if_splits dest!: num_Inr)

lemma parse_names_Inr:
  "parse_names n v = Inr ss \<Longrightarrow> length ss = n + 1 \<and> distinct ss \<and> [] \<notin> set ss"
  by (auto simp: parse_names_def py_strings_Inr split: py.splits sum.splits if_splits)

lemma guard_Inr: "guard b = Inr u \<longleftrightarrow> b"
  by (simp add: guard_def)

text \<open>
  A configuration that is accepted is usable: whatever text is configured, a value that
  \<open>parse_config\<close> returns has at least one layer, no negative deadband or hysteresis, strictly
  ascending limits, one distinct non-empty band name more than limits, and a positive heartbeat.
\<close>

lemma parse_config_ok:
  assumes "parse_config loads raw = Inr cfg"
  shows "config_ok cfg"
proof -
  from assms obtain db ls names hyst hb where
    "db \<noteq> []" and db: "rmap parse_deadband db = Inr (ec_deadbands cfg)" and
    "ls \<noteq> []" "rmap finite_number ls = Inr (ec_limits cfg)"
    "sorted_wrt (<) (ec_limits cfg)" "parse_names (length (ec_limits cfg)) names = Inr (ec_names cfg)"
    "num False hyst = Inr (ec_hysteresis cfg)" "num True hb = Inr (ec_heartbeat_s cfg)"
    by (auto simp: parse_config_def res_simps guard_Inr split: option.splits)
  moreover have "list_all (\<lambda>(_, t, l). 0 \<le> t \<and> 0 \<le> l) (ec_deadbands cfg)"
    using rmap_list_all [OF db parse_deadband_Inr] by simp
  ultimately show ?thesis
    by (auto simp: config_ok_def dest!: parse_names_Inr num_Inr rmap_length_Inr)
qed

section \<open>The Schmitt trigger\<close>

lemma prefix_count:
  assumes "sorted_wrt (<) xs" "\<And>x y. x < y \<Longrightarrow> P y \<Longrightarrow> P x" "i < length xs"
  shows "P (xs ! i) \<longleftrightarrow> i < length (filter P xs)"
  using assms(1,3)
proof (induction xs arbitrary: i)
  case (Cons x xs)
  have none: "\<not> P x \<Longrightarrow> filter P xs = []"
    using Cons.prems(1) assms(2) by (auto simp: filter_empty_conv)
  show ?case
  proof (cases i)
    case 0
    then show ?thesis using none by auto
  next
    case (Suc j)
    with Cons have "P (xs ! j) \<longleftrightarrow> j < length (filter P xs)" by simp
    with Suc none show ?thesis by auto
  qed
qed simp

definition plain_band :: "element_config \<Rightarrow> flt \<Rightarrow> nat" where
  "plain_band cfg h = length (filter (reads_above h) (ec_limits cfg))"

definition upper_band :: "element_config \<Rightarrow> flt \<Rightarrow> nat" where
  "upper_band cfg h = length (filter (\<lambda>e. \<not> reads_below h (e - ec_hysteresis cfg)) (ec_limits cfg))"

lemma above_mono: "x < y \<Longrightarrow> reads_above h y \<Longrightarrow> reads_above h x"
  by (cases h) (auto simp: reads_above_def)

lemma below_mono: "x < y \<Longrightarrow> \<not> reads_below h (y - c) \<Longrightarrow> \<not> reads_below h (x - c)"
  by (cases h) (auto simp: reads_below_def)

lemma above_not_below: "0 \<le> c \<Longrightarrow> reads_above h e \<Longrightarrow> \<not> reads_below h (e - c)"
  by (cases h) (auto simp: reads_above_def reads_below_def)

lemma rise_max:
  assumes "sorted_wrt (<) (ec_limits cfg)" "i \<le> length (ec_limits cfg)"
  shows "rise (ec_limits cfg) h i = max i (plain_band cfg h)"
  using assms(2)
proof (induction "length (ec_limits cfg) - i" arbitrary: i)
  case 0
  then have "plain_band cfg h \<le> i"
    using length_filter_le [of "reads_above h" "ec_limits cfg"] by (simp add: plain_band_def)
  with 0 show ?case by (simp add: rise.simps)
next
  case (Suc n)
  have i: "i < length (ec_limits cfg)" using Suc by simp
  have "reads_above h (ec_limits cfg ! i) \<longleftrightarrow> i < plain_band cfg h"
    unfolding plain_band_def by (rule prefix_count [OF assms(1) above_mono i])
  with Suc i show ?case by (subst rise.simps) auto
qed

lemma fall_min:
  assumes "sorted_wrt (<) (ec_limits cfg)" "i \<le> length (ec_limits cfg)"
  shows "fall (ec_limits cfg) (ec_hysteresis cfg) h i = min i (upper_band cfg h)"
  using assms(2)
proof (induction i)
  case (Suc i)
  have "\<not> reads_below h (ec_limits cfg ! i - ec_hysteresis cfg) \<longleftrightarrow> i < upper_band cfg h"
    unfolding upper_band_def
    by (rule prefix_count [OF assms(1), where P = "\<lambda>e. \<not> reads_below h (e - ec_hysteresis cfg)"])
      (use Suc below_mono in auto)
  with Suc show ?case by auto
qed simp

lemma filter_length_mono: "(\<And>x. P x \<Longrightarrow> Q x) \<Longrightarrow> length (filter P xs) \<le> length (filter Q xs)"
  by (induction xs) (auto intro: le_SucI)

lemma plain_le_upper: "0 \<le> ec_hysteresis cfg \<Longrightarrow> plain_band cfg h \<le> upper_band cfg h"
  unfolding plain_band_def upper_band_def by (intro filter_length_mono above_not_below)

lemma bands_in_range: "plain_band cfg h \<le> length (ec_limits cfg)" "upper_band cfg h \<le> length (ec_limits cfg)"
  by (simp_all add: plain_band_def upper_band_def)

lemma band_clamp:
  assumes "config_ok cfg"
  shows "i \<le> length (ec_limits cfg) \<Longrightarrow> band_index cfg h (Some i) = max (plain_band cfg h) (min i (upper_band cfg h))"
    "band_index cfg h None = plain_band cfg h"
proof -
  have s: "sorted_wrt (<) (ec_limits cfg)" "0 \<le> ec_hysteresis cfg" using assms by (simp_all add: config_ok_def)
  assume i: "i \<le> length (ec_limits cfg)"
  then show "band_index cfg h (Some i) = max (plain_band cfg h) (min i (upper_band cfg h))"
    using rise_max [OF s(1) i, of h] fall_min [OF s(1), of "max i (plain_band cfg h)" h]
      bands_in_range [of cfg h] plain_le_upper [OF s(2), of h]
    by (simp add: band_index_def)
qed (simp add: band_index_def plain_band_def)

text \<open>
  C17. The health band is a Schmitt trigger. The two loops of \<open>band_index\<close> compute the previous band
  clamped between the band of the plain thresholds and that of the thresholds lowered by the
  hysteresis; so the index stays in range, a first observation gets the plain band, a band only
  moves when the reading leaves its widened interval, and computing it again from its own result
  changes nothing.
\<close>

theorem band_index_clamp:
  assumes "config_ok cfg" "p \<le> length (ec_limits cfg)"
  shows "band_index cfg h (Some p) = max (plain_band cfg h) (min p (upper_band cfg h))
    \<and> band_index cfg h None = plain_band cfg h
    \<and> band_index cfg h (Some (band_index cfg h (Some p))) = band_index cfg h (Some p)
    \<and> band_index cfg h (Some (band_index cfg h None)) = band_index cfg h None
    \<and> band_index cfg h (Some p) \<le> length (ec_limits cfg)"
proof -
  have "0 \<le> ec_hysteresis cfg" using assms(1) by (simp add: config_ok_def)
  then show ?thesis
    using assms(2) bands_in_range [of cfg h] plain_le_upper [of cfg h]
    by (simp add: band_clamp [OF assms(1)])
qed

section \<open>What a snapshot delivers\<close>

text \<open>The last-written row of a path after \<open>st.elements.update(rows)\<close>.\<close>

definition delivered :: "(string \<times> element_row) list \<Rightarrow> (string \<times> element_row) list \<Rightarrow> string \<Rightarrow> element_row option" where
  "delivered last_rows rows p = (case map_of rows p of Some r \<Rightarrow> Some r | None \<Rightarrow> map_of last_rows p)"

definition fields_agree :: "rat \<times> rat \<Rightarrow> element_fields \<Rightarrow> element_fields \<Rightarrow> bool" where
  "fields_agree db cur f \<longleftrightarrow> \<not> value_crossed (ef_temp_c cur) (ef_temp_c f) (fst db)
     \<and> \<not> value_crossed (ef_load_pct cur) (ef_load_pct f) (snd db)
     \<and> ef_tx_active cur = ef_tx_active f \<and> ef_rx_active cur = ef_rx_active f
     \<and> ef_moved_by cur = ef_moved_by f \<and> ef_health_band cur = ef_health_band f"

definition path_of :: "py \<Rightarrow> string option" where
  "path_of el = (case el of PDict e \<Rightarrow> (case dget e ''element_id'' of PStr p \<Rightarrow> Some p | _ \<Rightarrow> None) | _ \<Rightarrow> None)"

lemma value_crossed_same: "0 \<le> d \<Longrightarrow> \<not> value_crossed v v d"
  by (cases v; cases "the v") (auto simp: value_crossed_def)

text \<open>Once NaN is the last written value no number crosses any deadband against it.\<close>

lemma nan_sticks: "value_crossed (Some x) (Some NaN) deadband = False"
  by (cases x) (simp_all add: value_crossed_def)

lemma fields_agree_same: "0 \<le> fst db \<Longrightarrow> 0 \<le> snd db \<Longrightarrow> fields_agree db f f"
  by (simp add: fields_agree_def value_crossed_same)

lemma no_cause_agree: "write_cause db cur (Some r) = (False, False) \<longleftrightarrow> fields_agree db cur (er_fields r)"
  by (auto simp: write_cause_def fields_agree_def)

lemma first_has_cause: "write_cause db cur None \<noteq> (False, False)"
  by (cases "ef_temp_c cur"; cases "ef_load_pct cur") (auto simp: write_cause_def Let_def)

lemma diff_elements_append:
  "diff_elements repr cfg l t (xs @ ys) st = rbind (diff_elements repr cfg l t xs st) (diff_elements repr cfg l t ys)"
proof (induction xs arbitrary: st)
  case (Cons x xs)
  then show ?case by (cases "diff_element repr cfg l t x st") simp_all
qed simp

text \<open>The element a list entry declares: its dict, path, layer and the layer's deadbands.\<close>

definition declared :: "element_config \<Rightarrow> py \<Rightarrow> (dict \<times> string \<times> string \<times> rat \<times> rat) option" where
  "declared cfg el =
     (case el of
        PDict e \<Rightarrow>
          (case (dget e ''element_id'', dget e ''layer_name'') of
             (PStr p, PStr layer) \<Rightarrow>
               (if p = [] then None else map_option (\<lambda>db. (e, p, layer, db)) (map_of (ec_deadbands cfg) layer))
           | _ \<Rightarrow> None)
      | _ \<Rightarrow> None)"

definition put_element ::
  "(string \<times> element_row) list \<Rightarrow> int \<Rightarrow> string \<Rightarrow> string \<Rightarrow> flt option \<Rightarrow> element_fields \<Rightarrow> bool \<times> bool \<Rightarrow>
     diff_state \<Rightarrow> diff_state" where
  "put_element l t p layer health cur vt st =
     st\<lparr>df_rows := dset (df_rows st) p (new_row p layer health cur (fst vt) (map_of l p) t),
       df_classes := dset (df_classes st) p vt,
       df_window := (if map_of l p = None then df_window st else foldl count_up (df_window st) (ancestors p))\<rparr>"

lemma declared_Some: "declared cfg el = Some (e, p, layer, db) \<longleftrightarrow>
    el = PDict e \<and> dget e ''element_id'' = PStr p \<and> p \<noteq> [] \<and> dget e ''layer_name'' = PStr layer
    \<and> map_of (ec_deadbands cfg) layer = Some db"
  by (cases db) (auto simp: declared_def split: py.splits if_splits)

lemma diff_element_declared:
  "declared cfg el = Some (e, p, layer, db) \<Longrightarrow> diff_element repr cfg l t el st =
     rbind (current_fields repr cfg e (map_of l p)) (\<lambda>hc.
       Inr (if write_cause db (snd hc) (map_of l p) = (False, False) then st
            else put_element l t p layer (fst hc) (snd hc) (write_cause db (snd hc) (map_of l p)) st))"
  by (cases "current_fields repr cfg e (map_of l p)")
    (auto simp: declared_Some diff_element_def put_element_def split_def Let_def prod_eq_iff)

lemma diff_element_undeclared:
  assumes "declared cfg el = None"
  obtains s' where "diff_element repr cfg l t el st = Inr s'" "df_rows s' = df_rows st"
    "df_classes s' = df_classes st" "df_window s' = df_window st"
proof -
  have "\<exists>s'. diff_element repr cfg l t el st = Inr s' \<and> df_rows s' = df_rows st
      \<and> df_classes s' = df_classes st \<and> df_window s' = df_window st"
    using assms by (auto simp: diff_element_def declared_def split: py.splits if_splits option.splits)
  then show ?thesis using that by blast
qed

lemma put_element_rows:
  "map_of (df_rows (put_element l t p layer h cur vt st)) =
     (map_of (df_rows st))(p \<mapsto> new_row p layer h cur (fst vt) (map_of l p) t)"
  by (simp add: put_element_def fun_eq_iff map_of_dset)

lemma path_of_declared: "declared cfg el = Some (e, p, layer, db) \<Longrightarrow> path_of el = Some p"
  by (auto simp: declared_Some path_of_def)

lemma diff_element_other:
  assumes "diff_element repr cfg l t el st = Inr st'" "path_of el \<noteq> Some p"
  shows "map_of (df_rows st') p = map_of (df_rows st) p"
proof (cases "declared cfg el")
  case None
  from diff_element_undeclared [OF None, of repr l t st] obtain s' where
    "diff_element repr cfg l t el st = Inr s'" "df_rows s' = df_rows st" .
  with assms(1) show ?thesis by simp
next
  case (Some x)
  obtain e q layer db where x: "x = (e, q, layer, db)" by (cases x)
  with Some have d: "declared cfg el = Some (e, q, layer, db)" by simp
  with assms(2) path_of_declared have "q \<noteq> p" by auto
  then show ?thesis using assms(1)
    by (auto simp: diff_element_declared [OF d] res_simps put_element_rows split: if_splits)
qed

lemma diff_elements_other:
  assumes "diff_elements repr cfg l t els st = Inr st'" "Some p \<notin> path_of ` set els"
  shows "map_of (df_rows st') p = map_of (df_rows st) p"
  using assms
proof (induction els arbitrary: st)
  case (Cons el els)
  from Cons.prems(1) obtain s1 where s1: "diff_element repr cfg l t el st = Inr s1"
    "diff_elements repr cfg l t els s1 = Inr st'" by (auto simp: res_simps)
  have "path_of el \<noteq> Some p" "Some p \<notin> path_of ` set els" using Cons.prems(2) by auto
  with diff_element_other [OF s1(1)] Cons.IH [OF s1(2)] show ?case by simp
qed simp

lemma delivered_count:
  "map_option er_fields (delivered l (count_ancestor l t rows an) p) = map_option er_fields (delivered l rows p)"
  by (cases "map_of rows (fst an)"; cases "map_of l (fst an)")
    (auto simp: count_ancestor_def delivered_def map_of_dset)

lemma delivered_counts:
  "map_option er_fields (delivered l (foldl (count_ancestor l t) rows w) p) = map_option er_fields (delivered l rows p)"
  by (induction w arbitrary: rows) (simp_all add: delivered_count)

lemma delivered_zero:
  "map_of l (fst po) = Some (snd po) \<Longrightarrow>
     map_option er_fields (delivered l (return_to_zero w t rows po) p) = map_option er_fields (delivered l rows p)"
  by (cases "map_of rows (fst po)") (auto simp: return_to_zero_def delivered_def map_of_dset)

lemma delivered_zeros:
  "\<forall>po \<in> set pos. map_of l (fst po) = Some (snd po) \<Longrightarrow>
     map_option er_fields (delivered l (foldl (return_to_zero w t) rows pos) p) = map_option er_fields (delivered l rows p)"
  by (induction pos arbitrary: rows) (simp_all add: delivered_zero)

lemma delivered_diff:
  assumes "diff_snapshot repr cfg l els t = Inr (rows, cs, u)" "distinct (map fst l)"
  obtains st where "diff_elements repr cfg l t els \<lparr>df_rows = [], df_classes = [], df_undeclared = [], df_window = []\<rparr> = Inr st"
    "\<And>p. map_option er_fields (delivered l rows p) = map_option er_fields (delivered l (df_rows st) p)"
proof -
  from assms(1) obtain st where st: "diff_elements repr cfg l t els
      \<lparr>df_rows = [], df_classes = [], df_undeclared = [], df_window = []\<rparr> = Inr st"
      and rows: "rows = foldl (return_to_zero (df_window st) t) (foldl (count_ancestor l t) (df_rows st) (df_window st)) l"
    by (auto simp: diff_snapshot_def res_simps)
  have "\<forall>po \<in> set l. map_of l (fst po) = Some (snd po)" using assms(2) by auto
  from delivered_zeros [OF this, of "df_window st" t] have
    "map_option er_fields (delivered l rows p) = map_option er_fields (delivered l (df_rows st) p)" for p
    by (simp add: rows delivered_counts)
  with st show ?thesis by (rule that)
qed

text \<open>An element of the snapshot that no other element shares its path with.\<close>

lemma delivered_element:
  assumes diff: "diff_snapshot repr cfg l els t = Inr (rows, cs, u)" "distinct (map fst l)"
    and els: "els = pre @ el # post" "Some p \<notin> path_of ` (set pre \<union> set post)"
    and el: "declared cfg el = Some (e, p, layer, db)" "0 \<le> fst db" "0 \<le> snd db"
  obtains health cur r where "current_fields repr cfg e (map_of l p) = Inr (health, cur)"
    "delivered l rows p = Some r" "fields_agree db cur (er_fields r)"
proof -
  from delivered_diff [OF diff] obtain st where
    st: "diff_elements repr cfg l t els \<lparr>df_rows = [], df_classes = [], df_undeclared = [], df_window = []\<rparr> = Inr st"
      "\<And>p. map_option er_fields (delivered l rows p) = map_option er_fields (delivered l (df_rows st) p)" by blast
  then obtain st1 st2 where s: "diff_elements repr cfg l t pre
        \<lparr>df_rows = [], df_classes = [], df_undeclared = [], df_window = []\<rparr> = Inr st1"
      "diff_element repr cfg l t el st1 = Inr st2" "diff_elements repr cfg l t post st2 = Inr st"
    by (auto simp: els(1) diff_elements_append res_simps)
  have p1: "map_of (df_rows st1) p = None" using diff_elements_other [OF s(1)] els(2) by auto
  have p3: "map_of (df_rows st) p = map_of (df_rows st2) p" using diff_elements_other [OF s(3)] els(2) by auto
  from s(2) obtain health cur where c: "current_fields repr cfg e (map_of l p) = Inr (health, cur)"
    and st2: "st2 = (if write_cause db cur (map_of l p) = (False, False) then st1
            else put_element l t p layer health cur (write_cause db cur (map_of l p)) st1)"
    by (auto simp: diff_element_declared [OF el(1)] res_simps)
  have "\<exists>r. delivered l (df_rows st) p = Some r \<and> fields_agree db cur (er_fields r)"
  proof (cases "write_cause db cur (map_of l p) = (False, False)")
    case True
    then obtain r where r: "map_of l p = Some r" using first_has_cause by (cases "map_of l p") auto
    with True have "fields_agree db cur (er_fields r)" using no_cause_agree by simp
    with r p1 p3 True st2 show ?thesis by (simp add: delivered_def)
  next
    case False
    with st2 p3 show ?thesis
      by (simp add: delivered_def put_element_rows new_row_def Let_def fields_agree_same el(2,3))
  qed
  with st(2) [of p] obtain r where "delivered l rows p = Some r" "fields_agree db cur (er_fields r)" by auto
  with c show ?thesis by (rule that)
qed

lemma deadband_nonneg:
  "config_ok cfg \<Longrightarrow> map_of (ec_deadbands cfg) layer = Some db \<Longrightarrow> 0 \<le> fst db \<and> 0 \<le> snd db"
  by (cases db) (auto simp: config_ok_def list_all_iff dest!: map_of_SomeD)

text \<open>
  A delivered row is never further from the truth than its deadband. After a snapshot, the
  last-written row of each declared element (that appears once in it) agrees with the element: both
  values are within the layer's deadband of the reading, and the flags, the mover and the health
  band are exactly the current ones; and the row of a path the snapshot does not name keeps its fields.
\<close>

lemma delivered_within_deadband:
  assumes "config_ok cfg" "diff_snapshot repr cfg l els t = Inr (rows, cs, u)" "distinct (map fst l)"
  shows "(\<forall>pre el post e p layer db. els = pre @ el # post \<longrightarrow> Some p \<notin> path_of ` (set pre \<union> set post) \<longrightarrow>
        declared cfg el = Some (e, p, layer, db) \<longrightarrow>
        (\<exists>health cur r. current_fields repr cfg e (map_of l p) = Inr (health, cur)
           \<and> delivered l rows p = Some r \<and> fields_agree db cur (er_fields r)))
    \<and> (\<forall>p. Some p \<notin> path_of ` set els \<longrightarrow> map_option er_fields (delivered l rows p) = map_option er_fields (map_of l p))"
proof (intro conjI allI impI, goal_cases)
  case (1 pre el post e p layer db)
  from deadband_nonneg [OF assms(1), of layer db] 1(3) have "0 \<le> fst db" "0 \<le> snd db"
    by (auto simp: declared_Some)
  from delivered_element [OF assms(2,3) 1 this] show ?case by metis
next
  case (2 p)
  from delivered_diff [OF assms(2,3)] obtain st where
    st: "diff_elements repr cfg l t els \<lparr>df_rows = [], df_classes = [], df_undeclared = [], df_window = []\<rparr> = Inr st"
      "\<And>p. map_option er_fields (delivered l rows p) = map_option er_fields (delivered l (df_rows st) p)" by blast
  from diff_elements_other [OF st(1) 2] have "map_of (df_rows st) p = None" by simp
  with st(2) [of p] show ?case by (simp add: delivered_def)
qed

section \<open>An unchanged snapshot settles\<close>

lemma distinct_count: "distinct (map fst rows) \<Longrightarrow> distinct (map fst (count_ancestor l t rows an))"
  by (simp add: count_ancestor_def distinct_dset split: option.split)

lemma distinct_zero: "distinct (map fst rows) \<Longrightarrow> distinct (map fst (return_to_zero w t rows po))"
  by (simp add: return_to_zero_def distinct_dset)

lemma distinct_counts: "distinct (map fst rows) \<Longrightarrow> distinct (map fst (foldl (count_ancestor l t) rows w))"
  by (induction w arbitrary: rows) (simp_all add: distinct_count)

lemma distinct_zeros: "distinct (map fst rows) \<Longrightarrow> distinct (map fst (foldl (return_to_zero w t) rows pos))"
  by (induction pos arbitrary: rows) (simp_all add: distinct_zero)

lemma distinct_diff_element:
  assumes "diff_element repr cfg l t el st = Inr st'" "distinct (map fst (df_rows st))"
  shows "distinct (map fst (df_rows st'))"
proof (cases "declared cfg el")
  case None
  from diff_element_undeclared [OF None, of repr l t st] obtain s' where
    "diff_element repr cfg l t el st = Inr s'" "df_rows s' = df_rows st" .
  with assms show ?thesis by simp
next
  case (Some x)
  obtain e q layer db where "x = (e, q, layer, db)" by (cases x)
  with Some have d: "declared cfg el = Some (e, q, layer, db)" by simp
  show ?thesis using assms
    by (auto simp: diff_element_declared [OF d] res_simps put_element_def distinct_dset split: if_splits)
qed

lemma distinct_diff_elements:
  "diff_elements repr cfg l t els st = Inr st' \<Longrightarrow> distinct (map fst (df_rows st)) \<Longrightarrow> distinct (map fst (df_rows st'))"
proof (induction els arbitrary: st)
  case (Cons el els)
  from Cons.prems(1) obtain s1 where "diff_element repr cfg l t el st = Inr s1"
    "diff_elements repr cfg l t els s1 = Inr st'" by (auto simp: res_simps)
  with Cons distinct_diff_element show ?case by blast
qed simp

lemma distinct_diff:
  assumes "diff_snapshot repr cfg l els t = Inr (rows, cs, u)"
  shows "distinct (map fst rows)"
proof -
  from assms obtain st where st: "diff_elements repr cfg l t els
      \<lparr>df_rows = [], df_classes = [], df_undeclared = [], df_window = []\<rparr> = Inr st"
      and rows: "rows = foldl (return_to_zero (df_window st) t) (foldl (count_ancestor l t) (df_rows st) (df_window st)) l"
    by (auto simp: diff_snapshot_def res_simps)
  from distinct_diff_elements [OF st] show ?thesis
    unfolding rows by (intro distinct_zeros distinct_counts) simp
qed

lemma map_of_update: "distinct (map fst rows) \<Longrightarrow> map_of (dmerge l rows) p = delivered l rows p"
  by (simp add: map_of_dmerge map_add_def delivered_def)

text \<open>Nothing the element says differs from its last-written row.\<close>

definition settled :: "(py \<Rightarrow> string) \<Rightarrow> element_config \<Rightarrow> (string \<times> element_row) list \<Rightarrow> py list \<Rightarrow> bool" where
  "settled repr cfg l els \<longleftrightarrow>
     (\<forall>el\<in>set els. \<forall>e p layer db. declared cfg el = Some (e, p, layer, db) \<longrightarrow>
        (\<exists>health cur r. current_fields repr cfg e (map_of l p) = Inr (health, cur)
           \<and> map_of l p = Some r \<and> fields_agree db cur (er_fields r)))"

lemma settled_element:
  assumes "settled repr cfg l (el # els)"
  obtains s' where "diff_element repr cfg l t el st = Inr s'" "df_rows s' = df_rows st"
    "df_classes s' = df_classes st" "df_window s' = df_window st"
proof (cases "declared cfg el")
  case None
  from diff_element_undeclared [OF None, of repr l t st] show ?thesis using that by blast
next
  case (Some x)
  obtain e p layer db where "x = (e, p, layer, db)" by (cases x)
  with Some have d: "declared cfg el = Some (e, p, layer, db)" by simp
  have "el \<in> set (el # els)" by simp
  from assms [unfolded settled_def, THEN bspec, OF this, rule_format, OF d] obtain health cur r where
    "current_fields repr cfg e (map_of l p) = Inr (health, cur)"
    "map_of l p = Some r" "fields_agree db cur (er_fields r)" by blast
  then show ?thesis using that [of st] by (simp add: diff_element_declared [OF d] no_cause_agree)
qed

lemma settled_elements:
  assumes "settled repr cfg l els"
  shows "\<exists>s'. diff_elements repr cfg l t els st = Inr s' \<and> df_rows s' = df_rows st
    \<and> df_classes s' = df_classes st \<and> df_window s' = df_window st"
  using assms
proof (induction els arbitrary: st)
  case (Cons el els)
  from settled_element [OF Cons.prems, of t st] obtain s1 where s1: "diff_element repr cfg l t el st = Inr s1"
    "df_rows s1 = df_rows st" "df_classes s1 = df_classes st" "df_window s1 = df_window st" .
  have "settled repr cfg l els" using Cons.prems by (simp add: settled_def)
  from Cons.IH [OF this, of s1] s1 show ?case by auto
qed simp

lemma settled_diff:
  assumes "settled repr cfg l els"
  obtains u where "diff_snapshot repr cfg l els t = Inr (foldl (return_to_zero [] t) [] l, [], u)"
proof -
  from settled_elements [OF assms, of t "\<lparr>df_rows = [], df_classes = [], df_undeclared = [], df_window = []\<rparr>"]
  obtain st where "diff_elements repr cfg l t els \<lparr>df_rows = [], df_classes = [], df_undeclared = [], df_window = []\<rparr> = Inr st"
    "df_rows st = []" "df_classes st = []" "df_window st = []" by auto
  then show ?thesis using that [of "df_undeclared st"] by (simp add: diff_snapshot_def)
qed

lemma current_fields_band:
  "current_fields repr cfg e old = Inr (health, cur) \<Longrightarrow>
     ef_health_band cur = next_band cfg health (case old of None \<Rightarrow> None | Some r \<Rightarrow> ef_health_band (er_fields r))
     \<and> (next_band cfg health (case old' of None \<Rightarrow> None | Some r \<Rightarrow> ef_health_band (er_fields r)) = ef_health_band cur \<longrightarrow>
        current_fields repr cfg e old' = Inr (health, cur))"
  by (auto simp: current_fields_def res_simps)

lemma name_index_nth:
  assumes "distinct ns" "i < length ns"
  shows "name_index ns (Some (ns ! i)) = Some i"
proof -
  have "takeWhile (\<lambda>m. m \<noteq> ns ! i) ns = take i ns"
    using assms by (intro takeWhile_eq_take_P_nth) (auto simp: nth_eq_iff_index_eq)
  with assms show ?thesis by (simp add: name_index_def)
qed

lemma takeWhile_less: "n \<in> set ns \<Longrightarrow> length (takeWhile (\<lambda>m. m \<noteq> n) ns) < length ns"
  by (induction ns) auto

lemma name_index_range: "name_index ns b = Some i \<Longrightarrow> i < length ns"
  by (auto simp: name_index_def takeWhile_less split: option.splits if_splits)

lemma band_index_again:
  assumes ok: "config_ok cfg"
  shows "band_index cfg h (Some (band_index cfg h (name_index (ec_names cfg) b))) = band_index cfg h (name_index (ec_names cfg) b)
    \<and> band_index cfg h (name_index (ec_names cfg) b) < length (ec_names cfg)"
proof (cases "name_index (ec_names cfg) b")
  case None
  then show ?thesis
    using band_clamp [OF ok] bands_in_range [of cfg h] plain_le_upper [of cfg h] ok
    by (simp add: config_ok_def)
next
  case (Some i)
  with name_index_range ok have "i \<le> length (ec_limits cfg)" by (fastforce simp: config_ok_def)
  with Some show ?thesis
    using band_clamp [OF ok] bands_in_range [of cfg h] plain_le_upper [of cfg h] ok
    by (simp add: config_ok_def)
qed

lemma next_band_again:
  assumes "config_ok cfg"
  shows "next_band cfg health (next_band cfg health b) = next_band cfg health b"
proof (cases health)
  case (Some h)
  have "distinct (ec_names cfg)" using assms by (simp add: config_ok_def)
  with band_index_again [OF assms, of h b] Some show ?thesis by (simp add: next_band_def name_index_nth)
qed (simp add: next_band_def)

lemma delivery_settles:
  assumes "config_ok cfg" "diff_snapshot repr cfg l els t = Inr (rows, cs, u)" "distinct (map fst l)"
    and once: "distinct (List.map_filter path_of els)"
  shows "settled repr cfg (dmerge l rows) els"
  unfolding settled_def
proof (intro ballI allI impI, goal_cases)
  case (1 el e p layer db)
  from 1(1) obtain pre post where els: "els = pre @ el # post" by (auto simp: in_set_conv_decomp)
  with once path_of_declared [OF 1(2)] have "Some p \<notin> path_of ` (set pre \<union> set post)"
    by (auto simp: map_filter_def image_iff) (metis option.sel option.distinct(1))+
  moreover from deadband_nonneg [OF assms(1), of layer db] 1(2) have "0 \<le> fst db" "0 \<le> snd db"
    by (auto simp: declared_Some)
  ultimately obtain health cur r where r: "current_fields repr cfg e (map_of l p) = Inr (health, cur)"
    "delivered l rows p = Some r" "fields_agree db cur (er_fields r)"
    using delivered_element [OF assms(2,3) els _ 1(2)] by metis
  have "next_band cfg health (ef_health_band (er_fields r)) = ef_health_band cur"
    using current_fields_band [OF r(1), of None] next_band_again [OF assms(1)] r(3)
    by (metis fields_agree_def)
  with current_fields_band [OF r(1), of "Some r"] r(2,3) show ?case
    by (simp add: map_of_update [OF distinct_diff [OF assms(2)]])
qed

lemma settled_fields:
  assumes "settled repr cfg l els" and same: "\<And>p. map_option er_fields (map_of l' p) = map_option er_fields (map_of l p)"
  shows "settled repr cfg l' els"
  unfolding settled_def
proof (intro ballI allI impI, goal_cases)
  case (1 el e p layer db)
  from assms(1) [unfolded settled_def, THEN bspec, OF 1(1), rule_format, OF 1(2)] obtain health cur r where
    r: "current_fields repr cfg e (map_of l p) = Inr (health, cur)" "map_of l p = Some r" "fields_agree db cur (er_fields r)"
    by blast
  from same [of p] r(2) obtain r' where r': "map_of l' p = Some r'" "er_fields r' = er_fields r" by auto
  with current_fields_band [OF r(1), of "Some r'"] r show ?case by simp
qed

text \<open>One pass of the return to zero clears every window it covers.\<close>

lemma window_zero:
  assumes "map_of l p = Some r" "er_subtree_changes_window r \<noteq> 0" "(p, r) \<in> set pos"
    "\<forall>po \<in> set pos. map_of l (fst po) = Some (snd po)"
  shows "\<exists>r'. map_of (foldl (return_to_zero [] t) rows pos) p = Some r' \<and> er_subtree_changes_window r' = 0"
proof -
  have step: "map_of (return_to_zero [] t rows po) p =
      (if fst po = p \<and> er_subtree_changes_window (snd po) \<noteq> 0
       then Some ((case map_of rows p of Some r \<Rightarrow> r | None \<Rightarrow> (snd po)\<lparr>er_observed_at := t\<rparr>)
              \<lparr>er_subtree_changes_window := 0\<rparr>)
       else map_of rows p)" for rows po
    by (auto simp: return_to_zero_def map_of_dset)
  have keep: "\<exists>r'. map_of (foldl (return_to_zero [] t) rows pos) p = Some r' \<and> er_subtree_changes_window r' = 0"
    if "map_of rows p = Some r1" "er_subtree_changes_window r1 = 0" for rows r1 pos
    using that
  proof (induction pos arbitrary: rows r1)
    case (Cons po pos)
    then have "\<exists>r2. map_of (return_to_zero [] t rows po) p = Some r2 \<and> er_subtree_changes_window r2 = 0"
      by (simp add: step)
    with Cons.IH show ?case by auto
  qed simp
  from assms(3,4) show ?thesis
  proof (induction pos arbitrary: rows)
    case (Cons po pos)
    show ?case
    proof (cases "po = (p, r)")
      case True
      with assms(2) obtain r1 where "map_of (return_to_zero [] t rows po) p = Some r1" "er_subtree_changes_window r1 = 0"
        by (auto simp: step)
      from keep [OF this] show ?thesis by simp
    next
      case False
      with Cons.prems(1) have "(p, r) \<in> set pos" by simp
      with Cons show ?thesis by simp
    qed
  qed simp
qed

lemma window_keep: "map_of l p = None \<or> er_subtree_changes_window (the (map_of l p)) = 0 \<Longrightarrow>
    \<forall>po \<in> set pos. map_of l (fst po) = Some (snd po) \<Longrightarrow>
    map_of (foldl (return_to_zero [] t) rows pos) p = map_of rows p"
  by (induction pos arbitrary: rows) (auto simp: return_to_zero_def map_of_dset)

lemma no_window_rows:
  "\<forall>po \<in> set pos. er_subtree_changes_window (snd po) = 0 \<Longrightarrow> foldl (return_to_zero w t) rows pos = rows"
  by (induction pos) (simp_all add: return_to_zero_def)

lemma windows_cleared:
  assumes "distinct (map fst l)" "(p, r) \<in> set (dmerge l (foldl (return_to_zero [] t) [] l))"
  shows "er_subtree_changes_window r = 0"
proof -
  let ?rows = "foldl (return_to_zero [] t) [] l"
  have all: "\<forall>po \<in> set l. map_of l (fst po) = Some (snd po)" using assms(1) by auto
  have "distinct (map fst ?rows)" by (simp add: distinct_zeros)
  moreover have "map_of (dmerge l ?rows) p = Some r" using assms by (simp add: distinct_dmerge)
  ultimately have d: "delivered l ?rows p = Some r" by (simp add: map_of_update)
  show ?thesis
  proof (cases "map_of l p = None \<or> er_subtree_changes_window (the (map_of l p)) = 0")
    case True
    with window_keep [OF True all, of t "[]"] d show ?thesis by (auto simp: delivered_def)
  next
    case False
    then obtain r0 where r0: "map_of l p = Some r0" "er_subtree_changes_window r0 \<noteq> 0" by auto
    from window_zero [OF r0 map_of_SomeD [OF r0(1)] all, of t "[]"] d show ?thesis by (auto simp: delivered_def)
  qed
qed

text \<open>
  C16. An unchanged snapshot settles. Whatever a snapshot wrote, receiving the same snapshot again
  (against the updated memory) writes no element row of its own: no value and no transition is
  counted, only windows return to zero; and receiving it a third time writes nothing at all. So a
  redelivered snapshot cannot count a change twice.
\<close>

theorem snapshot_settles:
  assumes "config_ok cfg" "diff_snapshot repr cfg l els t = Inr (rows, cs, u)" "distinct (map fst l)"
    "distinct (List.map_filter path_of els)"
  shows "\<exists>rows' u' u''. diff_snapshot repr cfg (dmerge l rows) els t' = Inr (rows', [], u')
    \<and> (\<forall>p. map_option er_fields (map_of (dmerge (dmerge l rows) rows') p) = map_option er_fields (map_of (dmerge l rows) p))
    \<and> diff_snapshot repr cfg (dmerge (dmerge l rows) rows') els t'' = Inr ([], [], u'')"
proof -
  let ?l = "dmerge l rows"
  have s1: "settled repr cfg ?l els" and dl: "distinct (map fst ?l)"
    using delivery_settles [OF assms] distinct_dmerge [OF assms(3)] by simp_all
  let ?r = "foldl (return_to_zero [] t') [] ?l"
  have dr: "distinct (map fst ?r)" by (simp add: distinct_zeros)
  have "\<forall>po \<in> set ?l. map_of ?l (fst po) = Some (snd po)" using dl by auto
  from delivered_zeros [OF this, of "[]" t' "[]"] have same:
    "map_option er_fields (map_of (dmerge ?l ?r) p) = map_option er_fields (map_of ?l p)" for p
    by (simp add: map_of_update [OF dr]) (simp add: delivered_def)
  obtain u' where first: "diff_snapshot repr cfg ?l els t' = Inr (?r, [], u')" using settled_diff [OF s1] .
  obtain u'' where "diff_snapshot repr cfg (dmerge ?l ?r) els t'' =
      Inr (foldl (return_to_zero [] t'') [] (dmerge ?l ?r), [], u'')"
    using settled_diff [OF settled_fields [OF s1 same]] .
  moreover have "foldl (return_to_zero [] t'') [] (dmerge ?l ?r) = []"
    by (rule no_window_rows) (use windows_cleared [OF dl] in auto)
  ultimately show ?thesis using first same by auto
qed

end
