(* ===== verification/Lifecycle.thy ===== *)
theory Lifecycle
  imports Prelude
begin

text \<open>
  \<open>lifecycle_status.py\<close>: the two status columns of an asset row, and the staleness test of one
  reader's clock. Times are instants in microseconds; a duration in seconds is a rational.
\<close>

definition dis_source_protocol_prefix :: string where
  "dis_source_protocol_prefix = ''DIS/IEEE-1278.1''"

definition operational_status_operational :: string where
  "operational_status_operational = ''operational''"

definition operational_status_destroyed :: string where
  "operational_status_destroyed = ''destroyed''"

definition operational_status_deactivated :: string where
  "operational_status_deactivated = ''deactivated''"

definition operational_status_removed :: string where
  "operational_status_removed = ''removed''"

definition reporting_status_reporting :: string where
  "reporting_status_reporting = ''reporting''"

definition reporting_status_not_reporting :: string where
  "reporting_status_not_reporting = ''not_reporting''"

lemmas status_defs = operational_status_operational_def operational_status_destroyed_def
  operational_status_deactivated_def operational_status_removed_def
  reporting_status_reporting_def reporting_status_not_reporting_def

definition terminal_operational_statuses :: "string list" where
  "terminal_operational_statuses =
     [operational_status_destroyed, operational_status_deactivated, operational_status_removed]"

text \<open>The enum-name to column dict, and its \<open>.get\<close>: a value that is no known name gives None.\<close>

definition operational_status_enum_to_column :: "(string \<times> string) list" where
  "operational_status_enum_to_column =
     [(''OPERATIONAL_STATUS_DESTROYED'', operational_status_destroyed),
      (''OPERATIONAL_STATUS_DEACTIVATED'', operational_status_deactivated),
      (''OPERATIONAL_STATUS_REMOVED'', operational_status_removed)]"

text \<open>
  A dict or a list is unhashable, so \<open>.get\<close> raises TypeError on it; every other value that is not
  one of the names is simply not a key.
\<close>

definition operational_status_from_op_state :: "py \<Rightarrow> string option res" where
  "operational_status_from_op_state op_state =
     rbind (py_get (or_empty op_state) ''operational_status'') (\<lambda>v.
       case v of
         PStr s \<Rightarrow> Inr (map_of operational_status_enum_to_column s)
       | PDict _ \<Rightarrow> Inl TypeError
       | PList _ \<Rightarrow> Inl TypeError
       | _ \<Rightarrow> Inr None)"

definition is_dis_destroyed_signal :: "py \<Rightarrow> py \<Rightarrow> bool res" where
  "is_dis_destroyed_signal op_state provenance =
     rbind (py_get op_state ''health_state'') (\<lambda>h.
       if h \<noteq> PStr ''HEALTH_STATE_FAILED'' then Inr False
       else rbind (py_get (or_empty provenance) ''source_protocol'') (\<lambda>p.
         case py_or p (PStr []) of
           PStr s \<Rightarrow> Inr (starts_with dis_source_protocol_prefix s)
         | _ \<Rightarrow> Inl AttributeError))"

definition total_seconds :: "int \<Rightarrow> rat" where
  "total_seconds us = of_int us / 1000000"

definition compute_reporting_status :: "int option \<Rightarrow> int \<Rightarrow> rat \<Rightarrow> string" where
  "compute_reporting_status last_sample_at now stale_after_s =
     (case last_sample_at of
        None \<Rightarrow> reporting_status_not_reporting
      | Some t \<Rightarrow>
          (if total_seconds (now - t) > stale_after_s then reporting_status_not_reporting
           else reporting_status_reporting))"

section \<open>What the statuses mean\<close>

lemma enum_column_terminal:
  "map_of operational_status_enum_to_column n = Some s \<Longrightarrow> s \<in> set terminal_operational_statuses"
  by (simp add: operational_status_enum_to_column_def terminal_operational_statuses_def
      split: if_splits)

lemma claim_is_terminal:
  assumes "operational_status_from_op_state v = Inr (Some s)"
  shows "s \<in> set terminal_operational_statuses"
proof -
  from assms obtain x where "py_get (or_empty v) ''operational_status'' = Inr x"
    by (auto simp only: operational_status_from_op_state_def rbind_eq_Inr)
  with assms show ?thesis
    by (cases x) (simp_all add: operational_status_from_op_state_def enum_column_terminal)
qed

lemma claim_from_dict:
  "operational_status_from_op_state (PDict d) = Inr (Some s) \<longleftrightarrow>
     (\<exists>n. dget d ''operational_status'' = PStr n
        \<and> map_of operational_status_enum_to_column n = Some s)"
  by (cases "dget d ''operational_status''") (simp_all add: operational_status_from_op_state_def)

lemma operational_not_terminal:
  "operational_status_operational \<notin> set terminal_operational_statuses"
  "reporting_status_reporting \<notin> set terminal_operational_statuses"
  "reporting_status_not_reporting \<notin> set terminal_operational_statuses"
  by (simp_all add: terminal_operational_statuses_def status_defs)

text \<open>Silence can only move one way: a reader that waits longer never turns back to reporting.\<close>

lemma reporting_status_antimono:
  assumes "now \<le> now'" "compute_reporting_status s now w = reporting_status_not_reporting"
  shows "compute_reporting_status s now' w = reporting_status_not_reporting"
proof (cases s)
  case (Some t)
  have "total_seconds (now - t) \<le> total_seconds (now' - t)"
    using assms(1) by (simp add: total_seconds_def divide_right_mono)
  with assms(2) Some show ?thesis
    by (auto simp: compute_reporting_status_def status_defs split: if_splits)
qed (simp add: compute_reporting_status_def)

text \<open>
  The reporting status is decided by the reader's own clock alone: a sample older than the
  window reads not_reporting and one inside it reads reporting, the boundary itself included, and
  an asset never sampled reads not_reporting. Once it reads not_reporting it keeps reading so at
  every later time until a newer sample arrives.
\<close>

lemma reporting_status_window:
  assumes "0 \<le> w"
  shows "compute_reporting_status (Some t) now w
      = (if of_int (now - t) \<le> w * 1000000 then ''reporting'' else ''not_reporting'')
    \<and> compute_reporting_status None now w = ''not_reporting''
    \<and> compute_reporting_status (Some t) t w = ''reporting''
    \<and> (\<forall>now' \<ge> now. compute_reporting_status (Some t) now w = ''not_reporting'' \<longrightarrow>
          compute_reporting_status (Some t) now' w = ''not_reporting'')"
  using assms reporting_status_antimono [of now _ "Some t" w]
  by (auto simp: compute_reporting_status_def total_seconds_def status_defs field_simps)

text \<open>
  A message asserts a terminal operational status only in two ways: its operational_status
  field is one of the three terminal enum names, or it is a DIS message whose health_state is
  HEALTH_STATE_FAILED; a FAILED health state from any other source protocol asserts nothing, and
  UNSPECIFIED, OPERATIONAL, an unknown name and an absent field assert nothing.
\<close>

lemma terminal_claims:
  "(operational_status_from_op_state (PDict d) = Inr (Some s) \<longleftrightarrow>
      (dget d ''operational_status'', s) \<in>
        {(PStr ''OPERATIONAL_STATUS_DESTROYED'', ''destroyed''),
         (PStr ''OPERATIONAL_STATUS_DEACTIVATED'', ''deactivated''),
         (PStr ''OPERATIONAL_STATUS_REMOVED'', ''removed'')})
   \<and> (is_dis_destroyed_signal (PDict d) (PDict p) = Inr True \<longleftrightarrow>
      dget d ''health_state'' = PStr ''HEALTH_STATE_FAILED''
      \<and> (\<exists>rest. dget p ''source_protocol'' = PStr (''DIS/IEEE-1278.1'' @ rest)))"
proof
  show "operational_status_from_op_state (PDict d) = Inr (Some s) \<longleftrightarrow>
      (dget d ''operational_status'', s) \<in>
        {(PStr ''OPERATIONAL_STATUS_DESTROYED'', ''destroyed''),
         (PStr ''OPERATIONAL_STATUS_DEACTIVATED'', ''deactivated''),
         (PStr ''OPERATIONAL_STATUS_REMOVED'', ''removed'')}"
    unfolding claim_from_dict operational_status_enum_to_column_def status_defs
    by (cases "dget d ''operational_status''") (simp_all, fastforce)
  show "is_dis_destroyed_signal (PDict d) (PDict p) = Inr True \<longleftrightarrow>
      dget d ''health_state'' = PStr ''HEALTH_STATE_FAILED''
      \<and> (\<exists>rest. dget p ''source_protocol'' = PStr (''DIS/IEEE-1278.1'' @ rest))"
  proof (cases "dget p ''source_protocol''")
    case (PStr x)
    then show ?thesis
      by (cases "x = []") (simp_all add: is_dis_destroyed_signal_def dis_source_protocol_prefix_def
          starts_with_iff py_or_def)
  qed (simp_all add: is_dis_destroyed_signal_def dis_source_protocol_prefix_def starts_with_def
      py_or_def)
qed

end
