(* ===== verification/Handlers_Asset.thy ===== *)
theory Handlers_Asset
  imports Handler_Base Lifecycle
begin

text \<open>
  The pure handlers of the per-asset feeds: \<open>telemetry_latest\<close>, \<open>telemetry_windows\<close>, \<open>cm_state\<close>,
  \<open>logistics_status\<close>, \<open>capability_state\<close> and \<open>tactical_events\<close>. Each definition follows the handler's
  statements in order, so that the exception a bad message raises is the first one the code meets.
  The columns a helper spreads into the row never collide with the literal ones, so spreading is
  appending.
\<close>

section \<open>\<open>telemetry_latest\<close>\<close>

definition posture_status_prefix :: string where
  "posture_status_prefix = ''POSTURE_STATUS_''"

definition posture_status_value :: "dict \<Rightarrow> py res" where
  "posture_status_value op_state =
     (let raw = dget op_state ''posture_status'' in
      if \<not> truthy raw then Inr (PStr ''unspecified'')
      else (case raw of
          PStr s \<Rightarrow>
            (if starts_with posture_status_prefix s
             then Inr (PStr (lower (drop (length posture_status_prefix) s)))
             else Inr (PStr (lower s)))
        | _ \<Rightarrow> Inl AttributeError))"

definition int_or_zero :: "py \<Rightarrow> py res" where
  "int_or_zero v = rbind (py_int (py_or v (PInt 0))) (\<lambda>i. Inr (PInt i))"

definition telemetry_revive :: revive where
  "telemetry_revive = \<lparr>rv_column = ''operational_status'',
     rv_from_values = [operational_status_deactivated], rv_to_value = operational_status_operational,
     rv_at_column = ''operational_status_at'', rv_at_from = ''updated_at''\<rparr>"

definition telemetry_status_only :: "env \<Rightarrow> py \<Rightarrow> dict \<Rightarrow> dict \<Rightarrow> string \<Rightarrow> pg_write" where
  "telemetry_status_only env asset_id origin rel claim =
     \<lparr>w_table = ''telemetry_latest_state'',
      w_mode = (if claim = operational_status_removed then ''update'' else ''upsert''),
      w_key_columns = [''asset_id''],
      w_row = filter (\<lambda>kv. snd kv \<noteq> PNone)
        ([(''asset_id'', asset_id)] @ origin @ rel @
         [(''operational_status'', PStr claim), (''operational_status_at'', PTime (e_now env)),
          (''updated_at'', PTime (e_now env))]),
      w_jsonb_columns = [], w_revive = None\<rparr>"

definition telemetry_full_row ::
  "env \<Rightarrow> py \<Rightarrow> dict \<Rightarrow> dict \<Rightarrow> dict \<Rightarrow> py \<Rightarrow> py \<Rightarrow> py \<Rightarrow> dict \<Rightarrow> dict \<Rightarrow> py \<Rightarrow> py \<Rightarrow> dict" where
  "telemetry_full_row env asset_id origin rel asset kinematics sustainment provenance prov op_state revision posture =
     [(''asset_id'', asset_id)] @ origin @ rel @
     [(''platform_variant'', dget asset ''platform_variant''),
      (''callsign'', dget asset ''callsign''),
      (''subsystem'', dget asset ''subsystem''),
      (''force_id'', dget asset ''force''),
      (''kinematics'', kinematics),
      (''sustainment'', sustainment),
      (''provenance'', provenance),
      (''last_sample_at'', parse_timestamp env (dget prov ''sample_time'')),
      (''schema_revision'', revision),
      (''power_state'', dget op_state ''power_state''),
      (''functional_mode'', dget op_state ''functional_mode''),
      (''health_state'', dget op_state ''health_state''),
      (''actively_receiving'', dget op_state ''actively_receiving''),
      (''actively_transmitting'', dget op_state ''actively_transmitting''),
      (''posture_status'', posture),
      (''posture_since'', parse_timestamp env (dget op_state ''posture_since'')),
      (''reporting_status'', PStr ''reporting''),
      (''reporting_status_at'', PTime (e_now env)),
      (''updated_at'', PTime (e_now env))]"

definition telemetry_full :: "dict \<Rightarrow> env \<Rightarrow> string option \<Rightarrow> py \<Rightarrow> pg_write" where
  "telemetry_full row env claim kinematics =
     \<lparr>w_table = ''telemetry_latest_state'', w_mode = ''upsert'', w_key_columns = [''asset_id''],
      w_row = (case claim of
          Some c \<Rightarrow> row @ [(''operational_status'', PStr c), (''operational_status_at'', PTime (e_now env))]
        | None \<Rightarrow> row),
      w_jsonb_columns = [''kinematics'', ''sustainment'', ''provenance''],
      w_revive = (if claim = None \<and> truthy kinematics then Some telemetry_revive else None)\<rparr>"

text \<open>The claim, and whether the operational_status field itself made it.\<close>

definition telemetry_claim :: "py \<Rightarrow> py \<Rightarrow> (string option \<times> bool) res" where
  "telemetry_claim op_state provenance =
     rbind (operational_status_from_op_state op_state) (\<lambda>claim.
     case claim of
       Some c \<Rightarrow> Inr (Some c, True)
     | None \<Rightarrow>
         rbind (is_dis_destroyed_signal op_state provenance) (\<lambda>dead.
         Inr (if dead then Some operational_status_destroyed else None, False)))"

text \<open>The ordinary record: the whole row, the claim if there is one, a revive if there is none.\<close>

definition telemetry_row ::
  "env \<Rightarrow> dict \<Rightarrow> dict \<Rightarrow> py \<Rightarrow> py \<Rightarrow> py \<Rightarrow> py \<Rightarrow> dict \<Rightarrow> dict \<Rightarrow> string option \<Rightarrow> answer res" where
  "telemetry_row env decoded asset asset_id provenance kinematics op_state_v origin rel claim =
     rbind (dict_or_empty provenance) (\<lambda>prov.
     rbind (int_or_zero (dget_or decoded ''schema_revision'' (PInt 0))) (\<lambda>revision.
     rbind (dict_or_empty op_state_v) (\<lambda>op_state.
     rbind (posture_status_value op_state) (\<lambda>posture.
     Inr (Wrote (telemetry_full
       (telemetry_full_row env asset_id origin rel asset kinematics (dget decoded ''sustainment'')
          provenance prov op_state revision posture) env claim kinematics))))))"

definition handle_telemetry_latest :: handler where
  "handle_telemetry_latest env key decoded =
     rbind (dict_or_empty (dget decoded ''asset'')) (\<lambda>asset.
     let asset_id = py_or (dget asset ''asset_id'') (PStr key);
         provenance = or_empty (dget decoded ''provenance'');
         kinematics = dget decoded ''kinematics''
     in
     if \<not> truthy asset_id then Inr Skip
     else
       rbind (extract_wgs84 kinematics) (\<lambda>(lat, lon).
       rbind (resolve_origin_or_derive env provenance asset_id lat lon) (\<lambda>origin.
       let op_state_v = or_empty (dget decoded ''operational_state'') in
       rbind (telemetry_claim op_state_v provenance) (\<lambda>(claim, field_claim).
       rbind (releasability_from provenance) (\<lambda>rel.
       case claim of
         Some c \<Rightarrow>
           if \<not> truthy kinematics \<and> field_claim
           then Inr (Wrote (telemetry_status_only env asset_id origin rel c))
           else telemetry_row env decoded asset asset_id provenance kinematics op_state_v origin rel claim
       | None \<Rightarrow> telemetry_row env decoded asset asset_id provenance kinematics op_state_v origin rel claim)))))"

section \<open>\<open>telemetry_windows\<close>\<close>

definition int_or_none :: "py \<Rightarrow> py res" where
  "int_or_none v = (if v = PNone then Inr PNone else rbind (py_int v) (\<lambda>i. Inr (PInt i)))"

definition handle_telemetry_windows :: handler where
  "handle_telemetry_windows env key decoded =
     (let asset_id = py_or (dget decoded ''asset_id'') (PStr key) in
      if \<not> truthy asset_id then Inr Skip
      else
        rbind (dict_or_empty (dget decoded ''window'')) (\<lambda>window.
        rbind (duration_to_seconds (py_or (dget window ''duration'') (dget window ''window_duration'')))
          (\<lambda>duration_seconds.
        let sample_count = dget window ''sample_count'' in
        rbind (resolve_provenance_from_dict env (or_empty (dget decoded ''provenance''))) (\<lambda>origin.
        rbind (int_or_none sample_count) (\<lambda>count.
        rbind (releasability_from (dget decoded ''provenance'')) (\<lambda>rel.
        Inr (Wrote \<lparr>w_table = ''asset_telemetry_windows'', w_mode = ''upsert'',
          w_key_columns = [''asset_id''],
          w_row = [(''asset_id'', asset_id)] @ origin @
            [(''platform_variant'', dget decoded ''platform_variant''),
             (''fluid_trends'', dget_or decoded ''fluid_trends'' (PList [])),
             (''consumable_trends'', dget_or decoded ''consumable_trends'' (PList [])),
             (''component_wear_trends'', dget_or decoded ''wear_trends'' (PList [])),
             (''window_duration_seconds'', duration_seconds),
             (''sample_count'', count),
             (''element_rollup'', dget decoded ''element_rollup''),
             (''computed_at'', parse_timestamp env (dget decoded ''computed_at'')),
             (''updated_at'', PTime (e_now env))] @ rel,
          w_jsonb_columns = [''fluid_trends'', ''consumable_trends'', ''component_wear_trends'',
            ''element_rollup''],
          w_revive = None\<rparr>)))))))"

section \<open>\<open>cm_state\<close>\<close>

text \<open>\<open>enum_type.Name(int(value))\<close>: ValueError on a number the enum does not have.\<close>

definition enum_name :: "env \<Rightarrow> (int \<Rightarrow> string option) option \<Rightarrow> py \<Rightarrow> string \<Rightarrow> py res" where
  "enum_name env enum_type v dv =
     (case v of
        PNone \<Rightarrow> Inr (PStr dv)
      | PStr s \<Rightarrow> Inr (PStr s)
      | _ \<Rightarrow>
          (case enum_type of
             None \<Rightarrow> Inr (PStr (py_str (e_repr env) v))
           | Some names \<Rightarrow>
               (case py_int v of
                  Inr i \<Rightarrow> Inr (PStr (case names i of Some n \<Rightarrow> n | None \<Rightarrow> py_str (e_repr env) v))
                | Inl e \<Rightarrow> if e = ValueError \<or> e = TypeError then Inr (PStr (py_str (e_repr env) v)) else Inl e)))"

definition handle_cm_state :: handler where
  "handle_cm_state env key decoded =
     (let asset_id = py_or (dget decoded ''asset_id'') (PStr key) in
      if \<not> truthy asset_id then Inr Skip
      else
        rbind (resolve_provenance_from_top_level env (PDict decoded)) (\<lambda>origin.
        rbind (releasability_from (PDict decoded)) (\<lambda>rel.
        rbind (enum_name env (e_lifecycle env) (dget decoded ''lifecycle'') ''LIFECYCLE_UNSPECIFIED'')
          (\<lambda>lifecycle.
        rbind (enum_name env (e_config_status env) (dget decoded ''overall_status'')
                 ''CONFIG_STATUS_UNSPECIFIED'') (\<lambda>overall.
        rbind (if dget decoded ''last_alerted_status'' \<noteq> PNone
               then enum_name env (e_config_status env) (dget decoded ''last_alerted_status'') []
               else Inr PNone) (\<lambda>alerted.
        rbind (parse_ns_timestamp (dget decoded ''as_of_ns'')) (\<lambda>as_of.
        Inr (Wrote \<lparr>w_table = ''asset_cm_state'', w_mode = ''upsert'', w_key_columns = [''asset_id''],
          w_row = [(''asset_id'', asset_id)] @ origin @ rel @
            [(''baseline_id'', dget decoded ''baseline_id''),
             (''lifecycle'', lifecycle),
             (''overall_status'', overall),
             (''last_alerted_status'', alerted),
             (''as_of'', as_of),
             (''last_observed_at'', PNone),
             (''installed'', dget_or decoded ''installed'' (PList [])),
             (''mod_status'', dget_or decoded ''mod_status'' (PList [])),
             (''discrepancies'', dget_or decoded ''discrepancies'' (PList [])),
             (''manual_discrepancies'', dget_or decoded ''manual_discrepancies'' (PList [])),
             (''updated_at'', PTime (e_now env))],
          w_jsonb_columns = [''installed'', ''mod_status'', ''discrepancies'', ''manual_discrepancies''],
          w_revive = None\<rparr>))))))))"

section \<open>\<open>logistics_status\<close>\<close>

definition handle_logistics_status :: handler where
  "handle_logistics_status env key decoded =
     rbind (dict_or_empty (dget decoded ''status'')) (\<lambda>status.
     let asset_id = py_or (dget status ''asset_id'') (PStr key) in
     if \<not> truthy asset_id then Inr Skip
     else
       rbind (resolve_origin_or_derive env (or_empty (dget decoded ''provenance'')) asset_id None None)
         (\<lambda>origin.
       rbind (releasability_from (dget decoded ''provenance'')) (\<lambda>rel.
       rbind (duration_to_seconds (dget status ''projected_mission_capable_remaining'')) (\<lambda>remaining.
       rbind (duration_to_seconds (dget status ''projected_time_to_next_constraint'')) (\<lambda>next_in.
       rbind (int_or_zero (dget_or status ''status_revision'' (PInt 0))) (\<lambda>revision.
       Inr (Wrote \<lparr>w_table = ''asset_logistics_status'', w_mode = ''upsert'',
         w_key_columns = [''asset_id''],
         w_row = [(''asset_id'', asset_id)] @ origin @ rel @
           [(''platform_variant'', dget status ''platform_variant''),
            (''overall_severity'', dget_or status ''overall_severity'' (PStr ''LOGISTICS_SEVERITY_UNSPECIFIED'')),
            (''previous_severity'', dget decoded ''previous_severity''),
            (''constraining_factors'', dget_or status ''constraining_factors'' (PList [])),
            (''projected_mission_capable_remaining_seconds'', remaining),
            (''projected_time_to_next_constraint_seconds'', next_in),
            (''cm_baseline_id'', dget status ''cm_baseline_id''),
            (''status_revision'', revision),
            (''computed_at'', parse_timestamp env (dget status ''computed_at'')),
            (''latest_telemetry_sample_time'', parse_timestamp env (dget status ''latest_telemetry_sample_time'')),
            (''is_transition'', PBool (truthy (dget_or decoded ''is_transition'' (PBool False)))),
            (''is_initial'', PBool (truthy (dget_or decoded ''is_initial'' (PBool False)))),
            (''updated_at'', PTime (e_now env))],
         w_jsonb_columns = [''constraining_factors''], w_revive = None\<rparr>)))))))"

section \<open>\<open>capability_state\<close>\<close>

definition handle_capability_state :: handler where
  "handle_capability_state env key decoded =
     (let asset_id = py_or (dget decoded ''asset_id'') (PStr key) in
      if \<not> truthy asset_id then Inr Skip
      else
        rbind (resolve_origin_or_derive env (dget decoded ''provenance'') asset_id None None) (\<lambda>prov.
        rbind (releasability_from (dget decoded ''provenance'')) (\<lambda>rel.
        Inr (Wrote \<lparr>w_table = ''asset_capability_state'', w_mode = ''upsert'',
          w_key_columns = [''asset_id''],
          w_row = [(''asset_id'', asset_id),
             (''capabilities'', dget_or decoded ''capabilities'' (PList [])),
             (''schema_version'', dget decoded ''schema_version''),
             (''mode'', dget decoded ''mode''),
             (''observed_at'', parse_timestamp env (dget decoded ''observed_at'')),
             (''updated_at'', PTime (e_now env))] @ prov @ rel,
          w_jsonb_columns = [''capabilities''], w_revive = None\<rparr>))))"

section \<open>\<open>tactical_events\<close>\<close>

definition severity_keys :: "string list" where
  "severity_keys = [''severity'', ''current_status'', ''overall_severity'', ''overall_status'']"

fun first_truthy :: "dict \<Rightarrow> string list \<Rightarrow> py option" where
  "first_truthy d [] = None"
| "first_truthy d (k # ks) = (if truthy (dget d k) then Some (dget d k) else first_truthy d ks)"

definition extract_severity :: "env \<Rightarrow> dict \<Rightarrow> py" where
  "extract_severity env envelope =
     (if truthy (dget envelope ''severity'') then PStr (py_str (e_repr env) (dget envelope ''severity''))
      else (case dget envelope ''data'' of
          PDict data \<Rightarrow>
            (case first_truthy data severity_keys of
               Some v \<Rightarrow> PStr (py_str (e_repr env) v)
             | None \<Rightarrow> PNone)
        | _ \<Rightarrow> PNone))"

definition handle_tactical_events :: handler where
  "handle_tactical_events env key decoded =
     (let event_id = dget decoded ''id'' in
      if \<not> truthy event_id then Inr Skip
      else
        (let asset_subject = py_or (py_or (dget decoded ''subject'') (PStr key)) (PStr []) in
         if \<not> truthy asset_subject then Inr (Refused ''tactical_events'' ''empty subject'')
         else
           (let data = (if is_dict (dget decoded ''data'') then dget decoded ''data'' else PDict []) in
            rbind (resolve_provenance_from_top_level env data) (\<lambda>origin.
            rbind (releasability_from data) (\<lambda>rel.
            Inr (Wrote \<lparr>w_table = ''tactical_events'', w_mode = ''append'', w_key_columns = [''id''],
              w_row = [(''id'', event_id)] @ origin @
                [(''source'', dget_or decoded ''source'' (PStr [])),
                 (''type'', dget_or decoded ''type'' (PStr [])),
                 (''subject'', asset_subject)] @ rel @
                [(''severity'', extract_severity env decoded),
                 (''time'', parse_timestamp env (dget decoded ''time'')),
                 (''data'', dget_or decoded ''data'' (PDict []))],
              w_jsonb_columns = [''data''], w_revive = None\<rparr>))))))"

section \<open>Every write is well formed\<close>

lemma windows_contract:
  "writes (contract ''asset_telemetry_windows'' ''upsert'' [''asset_id'']) (handle_telemetry_windows env key decoded)"
  unfolding handle_telemetry_windows_def Let_def
proof (intro writes_intros, goal_cases)
  case (1 win dur org cnt rel)
  have cols: "map fst org = [''edge_id'', ''region_id'']"
      "map fst rel = [] \<or> map fst rel = [''originator_nation'', ''releasable_to'']"
    using 1 columns by blast+
  have id: "py_or (dget decoded ''asset_id'') (PStr key) \<noteq> PNone" using 1 truthy_not_None by blast
  show ?case by (rule contractI) (use cols id in auto)
qed

lemma cm_state_contract:
  "writes (contract ''asset_cm_state'' ''upsert'' [''asset_id'']) (handle_cm_state env key decoded)"
  unfolding handle_cm_state_def Let_def
proof (intro writes_intros, goal_cases)
  case (1 org rel lc ov al asof)
  have cols: "map fst org = [''edge_id'', ''region_id'']"
      "map fst rel = [] \<or> map fst rel = [''originator_nation'', ''releasable_to'']"
    using 1 columns by blast+
  have id: "py_or (dget decoded ''asset_id'') (PStr key) \<noteq> PNone" using 1 truthy_not_None by blast
  show ?case by (rule contractI) (use cols id in auto)
qed

lemma logistics_contract:
  "writes (contract ''asset_logistics_status'' ''upsert'' [''asset_id'']) (handle_logistics_status env key decoded)"
  unfolding handle_logistics_status_def Let_def
proof (intro writes_intros, goal_cases)
  case (1 status org rel rem nx rev)
  have cols: "map fst org = [''edge_id'', ''region_id'']"
      "map fst rel = [] \<or> map fst rel = [''originator_nation'', ''releasable_to'']"
    using 1 columns by blast+
  have id: "py_or (dget status ''asset_id'') (PStr key) \<noteq> PNone" using 1 truthy_not_None by blast
  show ?case by (rule contractI) (use cols id in auto)
qed

lemma capability_contract:
  "writes (contract ''asset_capability_state'' ''upsert'' [''asset_id'']) (handle_capability_state env key decoded)"
  unfolding handle_capability_state_def Let_def
proof (intro writes_intros, goal_cases)
  case (1 org rel)
  have cols: "map fst org = [''edge_id'', ''region_id'']"
      "map fst rel = [] \<or> map fst rel = [''originator_nation'', ''releasable_to'']"
    using 1 columns by blast+
  have id: "py_or (dget decoded ''asset_id'') (PStr key) \<noteq> PNone" using 1 truthy_not_None by blast
  show ?case by (rule contractI) (use cols id in auto)
qed

lemma tactical_contract:
  "writes (contract ''tactical_events'' ''append'' [''id'']) (handle_tactical_events env key decoded)"
  unfolding handle_tactical_events_def Let_def
proof (intro writes_intros, goal_cases)
  case (1 org rel)
  have cols: "map fst org = [''edge_id'', ''region_id'']"
      "map fst rel = [] \<or> map fst rel = [''originator_nation'', ''releasable_to'']"
    using 1 columns by blast+
  have id: "dget decoded ''id'' \<noteq> PNone" using 1 truthy_not_None by blast
  show ?case by (rule contractI) (use cols id in auto)
qed

section \<open>\<open>telemetry_latest\<close>: what it writes\<close>

text \<open>The two shapes of its write, with the facts each was made under.\<close>

definition label_columns :: "dict \<Rightarrow> bool" where
  "label_columns rel \<longleftrightarrow> map fst rel = [] \<or> map fst rel = [''originator_nation'', ''releasable_to'']"

definition status_only_shape :: "env \<Rightarrow> string \<Rightarrow> dict \<Rightarrow> pg_write \<Rightarrow> bool" where
  "status_only_shape env key decoded w \<longleftrightarrow> (\<exists>asset_id origin rel c.
     w = telemetry_status_only env asset_id origin rel c \<and> truthy asset_id
     \<and> map fst origin = [''edge_id'', ''region_id''] \<and> label_columns rel
     \<and> \<not> truthy (dget decoded ''kinematics'')
     \<and> operational_status_from_op_state (or_empty (dget decoded ''operational_state'')) = Inr (Some c))"

definition full_shape :: "env \<Rightarrow> string \<Rightarrow> dict \<Rightarrow> pg_write \<Rightarrow> bool" where
  "full_shape env key decoded w \<longleftrightarrow> (\<exists>asset_id origin rel asset prov op_state rv posture claim field.
     w = telemetry_full (telemetry_full_row env asset_id origin rel asset (dget decoded ''kinematics'')
           (dget decoded ''sustainment'') (or_empty (dget decoded ''provenance'')) prov op_state rv posture)
         env claim (dget decoded ''kinematics'')
     \<and> truthy asset_id \<and> map fst origin = [''edge_id'', ''region_id''] \<and> label_columns rel
     \<and> telemetry_claim (or_empty (dget decoded ''operational_state'')) (or_empty (dget decoded ''provenance''))
         = Inr (claim, field)
     \<and> dict_or_empty (or_empty (dget decoded ''provenance'')) = Inr prov)"

lemma telemetry_claim_field:
  "telemetry_claim o_s p = Inr (Some c, True) \<Longrightarrow> operational_status_from_op_state o_s = Inr (Some c)"
  by (auto simp: telemetry_claim_def res_simps split: option.splits)

lemma telemetry_claim_terminal:
  assumes "telemetry_claim o_s p = Inr (Some c, f)"
  shows "c \<in> set terminal_operational_statuses"
proof -
  from assms have "operational_status_from_op_state o_s = Inr (Some c) \<or> c = operational_status_destroyed"
    by (auto simp: telemetry_claim_def res_simps split: option.splits if_splits)
  then show ?thesis
    using claim_is_terminal by (auto simp: terminal_operational_statuses_def)
qed

lemma telemetry_row_shape:
  assumes "truthy asset_id" "map fst origin = [''edge_id'', ''region_id'']" "label_columns rel"
    "telemetry_claim (or_empty (dget decoded ''operational_state'')) (or_empty (dget decoded ''provenance''))
       = Inr (claim, field)"
  shows "writes (full_shape env key decoded)
    (telemetry_row env decoded asset asset_id (or_empty (dget decoded ''provenance''))
      (dget decoded ''kinematics'') op_v origin rel claim)"
  unfolding telemetry_row_def
proof (intro writes_intros, goal_cases)
  case (1 prov rv os posture)
  show ?case unfolding full_shape_def by (intro exI conjI, rule refl) (rule assms 1)+
qed

lemma writes_mono: "writes P m \<Longrightarrow> (\<And>w. P w \<Longrightarrow> Q w) \<Longrightarrow> writes Q m"
  by (simp add: writes_def)

lemma telemetry_shapes:
  "writes (\<lambda>w. status_only_shape env key decoded w \<or> full_shape env key decoded w)
     (handle_telemetry_latest env key decoded)"
  unfolding handle_telemetry_latest_def Let_def
proof (intro writes_intros, goal_cases)
  case (1 asset la_lo lat lon origin c_f claim field rel)
  have l: "label_columns rel" using 1 columns by (simp add: label_columns_def)
  have cols: "map fst origin = [''edge_id'', ''region_id'']" using 1 columns by blast
  show ?case
    by (rule writes_mono [OF telemetry_row_shape [OF _ cols l]]) (use 1 in auto)
next
  case (2 asset la_lo lat lon origin c_f claim field rel c)
  have l: "label_columns rel" using 2 columns by (simp add: label_columns_def)
  have cols: "map fst origin = [''edge_id'', ''region_id'']" using 2 columns by blast
  have id: "truthy (py_or (dget asset ''asset_id'') (PStr key))" and kin: "\<not> truthy (dget decoded ''kinematics'')"
    and claim: "operational_status_from_op_state (or_empty (dget decoded ''operational_state'')) = Inr (Some c)"
    using 2 telemetry_claim_field by auto
  have "status_only_shape env key decoded
      (telemetry_status_only env (py_or (dget asset ''asset_id'') (PStr key)) origin rel c)"
    unfolding status_only_shape_def
    by (intro exI conjI, rule refl, rule id, rule cols, rule l, rule kin, rule claim)
  then show ?case by blast
next
  case (3 asset la_lo lat lon origin c_f claim field rel c)
  have l: "label_columns rel" using 3 columns by (simp add: label_columns_def)
  have cols: "map fst origin = [''edge_id'', ''region_id'']" using 3 columns by blast
  show ?case
    by (rule writes_mono [OF telemetry_row_shape [OF _ cols l]]) (use 3 in auto)
qed

definition label_names :: "string list" where
  "label_names = [''edge_id'', ''region_id'', ''originator_nation'', ''releasable_to'']"

lemma spread_columns:
  assumes "map fst origin = [''edge_id'', ''region_id'']" "label_columns rel"
  shows "distinct (map fst (filter P (origin @ rel)))" "fst ` set (filter P (origin @ rel)) \<subseteq> set label_names"
    "distinct (map fst (origin @ rel))" "fst ` set (origin @ rel) \<subseteq> set label_names"
proof -
  have m: "map fst (origin @ rel) = [''edge_id'', ''region_id''] \<or> map fst (origin @ rel) = label_names"
    using assms by (auto simp: label_columns_def label_names_def)
  then show d: "distinct (map fst (origin @ rel))" by (auto simp: label_names_def simp del: map_append)
  from m have "set (map fst (origin @ rel)) \<subseteq> set label_names" by (auto simp: label_names_def simp del: map_append set_map)
  then show sub: "fst ` set (origin @ rel) \<subseteq> set label_names" by (simp only: set_map)
  from d show "distinct (map fst (filter P (origin @ rel)))" by (rule distinct_map_filter)
  from sub show "fst ` set (filter P (origin @ rel)) \<subseteq> set label_names" by auto
qed

lemma status_only_row:
  assumes "truthy asset_id"
  shows "w_row (telemetry_status_only env asset_id origin rel c) =
    (''asset_id'', asset_id) # filter (\<lambda>kv. snd kv \<noteq> PNone) (origin @ rel) @
      [(''operational_status'', PStr c), (''operational_status_at'', PTime (e_now env)),
       (''updated_at'', PTime (e_now env))]"
  using truthy_not_None [OF assms] by (simp add: telemetry_status_only_def)

lemma status_only_fields:
  "w_key_columns (telemetry_status_only env asset_id origin rel c) = [''asset_id'']"
  "w_revive (telemetry_status_only env asset_id origin rel c) = None"
  "w_mode (telemetry_status_only env asset_id origin rel c)
     = (if c = operational_status_removed then ''update'' else ''upsert'')"
  "w_table (telemetry_status_only env asset_id origin rel c) = ''telemetry_latest_state''"
  by (simp_all add: telemetry_status_only_def)

lemma status_only_wf:
  assumes "truthy asset_id" "map fst origin = [''edge_id'', ''region_id'']" "label_columns rel"
  shows "wf_write (telemetry_status_only env asset_id origin rel c)"
proof -
  let ?mid = "filter (\<lambda>kv. snd kv \<noteq> PNone) (origin @ rel)"
  have mid: "distinct (map fst ?mid)" "fst ` set ?mid \<subseteq> set label_names"
    by (rule spread_columns [OF assms(2,3)])+
  have "''asset_id'' \<notin> fst ` set ?mid" "''operational_status'' \<notin> fst ` set ?mid"
      "''operational_status_at'' \<notin> fst ` set ?mid" "''updated_at'' \<notin> fst ` set ?mid"
    using mid(2) by (auto simp: label_names_def)
  then have dist: "distinct (map fst (w_row (telemetry_status_only env asset_id origin rel c)))"
    using mid(1) unfolding status_only_row [OF assms(1)] by (simp del: filter_append)
  show ?thesis
    by (rule wf_plain)
      (use dist truthy_not_None [OF assms(1)] in
        \<open>simp_all add: status_only_fields status_only_row [OF assms(1)]\<close>)
qed

lemma full_fields:
  "w_key_columns (telemetry_full row env claim kin) = [''asset_id'']"
  "w_table (telemetry_full row env claim kin) = ''telemetry_latest_state''"
  "w_mode (telemetry_full row env claim kin) = ''upsert''"
  "w_row (telemetry_full row env claim kin) = (case claim of
      Some c \<Rightarrow> row @ [(''operational_status'', PStr c), (''operational_status_at'', PTime (e_now env))]
    | None \<Rightarrow> row)"
  "w_revive (telemetry_full row env claim kin)
     = (if claim = None \<and> truthy kin then Some telemetry_revive else None)"
  by (simp_all add: telemetry_full_def)

definition full_columns :: "string list" where
  "full_columns = [''platform_variant'', ''callsign'', ''subsystem'', ''force_id'', ''kinematics'',
     ''sustainment'', ''provenance'', ''last_sample_at'', ''schema_revision'', ''power_state'',
     ''functional_mode'', ''health_state'', ''actively_receiving'', ''actively_transmitting'',
     ''posture_status'', ''posture_since'', ''reporting_status'', ''reporting_status_at'', ''updated_at'']"

lemma full_row_columns:
  "map fst (telemetry_full_row env asset_id origin rel asset kin sus provenance prov os rv posture)
     = ''asset_id'' # map fst (origin @ rel) @ full_columns"
  by (simp add: telemetry_full_row_def full_columns_def)

lemma full_row_distinct:
  assumes "map fst origin = [''edge_id'', ''region_id'']" "label_columns rel"
  shows "distinct (map fst (telemetry_full_row env asset_id origin rel asset kin sus provenance prov os rv posture))"
    "''operational_status'' \<notin> fst ` set (telemetry_full_row env asset_id origin rel asset kin sus provenance prov os rv posture)"
    "''operational_status_at'' \<notin> fst ` set (telemetry_full_row env asset_id origin rel asset kin sus provenance prov os rv posture)"
    "''updated_at'' \<in> fst ` set (telemetry_full_row env asset_id origin rel asset kin sus provenance prov os rv posture)"
proof -
  let ?row = "telemetry_full_row env asset_id origin rel asset kin sus provenance prov os rv posture"
  have fc: "distinct (''asset_id'' # full_columns)" "set full_columns \<inter> set label_names = {}"
      "''asset_id'' \<notin> set label_names" "''operational_status'' \<notin> set (''asset_id'' # full_columns @ label_names)"
      "''operational_status_at'' \<notin> set (''asset_id'' # full_columns @ label_names)" "''updated_at'' \<in> set full_columns"
    by (simp_all add: full_columns_def label_names_def)
  show "distinct (map fst ?row)"
    unfolding full_row_columns
    using spread_columns(3,4) [OF assms] fc(1,2,3) by auto
  have cols: "fst ` set ?row = insert ''asset_id'' (fst ` set (origin @ rel) \<union> set full_columns)"
    using arg_cong [OF full_row_columns [of env asset_id origin rel asset kin sus provenance prov os rv posture], of set]
    by auto
  show "''operational_status'' \<notin> fst ` set ?row" "''operational_status_at'' \<notin> fst ` set ?row"
      "''updated_at'' \<in> fst ` set ?row"
    unfolding cols using spread_columns(4) [OF assms] fc(4,5,6) by auto
qed

lemma full_wf:
  assumes "truthy asset_id" "map fst origin = [''edge_id'', ''region_id'']" "label_columns rel"
  shows "wf_write (telemetry_full (telemetry_full_row env asset_id origin rel asset kin sus provenance prov os rv posture) env claim kin)"
proof -
  let ?row = "telemetry_full_row env asset_id origin rel asset kin sus provenance prov os rv posture"
  let ?w = "telemetry_full ?row env claim kin"
  note row = full_row_distinct [OF assms(2,3), of env asset_id asset kin sus provenance prov os rv posture]
  have dist: "distinct (map fst (w_row ?w))"
    using row by (auto simp: full_fields split: option.split)
  have key: "dget (w_row ?w) ''asset_id'' = asset_id"
    by (simp add: full_fields telemetry_full_row_def split: option.split)
  have other: "''updated_at'' \<in> fst ` set (w_row ?w)"
    using row(4) by (auto simp: full_fields split: option.split)
  show ?thesis
  proof (cases "w_revive ?w")
    case None
    show ?thesis
      by (rule wf_plain) (use dist key other None truthy_not_None [OF assms(1)] in
        \<open>auto simp: full_fields(1,3)\<close>)
  next
    case (Some rev)
    define w where "w = ?w"
    from Some have c: "claim = None" "truthy kin" "rev = telemetry_revive"
      by (auto simp: full_fields split: if_splits)
    then have w: "w_row w = ?row" "w_revive w = Some telemetry_revive" "w_mode w = ''upsert''"
        "w_key_columns w = [''asset_id'']"
      by (simp_all add: w_def full_fields)
    have "check_revive w = Inr ()"
      unfolding check_revive_Inr w using row(2,3,4) by (simp add: telemetry_revive_def)
    moreover have "dget ?row ''asset_id'' \<noteq> PNone" "distinct (map fst ?row)"
      using key dist truthy_not_None [OF assms(1)] c by (simp_all add: full_fields)
    moreover have "\<exists>c \<in> fst ` set ?row. c \<notin> {''asset_id''}"
      using row(4) by (intro bexI [of _ "''updated_at''"]) simp_all
    ultimately have "wf_write w"
      unfolding wf_write_def w by (simp add: telemetry_revive_def status_defs)
    then show ?thesis by (simp add: w_def)
  qed
qed

lemma telemetry_wf:
  "writes (\<lambda>w. wf_write w \<and> w_table w = ''telemetry_latest_state'' \<and> w_key_columns w = [''asset_id''])
     (handle_telemetry_latest env key decoded)"
proof (rule writes_mono [OF telemetry_shapes])
  fix w
  assume "status_only_shape env key decoded w \<or> full_shape env key decoded w"
  then show "wf_write w \<and> w_table w = ''telemetry_latest_state'' \<and> w_key_columns w = [''asset_id'']"
    by (auto simp: status_only_shape_def full_shape_def status_only_wf full_wf status_only_fields full_fields)
qed

end
