(* ===== verification/Telemetry_Lifecycle.thy ===== *)
theory Telemetry_Lifecycle
  imports Handlers_Asset
begin

text \<open>
  What one telemetry message does to its asset's row: the handler \<open>telemetry_latest\<close> composed with
  the store of \<open>Pg_Store\<close>. The operational status is one-way except for a deactivated asset that
  shows itself again; a status-only record touches nothing but the status; every ordinary record
  reads as a report.
\<close>

section \<open>The write and the store\<close>

lemma telemetry_ok_write:
  assumes "handle_telemetry_latest env key decoded = Inr (Wrote w)"
    and "dflt ''operational_status'' \<noteq> PStr operational_status_deactivated"
  shows "ok_write dflt [''asset_id''] w"
proof -
  have w: "wf_write w" "w_key_columns w = [''asset_id'']"
    using telemetry_wf [of env key decoded] assms(1) by (auto simp: writes_def)
  have "rv = telemetry_revive" if "w_revive w = Some rv" for rv
    using telemetry_shapes [of env key decoded] assms(1) that
    by (auto simp: writes_def status_only_shape_def full_shape_def status_only_fields full_fields
        split: if_splits)
  with w assms(2) show ?thesis by (auto simp: ok_write_def telemetry_revive_def)
qed

lemma overlay_status_only:
  assumes "truthy asset_id" "map fst origin = [''edge_id'', ''region_id'']" "label_columns rel"
  shows "overlay (w_row (telemetry_status_only env asset_id origin rel c)) r ''operational_status'' = PStr c"
    "x \<notin> set ([''asset_id'', ''operational_status'', ''operational_status_at'', ''updated_at''] @ label_names)
       \<Longrightarrow> overlay (w_row (telemetry_status_only env asset_id origin rel c)) r x = r x"
proof -
  let ?mid = "filter (\<lambda>kv. snd kv \<noteq> PNone) (origin @ rel)"
  have mid: "fst ` set ?mid \<subseteq> set label_names" by (rule spread_columns(2) [OF assms(2,3)])
  have out: "x \<notin> set label_names \<Longrightarrow> overlay (?mid @ e) r x = overlay e r x" for e x
  proof -
    assume "x \<notin> set label_names"
    with mid have "x \<notin> fst ` set ?mid" by blast
    then have "map_of ?mid x = None" by (simp only: map_of_eq_None_iff simp_thms)
    then show ?thesis unfolding overlay_def map_of_append map_add_def by (simp split: option.split del: filter_append)
  qed
  show "overlay (w_row (telemetry_status_only env asset_id origin rel c)) r ''operational_status'' = PStr c"
    unfolding status_only_row [OF assms(1)] using out [of "''operational_status''"]
    by (simp add: label_names_def del: filter_append)
  show "overlay (w_row (telemetry_status_only env asset_id origin rel c)) r x = r x"
    if "x \<notin> set ([''asset_id'', ''operational_status'', ''operational_status_at'', ''updated_at''] @ label_names)"
    unfolding status_only_row [OF assms(1)] using out [of x] that
    by (simp del: filter_append)
qed

lemma overlay_full_status:
  assumes "map fst origin = [''edge_id'', ''region_id'']" "label_columns rel"
  shows "overlay (w_row (telemetry_full (telemetry_full_row env asset_id origin rel asset kin sus provenance prov os rv posture)
           env claim k)) r ''operational_status''
      = (case claim of Some c \<Rightarrow> PStr c | None \<Rightarrow> r ''operational_status'')"
proof -
  let ?row = "telemetry_full_row env asset_id origin rel asset kin sus provenance prov os rv posture"
  have "map_of ?row ''operational_status'' = None"
    using full_row_distinct(2) [OF assms] by (simp add: map_of_eq_None_iff)
  then show ?thesis
    by (cases claim) (simp_all add: full_fields overlay_def map_add_def)
qed

lemma overlay_full_reporting:
  assumes "map fst origin = [''edge_id'', ''region_id'']" "label_columns rel"
  shows "overlay (w_row (telemetry_full (telemetry_full_row env asset_id origin rel asset kin sus provenance prov os rv posture)
           env claim k)) r ''reporting_status'' = PStr ''reporting''"
    "overlay (w_row (telemetry_full (telemetry_full_row env asset_id origin rel asset kin sus provenance prov os rv posture)
           env claim k)) r ''last_sample_at'' = parse_timestamp env (dget prov ''sample_time'')"
proof -
  let ?row = "telemetry_full_row env asset_id origin rel asset kin sus provenance prov os rv posture"
  let ?w = "telemetry_full ?row env claim k"
  have cols: "fst ` set (origin @ rel) \<subseteq> set label_names" by (rule spread_columns(4) [OF assms])
  have get: "x \<notin> set label_names \<Longrightarrow> dget (origin @ rel @ e) x = dget e x" for x e
  proof -
    assume "x \<notin> set label_names"
    with cols have "x \<notin> fst ` set (origin @ rel)" by blast
    then show ?thesis using dget_append [of "origin @ rel" e x] by simp
  qed
  have inrow: "x \<in> fst ` set ?row \<Longrightarrow> dget (w_row ?w) x = dget ?row x \<and> x \<in> fst ` set (w_row ?w)" for x
    by (auto simp: full_fields dget_append split: option.split)
  have rs: "''reporting_status'' \<in> fst ` set ?row" "''last_sample_at'' \<in> fst ` set ?row"
    by (simp_all add: telemetry_full_row_def)
  have v: "dget ?row ''reporting_status'' = PStr ''reporting''"
      "dget ?row ''last_sample_at'' = parse_timestamp env (dget prov ''sample_time'')"
    unfolding telemetry_full_row_def using get by (simp_all add: label_names_def)
  show "overlay (w_row ?w) r ''reporting_status'' = PStr ''reporting''"
      "overlay (w_row ?w) r ''last_sample_at'' = parse_timestamp env (dget prov ''sample_time'')"
    using inrow [OF rs(1)] inrow [OF rs(2)] v by (simp_all add: overlay_in)
qed

definition status_after :: "string option \<Rightarrow> bool \<Rightarrow> py \<Rightarrow> py" where
  "status_after claim seen old =
     (case claim of
        Some c \<Rightarrow> PStr c
      | None \<Rightarrow> if seen \<and> old = PStr ''deactivated'' then PStr ''operational'' else old)"

lemma status_of_merge:
  assumes "handle_telemetry_latest env key decoded = Inr (Wrote w)"
    and "telemetry_claim (or_empty (dget decoded ''operational_state'')) (or_empty (dget decoded ''provenance''))
       = Inr (claim, field)"
  shows "\<exists>r'. merge_row dflt w (Some r) = Some r' \<and> r' ''operational_status''
      = status_after claim (truthy (dget decoded ''kinematics'')) (r ''operational_status'')"
proof -
  have "status_only_shape env key decoded w \<or> full_shape env key decoded w"
    using telemetry_shapes [of env key decoded] assms(1) by (simp add: writes_def)
  then show ?thesis
  proof
    assume "status_only_shape env key decoded w"
    then obtain asset_id origin rel c where
      w: "w = telemetry_status_only env asset_id origin rel c" and
      a: "truthy asset_id" "map fst origin = [''edge_id'', ''region_id'']" "label_columns rel" and
      c: "operational_status_from_op_state (or_empty (dget decoded ''operational_state'')) = Inr (Some c)"
      by (auto simp: status_only_shape_def)
    have "claim = Some c" using assms(2) c by (simp add: telemetry_claim_def)
    with overlay_status_only(1) [OF a, of env c r] show ?thesis
      by (auto simp: merge_row_def w status_only_fields revived_def status_after_def)
  next
    assume "full_shape env key decoded w"
    then obtain asset_id origin rel asset prov op_state rv posture claim' field' where
      w: "w = telemetry_full (telemetry_full_row env asset_id origin rel asset (dget decoded ''kinematics'')
           (dget decoded ''sustainment'') (or_empty (dget decoded ''provenance'')) prov op_state rv posture)
         env claim' (dget decoded ''kinematics'')" and
      a: "map fst origin = [''edge_id'', ''region_id'']" "label_columns rel" and
      c: "telemetry_claim (or_empty (dget decoded ''operational_state'')) (or_empty (dget decoded ''provenance''))
         = Inr (claim', field')"
      by (auto simp: full_shape_def)
    have cl: "claim' = claim" using assms(2) c by simp
    show ?thesis
    proof (cases claim)
      case (Some x)
      then show ?thesis
        using overlay_full_status [OF a] by (auto simp: merge_row_def w cl full_fields(3,5) revived_def status_after_def)
    next
      case None
      then show ?thesis
        using overlay_full_status [OF a]
        by (auto simp: merge_row_def w cl full_fields(3,5) revived_def status_after_def
            telemetry_revive_def status_defs)
    qed
  qed
qed

text \<open>
  The operational status of an asset under one message. A message that claims a terminal status sets
  it; any other leaves it exactly as it was, whether the asset was destroyed, removed or
  operational, except that a deactivated asset whose own kinematics arrive reads operational again;
  and no message touches the row of another asset. The claim itself is always one of the three
  terminal statuses. (The schema's column default is not deactivated.)
\<close>

lemma telemetry_status_one_way:
  assumes msg: "handle_telemetry_latest env key decoded = Inr (Wrote w)"
    and claim: "telemetry_claim (or_empty (dget decoded ''operational_state'')) (or_empty (dget decoded ''provenance''))
       = Inr (claim, field)"
    and dflt: "dflt ''operational_status'' \<noteq> PStr operational_status_deactivated"
    and row: "lookup_row [''asset_id''] t (write_key w) = Some r"
  shows "\<exists>r'. lookup_row [''asset_id''] (apply_write dflt w t) (write_key w) = Some r'
      \<and> r' ''operational_status''
          = status_after claim (truthy (dget decoded ''kinematics'')) (r ''operational_status'')
      \<and> (\<forall>kv. kv \<noteq> write_key w \<longrightarrow> lookup_row [''asset_id''] (apply_write dflt w t) kv = lookup_row [''asset_id''] t kv)
      \<and> (\<forall>c. claim = Some c \<longrightarrow> c \<in> {''destroyed'', ''deactivated'', ''removed''})"
proof -
  have ok: "ok_write dflt [''asset_id''] w" using msg dflt by (rule telemetry_ok_write)
  have "claim = Some c \<Longrightarrow> c \<in> {''destroyed'', ''deactivated'', ''removed''}" for c
    using telemetry_claim_terminal claim by (force simp: terminal_operational_statuses_def status_defs)
  moreover obtain r' where "merge_row dflt w (Some r) = Some r'"
      "r' ''operational_status'' = status_after claim (truthy (dget decoded ''kinematics'')) (r ''operational_status'')"
    using status_of_merge [OF msg claim] by blast
  ultimately show ?thesis
    using pg.lookup_same [OF ok, of t] pg.lookup_other [OF ok] row by auto
qed

lemma status_only_message:
  assumes "handle_telemetry_latest env key decoded = Inr (Wrote w)"
    and claim: "telemetry_claim (or_empty (dget decoded ''operational_state'')) (or_empty (dget decoded ''provenance''))
       = Inr (Some c, True)"
    and kin: "\<not> truthy (dget decoded ''kinematics'')"
  shows "status_only_shape env key decoded w"
proof -
  have "writes (status_only_shape env key decoded) (handle_telemetry_latest env key decoded)"
    unfolding handle_telemetry_latest_def Let_def
  proof (intro writes_intros, goal_cases)
    case (1 asset la_lo lat lon origin c_f claim field rel)
    with claim show ?case by simp
  next
    case (2 asset la_lo lat lon origin c_f claim field rel c)
    have l: "label_columns rel" using 2 columns by (simp add: label_columns_def)
    have cols: "map fst origin = [''edge_id'', ''region_id'']" using 2 columns by blast
    have id: "truthy (py_or (dget asset ''asset_id'') (PStr key))"
      and cl: "operational_status_from_op_state (or_empty (dget decoded ''operational_state'')) = Inr (Some c)"
      using 2 telemetry_claim_field by auto
    show ?case unfolding status_only_shape_def
      by (intro exI conjI, rule refl, rule id, rule cols, rule l, rule kin, rule cl)
  next
    case (3 asset la_lo lat lon origin c_f claim field rel c)
    with claim kin show ?case by simp
  qed
  with assms(1) show ?thesis by (simp add: writes_def)
qed

text \<open>
  A status-only record (a claim made by the operational_status field, without kinematics)
  writes nothing but the key, the origin, the labels, the status and its two timestamps, so the last
  known position, the identity, the sample time and the reporting status of the row survive it; and
  a removal of an asset the store does not know changes nothing at all.
\<close>

lemma status_only_touches_status:
  assumes msg: "handle_telemetry_latest env key decoded = Inr (Wrote w)"
    and claim: "telemetry_claim (or_empty (dget decoded ''operational_state'')) (or_empty (dget decoded ''provenance''))
       = Inr (Some c, True)"
    and kin: "\<not> truthy (dget decoded ''kinematics'')"
    and col: "x \<notin> {''asset_id'', ''operational_status'', ''operational_status_at'', ''updated_at'',
       ''edge_id'', ''region_id'', ''originator_nation'', ''releasable_to''}"
    and dflt: "dflt ''operational_status'' \<noteq> PStr operational_status_deactivated"
  shows "(case lookup_row [''asset_id''] t (write_key w) of
      Some r \<Rightarrow> (\<exists>r'. lookup_row [''asset_id''] (apply_write dflt w t) (write_key w) = Some r' \<and> r' x = r x)
    | None \<Rightarrow> c = ''removed'' \<longrightarrow> apply_write dflt w t = t)"
proof -
  have ok: "ok_write dflt [''asset_id''] w" using msg dflt by (rule telemetry_ok_write)
  from status_only_message [OF msg claim kin] obtain asset_id origin rel c' where
    w: "w = telemetry_status_only env asset_id origin rel c'" and
    a: "truthy asset_id" "map fst origin = [''edge_id'', ''region_id'']" "label_columns rel" and
    c': "operational_status_from_op_state (or_empty (dget decoded ''operational_state'')) = Inr (Some c')"
    by (auto simp: status_only_shape_def)
  have cc: "c' = c" using telemetry_claim_field [OF claim] c' by simp
  have mode: "c = ''removed'' \<Longrightarrow> w_mode w = ''update''"
    by (simp add: w status_only_fields cc status_defs)
  have merge: "merge_row dflt w (Some r) = Some (overlay (w_row w) r)" for r
    by (simp add: merge_row_def w status_only_fields revived_def)
  have keep: "overlay (w_row w) r x = r x" for r
    unfolding w by (rule overlay_status_only(2) [OF a]) (use col in \<open>auto simp: label_names_def\<close>)
  show ?thesis
  proof (cases "lookup_row [''asset_id''] t (write_key w)")
    case None
    then have "\<not> list_ex (row_hit w) t"
      using ok by (auto simp: lookup_row_None list_ex_iff row_hit_def ok_write_def)
    then show ?thesis
      using None mode by (simp add: apply_write_def merge_row_def)
  next
    case (Some r)
    with pg.lookup_same [OF ok, of t] merge keep show ?thesis by simp
  qed
qed

text \<open>
  Every record that is not status-only reads as a report of its asset, whatever it says of its
  health: the row it leaves is reporting, and its sample time is the one the record itself carries.
\<close>

lemma full_record_reports:
  assumes msg: "handle_telemetry_latest env key decoded = Inr (Wrote w)"
    and kin: "truthy (dget decoded ''kinematics'')"
    and dflt: "dflt ''operational_status'' \<noteq> PStr operational_status_deactivated"
  shows "\<exists>r' p. dict_or_empty (or_empty (dget decoded ''provenance'')) = Inr p
    \<and> lookup_row [''asset_id''] (apply_write dflt w t) (write_key w) = Some r'
    \<and> r' ''reporting_status'' = PStr ''reporting'' \<and> r' ''last_sample_at'' = parse_timestamp env (dget p ''sample_time'')"
proof -
  have ok: "ok_write dflt [''asset_id''] w" using msg dflt by (rule telemetry_ok_write)
  have "full_shape env key decoded w"
    using telemetry_shapes [of env key decoded] msg kin by (auto simp: writes_def status_only_shape_def)
  then obtain asset_id origin rel asset prov op_state rv posture claim where
    w: "w = telemetry_full (telemetry_full_row env asset_id origin rel asset (dget decoded ''kinematics'')
         (dget decoded ''sustainment'') (or_empty (dget decoded ''provenance'')) prov op_state rv posture)
       env claim (dget decoded ''kinematics'')" and
    a: "map fst origin = [''edge_id'', ''region_id'']" "label_columns rel" and
    p: "dict_or_empty (or_empty (dget decoded ''provenance'')) = Inr prov"
    by (auto simp: full_shape_def)
  have o: "overlay (w_row w) q ''reporting_status'' = PStr ''reporting''"
      "overlay (w_row w) q ''last_sample_at'' = parse_timestamp env (dget prov ''sample_time'')" for q
    unfolding w by (rule overlay_full_reporting [OF a])+
  have rv: "revived w old (overlay (w_row w) q) ''reporting_status'' = overlay (w_row w) q ''reporting_status''"
      "revived w old (overlay (w_row w) q) ''last_sample_at'' = overlay (w_row w) q ''last_sample_at''" for old q
    by (simp_all add: revived_def w full_fields(5) telemetry_revive_def)
  have m: "w_mode w = ''upsert''" by (simp add: w full_fields)
  show ?thesis
    unfolding pg.lookup_same [OF ok]
    using o rv m p
    by (cases "lookup_row [''asset_id''] t (write_key w)") (auto simp: merge_row_def)
qed

section \<open>Witnesses\<close>

definition removal_message :: dict where
  "removal_message = [(''asset'', PDict [(''asset_id'', PStr ''a'')]),
     (''operational_state'', PDict [(''operational_status'', PStr ''OPERATIONAL_STATUS_REMOVED'')])]"

definition seen_message :: dict where
  "seen_message = [(''asset'', PDict [(''asset_id'', PStr ''a'')]),
     (''kinematics'', PDict [(''speed'', PInt 3)]),
     (''provenance'', PDict [(''sample_time'', PStr ''2026-01-01T00:00:00Z'')])]"

lemma removal_handled:
  "handle_telemetry_latest sample_env [] removal_message
     = Inr (Wrote (written (handle_telemetry_latest sample_env [] removal_message)))"
  "telemetry_claim (or_empty (dget removal_message ''operational_state''))
     (or_empty (dget removal_message ''provenance'')) = Inr (Some ''removed'', True)"
  "write_key (written (handle_telemetry_latest sample_env [] removal_message)) = [PStr ''a'']"
  "\<not> truthy (dget removal_message ''kinematics'')"
  by code_simp+

lemma seen_handled:
  "handle_telemetry_latest sample_env [] seen_message
     = Inr (Wrote (written (handle_telemetry_latest sample_env [] seen_message)))"
  "telemetry_claim (or_empty (dget seen_message ''operational_state''))
     (or_empty (dget seen_message ''provenance'')) = Inr (None, False)"
  "write_key (written (handle_telemetry_latest sample_env [] seen_message)) = [PStr ''a'']"
  "truthy (dget seen_message ''kinematics'')"
  by code_simp+

definition asset_row :: "string \<Rightarrow> row" where
  "asset_row s = (\<lambda>_. PNone)(''asset_id'' := PStr ''a'', ''operational_status'' := PStr s)"

lemma asset_row_found: "lookup_row [''asset_id''] [asset_row s] [PStr ''a''] = Some (asset_row s)"
  by (simp add: lookup_row_Cons asset_row_def)

lemma deactivated_seen_again:
  "map_option (\<lambda>r. r ''operational_status'') (lookup_row [''asset_id'']
     (apply_write (\<lambda>_. PNone) (written (handle_telemetry_latest sample_env [] seen_message))
       [asset_row ''deactivated'']) [PStr ''a'']) = Some (PStr ''operational'')"
proof -
  have row: "lookup_row [''asset_id''] [asset_row ''deactivated'']
      (write_key (written (handle_telemetry_latest sample_env [] seen_message))) = Some (asset_row ''deactivated'')"
    unfolding seen_handled(3) by (rule asset_row_found)
  have "PNone \<noteq> PStr operational_status_deactivated" by simp
  from telemetry_status_one_way [OF seen_handled(1,2), where dflt = "\<lambda>_. PNone", OF this row]
  show ?thesis
    unfolding seen_handled(3) using seen_handled(4) by (auto simp: status_after_def asset_row_def)
qed

end
