(* ===== verification/Handlers_Other.thy ===== *)
theory Handlers_Other
  imports Handler_Base
begin

text \<open>
  The remaining pure handlers: the three regional rollups, \<open>parts_availability\<close>, the three of
  declare-and-expect (\<open>asset_declaration\<close>, \<open>asset_correlation\<close>, \<open>asset_fielding\<close>) and
  \<open>asset_element_inventory\<close>.
\<close>

section \<open>Regional rollups\<close>

definition count_column :: "dict \<Rightarrow> string \<Rightarrow> (string \<times> py) res" where
  "count_column decoded c = rbind (py_int (py_or (dget decoded c) (PInt 0))) (\<lambda>i. Inr (c, PInt i))"

definition fleet_counts :: "string list" where
  "fleet_counts = [''nominal'', ''degraded'', ''critical'', ''non_operational'', ''destroyed'',
     ''deactivated'', ''removed'', ''asset_count'']"

definition handle_region_fleet_summary :: handler where
  "handle_region_fleet_summary env key decoded =
     (let region_id = py_or (dget decoded ''region_id'') (PStr key) in
      if \<not> truthy region_id then Inr Skip
      else
        rbind (rmap (count_column decoded) fleet_counts) (\<lambda>counts.
        rbind (aggregate_partition_key (dget decoded ''provenance'')) (\<lambda>cls.
        rbind (aggregate_releasability_from (dget decoded ''provenance'')) (\<lambda>rel.
        Inr (Wrote \<lparr>w_table = ''region_fleet_summary'', w_mode = ''upsert'',
          w_key_columns = [''region_id'', ''releasability_class''],
          w_row = [(''region_id'', region_id)] @ counts @
            [(''observed_at'', parse_timestamp env (dget decoded ''observed_at'')),
             (''updated_at'', PTime (e_now env)),
             (''releasability_class'', cls)] @ rel,
          w_jsonb_columns = [], w_revive = None\<rparr>)))))"

definition handle_region_top_factors :: handler where
  "handle_region_top_factors env key decoded =
     (let region_id = py_or (dget decoded ''region_id'') (PStr key) in
      if \<not> truthy region_id then Inr Skip
      else
        rbind (aggregate_partition_key (dget decoded ''provenance'')) (\<lambda>cls.
        rbind (aggregate_releasability_from (dget decoded ''provenance'')) (\<lambda>rel.
        Inr (Wrote \<lparr>w_table = ''region_top_factors'', w_mode = ''upsert'',
          w_key_columns = [''region_id'', ''releasability_class''],
          w_row = [(''region_id'', region_id),
             (''factors'', py_or (dget decoded ''factors'') (PList [])),
             (''observed_at'', parse_timestamp env (dget decoded ''observed_at'')),
             (''updated_at'', PTime (e_now env)),
             (''releasability_class'', cls)] @ rel,
          w_jsonb_columns = [''factors''], w_revive = None\<rparr>))))"

definition handle_region_wear_trends :: handler where
  "handle_region_wear_trends env key decoded =
     (let region_id = py_or (dget decoded ''region_id'') (PStr key) in
      if \<not> truthy region_id then Inr Skip
      else
        rbind (aggregate_partition_key (dget decoded ''provenance'')) (\<lambda>cls.
        rbind (aggregate_releasability_from (dget decoded ''provenance'')) (\<lambda>rel.
        Inr (Wrote \<lparr>w_table = ''region_wear_trends'', w_mode = ''upsert'',
          w_key_columns = [''region_id'', ''releasability_class''],
          w_row = [(''region_id'', region_id),
             (''components'', py_or (dget decoded ''components'') (PList [])),
             (''observed_at'', parse_timestamp env (dget decoded ''observed_at'')),
             (''updated_at'', PTime (e_now env)),
             (''releasability_class'', cls)] @ rel,
          w_jsonb_columns = [''components''], w_revive = None\<rparr>))))"

section \<open>\<open>parts_availability\<close>\<close>

definition nonempty_str :: "py \<Rightarrow> bool" where
  "nonempty_str v = (case v of PStr s \<Rightarrow> s \<noteq> [] | _ \<Rightarrow> False)"

definition figure_columns :: "string list" where
  "figure_columns = [''on_hand'', ''lead_time_days'', ''nearest_site_with_stock'', ''nearest_on_hand'', ''source'']"

text \<open>\<open>fromtimestamp(secs).replace(microsecond=rem_ns // 1000)\<close>.\<close>

definition exact_ns_timestamp :: "int \<Rightarrow> py res" where
  "exact_ns_timestamp ns =
     rbind (from_timestamp_us (ns div 1000000000 * 1000000)) (\<lambda>t.
     case t of PTime us \<Rightarrow> Inr (PTime (us + ns mod 1000000000 div 1000)) | v \<Rightarrow> Inr v)"

definition handle_parts_availability :: handler where
  "handle_parts_availability env key decoded =
     (let site = dget decoded ''site''; part_ref = dget decoded ''part_ref'' in
      if \<not> nonempty_str site \<or> \<not> nonempty_str part_ref
      then Inr (Refused ''parts_availability'' ''missing_key'')
      else
        (case dget decoded ''observed_at_ns'' of
           PInt observed_ns \<Rightarrow>
             rbind (exact_ns_timestamp observed_ns) (\<lambda>observed_at.
             rbind (releasability_from (dget decoded ''provenance'')) (\<lambda>rel.
             Inr (Wrote \<lparr>w_table = ''parts_availability'', w_mode = ''upsert'',
               w_key_columns = [''site'', ''part_ref''],
               w_row = [(''site'', site), (''part_ref'', part_ref)] @
                 map (\<lambda>c. (c, dget decoded c)) figure_columns @
                 [(''observed_at'', observed_at), (''updated_at'', PTime (e_now env))] @ rel,
               w_jsonb_columns = [], w_revive = None\<rparr>)))
         | _ \<Rightarrow> Inr (Refused ''parts_availability'' ''no_observed_at'')))"

section \<open>Declarations\<close>

definition declaration_sources :: "string list" where
  "declaration_sources = [''declare'', ''expect-confirm'']"

definition declaration_required :: "string list" where
  "declaration_required = [''asset_id'', ''unit'', ''originator_nation'', ''declared_by'', ''edge_id'', ''owning_tier'']"

definition none_if_unset :: "py \<Rightarrow> py" where
  "none_if_unset v =
     (case v of
        PStr s \<Rightarrow> (let text = strip s in if text = [] \<or> lower text = ''none'' then PNone else PStr text)
      | _ \<Rightarrow> PNone)"

definition nonblank_str :: "py \<Rightarrow> bool" where
  "nonblank_str v = (case v of PStr s \<Rightarrow> strip s \<noteq> [] | _ \<Rightarrow> False)"

text \<open>The refusal reason, or what the record declares.\<close>

definition validate_declaration :: "env \<Rightarrow> dict \<Rightarrow> string + (py \<times> py list)" where
  "validate_declaration env decoded =
     (if \<not> list_all (\<lambda>c. nonblank_str (dget decoded c)) declaration_required then Inl ''missing_field''
      else if dget decoded ''source'' \<notin> PStr ` set declaration_sources then Inl ''bad_source''
      else
        (let declared_at = parse_timestamp env (dget decoded ''declared_at'') in
         if declared_at = PNone then Inl ''bad_declared_at''
         else
           (case py_or (dget decoded ''releasable_to'') (PList []) of
              PList rs \<Rightarrow> Inr (declared_at, map (\<lambda>r. PStr (py_str (e_repr env) r)) rs)
            | _ \<Rightarrow> Inl ''bad_releasable_to'')))"

definition handle_asset_declaration :: handler where
  "handle_asset_declaration env key decoded =
     (case validate_declaration env decoded of
        Inl reason \<Rightarrow> Inr (Refused ''asset_declaration'' reason)
      | Inr (declared_at, releasable) \<Rightarrow>
          Inr (Wrote \<lparr>w_table = ''asset_declaration'', w_mode = ''upsert'', w_key_columns = [''asset_id''],
            w_row = [(''asset_id'', dget decoded ''asset_id''),
              (''serial'', none_if_unset (dget decoded ''serial'')),
              (''unit'', dget decoded ''unit''),
              (''originator_nation'', dget decoded ''originator_nation''),
              (''releasable_to'', PList releasable),
              (''baseline_id'', none_if_unset (dget decoded ''baseline_id'')),
              (''declared_by'', dget decoded ''declared_by''),
              (''declared_at'', declared_at),
              (''source'', dget decoded ''source''),
              (''edge_id'', dget decoded ''edge_id''),
              (''region_id'', none_if_unset (dget decoded ''region_id'')),
              (''owning_tier'', dget decoded ''owning_tier''),
              (''updated_at'', PTime (e_now env))],
            w_jsonb_columns = [], w_revive = None\<rparr>))"

definition handle_asset_correlation :: handler where
  "handle_asset_correlation env key decoded =
     (let serial = none_if_unset (dget decoded ''serial'') in
      if serial = PNone then Inr Skip
      else
        (case validate_declaration env decoded of
           Inl reason \<Rightarrow> Inr (Refused ''asset_correlation'' reason)
         | Inr (declared_at, releasable) \<Rightarrow>
             Inr (Wrote \<lparr>w_table = ''asset_correlation'', w_mode = ''upsert'', w_key_columns = [''serial''],
               w_row = [(''serial'', serial),
                 (''asset_id'', dget decoded ''asset_id''),
                 (''edge_id'', dget decoded ''edge_id''),
                 (''region_id'', none_if_unset (dget decoded ''region_id'')),
                 (''originator_nation'', dget decoded ''originator_nation''),
                 (''releasable_to'', PList releasable),
                 (''declared_by'', dget decoded ''declared_by''),
                 (''declared_at'', declared_at),
                 (''source'', dget decoded ''source''),
                 (''updated_at'', PTime (e_now env))],
               w_jsonb_columns = [], w_revive = None\<rparr>)))"

section \<open>Fielding\<close>

definition fielding_required :: "string list" where
  "fielding_required = [''serial'', ''platform_variant'', ''unit'', ''site'']"

definition handle_asset_fielding :: handler where
  "handle_asset_fielding env key decoded =
     (if \<not> list_all (\<lambda>c. nonblank_str (dget decoded c)) fielding_required
      then Inr (Refused ''asset_fielding'' ''missing_field'')
      else
        (let serial = none_if_unset (dget decoded ''serial'') in
         if serial = PNone then Inr (Refused ''asset_fielding'' ''missing_field'')
         else
           (let prov = (case dget decoded ''provenance'' of PDict p \<Rightarrow> p | _ \<Rightarrow> []) in
            if \<not> nonblank_str (dget prov ''originator_nation'')
            then Inr (Refused ''asset_fielding'' ''missing_field'')
            else if dget prov ''releasable_to'' \<noteq> PNone \<and> \<not> is_list (dget prov ''releasable_to'')
            then Inr (Refused ''asset_fielding'' ''bad_releasable_to'')
            else
              rbind (parse_ns_timestamp (dget decoded ''due_by_ns'')) (\<lambda>due_by.
              rbind (parse_ns_timestamp (dget decoded ''observed_at_ns'')) (\<lambda>recorded_at.
              if due_by = PNone \<or> recorded_at = PNone
              then Inr (Refused ''asset_fielding'' ''bad_timestamp'')
              else
                rbind (releasability_from (PDict prov)) (\<lambda>rel.
                rbind (dindex rel ''releasable_to'') (\<lambda>rt.
                rbind (py_list rt) (\<lambda>rs.
                Inr (Wrote \<lparr>w_table = ''asset_fielding'', w_mode = ''upsert'', w_key_columns = [''serial''],
                  w_row = [(''serial'', serial),
                    (''platform_variant'', dget decoded ''platform_variant''),
                    (''unit'', dget decoded ''unit''),
                    (''fielded_to'', dget decoded ''site''),
                    (''region_id'', PNone),
                    (''due_by'', due_by),
                    (''recorded_at'', recorded_at),
                    (''updated_at'', PTime (e_now env))] @
                    dset rel ''releasable_to'' (PList (map (\<lambda>r. PStr (py_str (e_repr env) r)) rs)),
                  w_jsonb_columns = [], w_revive = None\<rparr>)))))))))"

section \<open>Inventory\<close>

definition row_id :: "string \<Rightarrow> string \<Rightarrow> string" where
  "row_id asset_id layer_name = asset_id @ '':'' @ layer_name"

definition coerce_int :: "py \<Rightarrow> int res" where
  "coerce_int v =
     (case py_int v of
        Inr i \<Rightarrow> Inr i
      | Inl e \<Rightarrow> if e = TypeError \<or> e = ValueError then Inr 0 else Inl e)"

text \<open>\<open>(v or "").strip()\<close>.\<close>

definition strip_or_empty :: "py \<Rightarrow> string res" where
  "strip_or_empty v = (case py_or v (PStr []) of PStr s \<Rightarrow> Inr (strip s) | _ \<Rightarrow> Inl AttributeError)"

definition handle_asset_element_inventory :: handler where
  "handle_asset_element_inventory env key decoded =
     rbind (strip_or_empty (dget decoded ''asset_id'')) (\<lambda>asset_id.
     rbind (strip_or_empty (dget decoded ''layer_name'')) (\<lambda>layer_name.
     if asset_id = [] \<or> layer_name = [] then Inr Skip
     else
       rbind (resolve_origin_or_derive env PNone (PStr asset_id) None None) (\<lambda>_.
       rbind (coerce_int (dget decoded ''available_count'')) (\<lambda>available.
       rbind (coerce_int (dget decoded ''allocated_count'')) (\<lambda>allocated.
       rbind (releasability_from (label_source decoded)) (\<lambda>rel.
       Inr (Wrote \<lparr>w_table = ''inventory_items'', w_mode = ''upsert'', w_key_columns = [''id''],
         w_row = [(''id'', PStr (row_id asset_id layer_name)), (''name'', PStr layer_name),
           (''asset_id'', PStr asset_id), (''layer_name'', PStr layer_name),
           (''available_count'', PInt available), (''allocated_count'', PInt allocated),
           (''updated_at'', PTime (e_now env))] @ rel,
         w_jsonb_columns = [], w_revive = None\<rparr>)))))))"

section \<open>Every write is well formed\<close>

lemma counts_columns:
  "rmap (count_column decoded) cs = Inr d \<Longrightarrow> map fst d = cs"
  by (induction cs arbitrary: d) (auto simp: res_simps count_column_def)

lemma partition_key_str: "aggregate_partition_key v = Inr c \<Longrightarrow> c \<noteq> PNone"
  by (auto simp: aggregate_partition_key_def res_simps)

lemma region_fleet_contract:
  "writes (contract ''region_fleet_summary'' ''upsert'' [''region_id'', ''releasability_class''])
     (handle_region_fleet_summary env key decoded)"
  unfolding handle_region_fleet_summary_def Let_def
proof (intro writes_intros, goal_cases)
  case (1 counts cls rel)
  have cols: "map fst counts = fleet_counts" "map fst rel = [''originator_nation'', ''releasable_to'']"
    using 1 columns counts_columns by blast+
  have cls: "cls \<noteq> PNone" using 1 partition_key_str by blast
  have id: "py_or (dget decoded ''region_id'') (PStr key) \<noteq> PNone" using 1 truthy_not_None by blast
  have notin: "''releasability_class'' \<notin> fst ` set counts"
    using arg_cong [OF cols(1), of set] by (simp add: fleet_counts_def)
  have get: "dget (counts @ e) ''releasability_class'' = dget e ''releasability_class''" for e
    using notin by (simp add: dget_append)
  have names: "map fst counts = [''nominal'', ''degraded'', ''critical'', ''non_operational'',
      ''destroyed'', ''deactivated'', ''removed'', ''asset_count'']"
    using cols(1) by (simp only: fleet_counts_def)
  have all: "map fst ([(''region_id'', py_or (dget decoded ''region_id'') (PStr key))] @ counts @
      [(''observed_at'', parse_timestamp env (dget decoded ''observed_at'')), (''updated_at'', PTime (e_now env)),
       (''releasability_class'', cls)] @ rel)
    = [''region_id'', ''nominal'', ''degraded'', ''critical'', ''non_operational'', ''destroyed'',
       ''deactivated'', ''removed'', ''asset_count'', ''observed_at'', ''updated_at'',
       ''releasability_class'', ''originator_nation'', ''releasable_to'']"
    by (simp add: names cols(2))
  show ?case
    by (rule contractI_names [OF all]) (use id cls get in auto)
qed

lemma region_factors_contract:
  "writes (contract ''region_top_factors'' ''upsert'' [''region_id'', ''releasability_class''])
     (handle_region_top_factors env key decoded)"
  unfolding handle_region_top_factors_def Let_def
proof (intro writes_intros, goal_cases)
  case (1 cls rel)
  have cols: "map fst rel = [''originator_nation'', ''releasable_to'']" using 1 columns by blast
  have cls: "cls \<noteq> PNone" using 1 partition_key_str by blast
  have id: "py_or (dget decoded ''region_id'') (PStr key) \<noteq> PNone" using 1 truthy_not_None by blast
  show ?case by (rule contractI) (use cols id cls in auto)
qed

lemma region_wear_contract:
  "writes (contract ''region_wear_trends'' ''upsert'' [''region_id'', ''releasability_class''])
     (handle_region_wear_trends env key decoded)"
  unfolding handle_region_wear_trends_def Let_def
proof (intro writes_intros, goal_cases)
  case (1 cls rel)
  have cols: "map fst rel = [''originator_nation'', ''releasable_to'']" using 1 columns by blast
  have cls: "cls \<noteq> PNone" using 1 partition_key_str by blast
  have id: "py_or (dget decoded ''region_id'') (PStr key) \<noteq> PNone" using 1 truthy_not_None by blast
  show ?case by (rule contractI) (use cols id cls in auto)
qed

lemma writes_py: "(\<And>i. v = PInt i \<Longrightarrow> writes P (f i)) \<Longrightarrow> writes P (Inr (Refused a b)) \<Longrightarrow>
    writes P (case v of PInt i \<Rightarrow> f i | _ \<Rightarrow> Inr (Refused a b))"
  by (cases v) auto

lemma nonempty_str_not_None: "nonempty_str v \<Longrightarrow> v \<noteq> PNone" "nonblank_str v \<Longrightarrow> v \<noteq> PNone"
  by (auto simp: nonempty_str_def nonblank_str_def)

lemma parts_contract:
  "writes (contract ''parts_availability'' ''upsert'' [''site'', ''part_ref''])
     (handle_parts_availability env key decoded)"
  unfolding handle_parts_availability_def Let_def
proof (intro writes_intros writes_py, goal_cases)
  case (1 ns dt rel)
  have cols: "map fst rel = [] \<or> map fst rel = [''originator_nation'', ''releasable_to'']"
    using 1 columns by blast
  have id: "dget decoded ''site'' \<noteq> PNone" "dget decoded ''part_ref'' \<noteq> PNone"
    using 1 nonempty_str_not_None by blast+
  have names: "map fst ([(''site'', dget decoded ''site''), (''part_ref'', dget decoded ''part_ref'')] @
      map (\<lambda>c. (c, dget decoded c)) figure_columns @
      [(''observed_at'', dt), (''updated_at'', PTime (e_now env))] @ rel)
    = [''site'', ''part_ref'', ''on_hand'', ''lead_time_days'', ''nearest_site_with_stock'',
       ''nearest_on_hand'', ''source'', ''observed_at'', ''updated_at''] @ map fst rel"
    by (simp add: figure_columns_def)
  show ?case
    by (rule contractI_names [OF names]) (use id cols in auto)
qed

lemma writes_sum:
  "(\<And>a. m = Inl a \<Longrightarrow> writes P (f a)) \<Longrightarrow> (\<And>b. m = Inr b \<Longrightarrow> writes P (g b)) \<Longrightarrow>
    writes P (case m of Inl a \<Rightarrow> f a | Inr b \<Rightarrow> g b)"
  by (cases m) auto

lemma validated:
  assumes "validate_declaration env decoded = Inr (d, rs)" "c \<in> set declaration_required"
  shows "dget decoded c \<noteq> PNone" "nonblank_str (dget decoded c)"
  using assms by (auto simp: validate_declaration_def Let_def list_all_iff nonblank_str_def split: if_splits)

lemma declaration_contract:
  "writes (contract ''asset_declaration'' ''upsert'' [''asset_id'']) (handle_asset_declaration env key decoded)"
  unfolding handle_asset_declaration_def
proof (intro writes_intros writes_sum, goal_cases)
  case (1 p dt rs)
  then have id: "dget decoded ''asset_id'' \<noteq> PNone" using validated(1) [of env decoded dt rs "''asset_id''"]
    by (simp add: declaration_required_def)
  show ?case by (rule contractI) (use id in auto)
qed

lemma correlation_contract:
  "writes (contract ''asset_correlation'' ''upsert'' [''serial'']) (handle_asset_correlation env key decoded)"
  unfolding handle_asset_correlation_def Let_def
proof (intro writes_intros writes_sum, goal_cases)
  case (1 p dt rs)
  then have id: "none_if_unset (dget decoded ''serial'') \<noteq> PNone" by blast
  show ?case by (rule contractI) (use id in auto)
qed

lemma map_fst_dset: "k \<in> fst ` set d \<Longrightarrow> map fst (dset d k v) = map fst d"
  by (induction d k v rule: dset.induct) auto

lemma fielding_contract:
  "writes (contract ''asset_fielding'' ''upsert'' [''serial'']) (handle_asset_fielding env key decoded)"
  unfolding handle_asset_fielding_def Let_def
proof (intro writes_intros, goal_cases)
  case (1 due rec rel rt rs)
  have "map fst rel = [] \<or> map fst rel = [''originator_nation'', ''releasable_to'']"
    using 1 columns by blast
  moreover have "dindex rel ''releasable_to'' = Inr rt" using 1 by blast
  ultimately have cols: "map fst rel = [''originator_nation'', ''releasable_to'']"
    by (cases rel) (simp_all add: dindex_def)
  have "''releasable_to'' \<in> set (map fst rel)" unfolding cols by simp
  then have "''releasable_to'' \<in> fst ` set rel" by (simp only: set_map)
  then have d: "map fst (dset rel ''releasable_to'' v) = [''originator_nation'', ''releasable_to'']" for v
    using cols by (simp add: map_fst_dset)
  have id: "none_if_unset (dget decoded ''serial'') \<noteq> PNone" using 1 by blast
  show ?case by (rule contractI) (use d id in auto)
qed

lemma inventory_contract:
  "writes (contract ''inventory_items'' ''upsert'' [''id'']) (handle_asset_element_inventory env key decoded)"
  unfolding handle_asset_element_inventory_def
proof (intro writes_intros, goal_cases)
  case (1 a l x av al rel)
  have cols: "map fst rel = [] \<or> map fst rel = [''originator_nation'', ''releasable_to'']"
    using 1 columns by blast
  show ?case by (rule contractI) (use cols in auto)
qed

section \<open>Properties\<close>

lemma upsert_column:
  assumes "contract tb ''upsert'' ks w" "w_revive w = None" "c \<in> fst ` set (w_row w)"
  shows "\<exists>r. lookup_row ks (apply_write dflt w t) (write_key w) = Some r \<and> r c = dget (w_row w) c"
proof -
  have ok: "ok_write dflt ks w" using assms(1,2) by (simp add: contract_def ok_write_def)
  show ?thesis
    unfolding pg.lookup_same [OF ok] using assms
    by (cases "lookup_row ks t (write_key w)") (auto simp: merge_row_def contract_def revived_def overlay_in)
qed

lemma dget_pairs:
  "dget (map (\<lambda>c. (c, f c)) cs @ e) x = (if x \<in> set cs then f x else dget e x)"
  by (induction cs) auto

lemma parts_row:
  "writes (\<lambda>w. w_revive w = None
      \<and> (\<forall>c \<in> set figure_columns. c \<in> fst ` set (w_row w) \<and> dget (w_row w) c = dget decoded c)
      \<and> (\<exists>ns. dget decoded ''observed_at_ns'' = PInt ns \<and> exact_ns_timestamp ns = Inr (dget (w_row w) ''observed_at'')))
     (handle_parts_availability env key decoded)"
  unfolding handle_parts_availability_def Let_def
proof (intro writes_intros writes_py, goal_cases)
  case (1 ns dt rel)
  let ?row = "[(''site'', dget decoded ''site''), (''part_ref'', dget decoded ''part_ref'')] @
      map (\<lambda>c. (c, dget decoded c)) figure_columns @
      [(''observed_at'', dt), (''updated_at'', PTime (e_now env))] @ rel"
  have "c \<in> fst ` set ?row \<and> dget ?row c = dget decoded c" if c: "c \<in> set figure_columns" for c
  proof
    from c show "c \<in> fst ` set ?row" by (simp only: set_append image_Un set_map image_image fst_conv image_ident) blast
    have "c \<noteq> ''site''" "c \<noteq> ''part_ref''" using c by (auto simp: figure_columns_def)
    with c show "dget ?row c = dget decoded c" by (simp add: dget_pairs)
  qed
  moreover have "''observed_at'' \<notin> set figure_columns" by (simp add: figure_columns_def)
  then have "dget ?row ''observed_at'' = dt" by (simp add: dget_pairs)
  moreover have "exact_ns_timestamp ns = Inr dt" "dget decoded ''observed_at_ns'' = PInt ns" using 1 by blast+
  ultimately show ?case by simp
qed

lemma exact_ns:
  assumes "exact_ns_timestamp ns = Inr v"
  shows "v = PTime (ns div 1000)"
proof -
  have q: "ns div 1000000000 = ns div 1000 div 1000000"
    using zdiv_zmult2_eq [of 1000000 ns 1000] by simp
  have r: "ns mod 1000000000 = 1000 * (ns div 1000 mod 1000000) + ns mod 1000"
    using zmod_zmult2_eq [of 1000000 ns 1000] by simp
  have "(1000 * (ns div 1000 mod 1000000) + ns mod 1000) div 1000 = ns div 1000 mod 1000000"
    by simp
  then have "ns div 1000000000 * 1000000 + ns mod 1000000000 div 1000 = ns div 1000"
    unfolding q r by simp
  with assms show ?thesis
    by (auto simp: exact_ns_timestamp_def res_simps dest!: from_timestamp_kind)
qed

text \<open>
  The figures on a parts row are the last sweep's own: after a record is written, every figure
  column holds what that record declares, NULL for a figure it does not declare, whatever an
  earlier sweep had left there; and its observation time is the declared nanosecond instant
  truncated to a microsecond, never rounded up.
\<close>

lemma parts_figures_current:
  assumes msg: "handle_parts_availability env key decoded = Inr (Wrote w)" and col: "c \<in> set figure_columns"
  shows "\<exists>r ns. lookup_row [''site'', ''part_ref''] (apply_write dflt w t) (write_key w) = Some r
    \<and> r c = dget decoded c \<and> dget decoded ''observed_at_ns'' = PInt ns
    \<and> dget (w_row w) ''observed_at'' = PTime (ns div 1000)"
proof -
  have w: "contract ''parts_availability'' ''upsert'' [''site'', ''part_ref''] w"
    using parts_contract [of env key decoded] msg by (simp add: writes_def)
  have f: "w_revive w = None" "c \<in> fst ` set (w_row w)" "dget (w_row w) c = dget decoded c"
      "\<exists>ns. dget decoded ''observed_at_ns'' = PInt ns \<and> exact_ns_timestamp ns = Inr (dget (w_row w) ''observed_at'')"
    using parts_row [of decoded env key] msg col by (auto simp: writes_def)
  from upsert_column [OF w f(1,2), of dflt t] f(3,4) exact_ns show ?thesis by metis
qed

text \<open>
  Of one declaration record, the declaration and the correlation handler agree: a record that
  one of them refuses is refused by the other for the same reason, unless it names no serial, in
  which case there is nothing to correlate; a record both accept leaves a correlation row whose
  serial and asset are those of the declaration row; and what is accepted names an asset, a unit,
  a nation, a declarer, an edge, a tier, a known source and a time.
\<close>

lemma declaration_and_correlation:
  "(case validate_declaration env decoded of
      Inl reason \<Rightarrow>
        handle_asset_declaration env key decoded = Inr (Refused ''asset_declaration'' reason)
        \<and> handle_asset_correlation env key decoded
            = (if none_if_unset (dget decoded ''serial'') = PNone then Inr Skip
               else Inr (Refused ''asset_correlation'' reason))
    | Inr (at_time, rs) \<Rightarrow>
        (\<exists>w. handle_asset_declaration env key decoded = Inr (Wrote w)
          \<and> write_key w = [dget decoded ''asset_id'']
          \<and> (if none_if_unset (dget decoded ''serial'') = PNone
             then handle_asset_correlation env key decoded = Inr Skip
             else \<exists>v. handle_asset_correlation env key decoded = Inr (Wrote v)
               \<and> write_key v = [dget (w_row w) ''serial'']
               \<and> dget (w_row v) ''asset_id'' = dget (w_row w) ''asset_id''
               \<and> dget (w_row v) ''releasable_to'' = dget (w_row w) ''releasable_to''))
        \<and> (\<forall>c \<in> set declaration_required. nonblank_str (dget decoded c))
        \<and> dget decoded ''source'' \<in> PStr ` {''declare'', ''expect-confirm''}
        \<and> (\<exists>us. at_time = PTime us))"
proof (cases "validate_declaration env decoded")
  case (Inl reason)
  then show ?thesis by (simp add: handle_asset_declaration_def handle_asset_correlation_def Let_def)
next
  case (Inr p)
  obtain d rs where p: "p = (d, rs)" by (cases p)
  with Inr have v: "validate_declaration env decoded = Inr (d, rs)" by simp
  have "d = parse_timestamp env (dget decoded ''declared_at'')" "d \<noteq> PNone"
    using v by (auto simp: validate_declaration_def Let_def split: if_splits py.splits)
  then have t: "\<exists>us. d = PTime us"
    using parse_timestamp_kind [of env "dget decoded ''declared_at''"] by metis
  have src: "dget decoded ''source'' \<in> PStr ` {''declare'', ''expect-confirm''}"
    using v by (auto simp: validate_declaration_def declaration_sources_def Let_def split: if_splits)
  have req: "\<forall>c \<in> set declaration_required. nonblank_str (dget decoded c)"
    using validated(2) [OF v] by blast
  show ?thesis
    using t src req unfolding v
    by (simp add: handle_asset_declaration_def handle_asset_correlation_def v write_key_def Let_def)
qed

text \<open>
  The row of an inventory line is identified by the asset and the layer together as long as no
  layer name contains a colon; with one it is not: another asset and another layer can share the
  identifier, so that one upsert overwrites the other's row.
\<close>

lemma inventory_row_identity:
  "(CHR '':'' \<notin> set layer1 \<and> CHR '':'' \<notin> set layer2 \<longrightarrow>
      (row_id asset1 layer1 = row_id asset2 layer2 \<longleftrightarrow> asset1 = asset2 \<and> layer1 = layer2))
   \<and> row_id (a @ '':'' @ b) c = row_id a (b @ '':'' @ c)"
proof -
  have "asset1 = asset2 \<and> layer1 = layer2"
    if "CHR '':'' \<notin> set layer1" "CHR '':'' \<notin> set layer2" "row_id asset1 layer1 = row_id asset2 layer2"
  proof -
    from that(3) have "rev (row_id asset1 layer1) = rev (row_id asset2 layer2)" by simp
    then have eq: "rev layer1 @ CHR '':'' # rev asset1 = rev layer2 @ CHR '':'' # rev asset2"
      by (simp add: row_id_def)
    have tw: "takeWhile (\<lambda>c. c \<noteq> CHR '':'') (rev l @ CHR '':'' # r) = rev l"
        "dropWhile (\<lambda>c. c \<noteq> CHR '':'') (rev l @ CHR '':'' # r) = CHR '':'' # r"
      if "CHR '':'' \<notin> set l" for l r
      using that by (auto simp: takeWhile_append dropWhile_append)
    have "rev layer1 = rev layer2" using eq tw(1) [OF that(1)] tw(1) [OF that(2)] by metis
    moreover have "CHR '':'' # rev asset1 = CHR '':'' # rev asset2"
      using eq tw(2) [OF that(1)] tw(2) [OF that(2)] by metis
    ultimately show ?thesis by simp
  qed
  then show ?thesis by (auto simp: row_id_def)
qed

text \<open>
  Partials of one region for different audiences stand side by side: writing one changes
  nothing under the key of the other, in either order, and only a partial for the same audience
  replaces it.
\<close>

lemma region_classes_side_by_side:
  assumes "handle_region_fleet_summary env key1 d1 = Inr (Wrote w1)"
    and "handle_region_fleet_summary env key2 d2 = Inr (Wrote w2)"
    and "aggregate_partition_key (dget d1 ''provenance'') \<noteq> aggregate_partition_key (dget d2 ''provenance'')"
  shows "lookup_row [''region_id'', ''releasability_class''] (apply_write dflt w2 (apply_write dflt w1 t)) (write_key w1)
      = lookup_row [''region_id'', ''releasability_class''] (apply_write dflt w1 t) (write_key w1)
    \<and> lookup_row [''region_id'', ''releasability_class''] (apply_write dflt w1 (apply_write dflt w2 t)) kv
      = lookup_row [''region_id'', ''releasability_class''] (apply_write dflt w2 (apply_write dflt w1 t)) kv"
proof -
  let ?ks = "[''region_id'', ''releasability_class'']"
  have shape: "writes (\<lambda>w. w_revive w = None \<and> aggregate_partition_key (dget d ''provenance'') = Inr (write_key w ! 1))
      (handle_region_fleet_summary env key d)" for env key d
    unfolding handle_region_fleet_summary_def Let_def
  proof (intro writes_intros, goal_cases)
    case (1 counts cls rel)
    have "map fst counts = fleet_counts" using 1 counts_columns by blast
    then have "set (map fst counts) = set fleet_counts" by simp
    then have "''releasability_class'' \<notin> fst ` set counts" by (simp add: fleet_counts_def)
    then have "dget (counts @ e) ''releasability_class'' = dget e ''releasability_class''" for e
      by (simp add: dget_append)
    with 1 show ?case by (simp add: write_key_def)
  qed
  have ok: "ok_write dflt ?ks w1" "ok_write dflt ?ks w2"
    using assms(1,2) region_fleet_contract [of env key1 d1] region_fleet_contract [of env key2 d2]
      shape [of d1 env key1] shape [of d2 env key2]
    by (auto simp: writes_def contract_def ok_write_def)
  have ne: "write_key w1 \<noteq> write_key w2"
    using assms shape [of d1 env key1] shape [of d2 env key2] by (auto simp: writes_def)
  show ?thesis
    using pg.lookup_other [OF ok(2) ne] pg.put_swap [OF ok ne] by simp
qed

section \<open>Witnesses\<close>

definition parts_message :: dict where
  "parts_message = [(''site'', PStr ''s''), (''part_ref'', PStr ''p''), (''on_hand'', PInt 4),
     (''observed_at_ns'', PInt 1999)]"

definition declaration_message :: dict where
  "declaration_message = [(''asset_id'', PStr ''a''), (''serial'', PStr '' 77 ''), (''unit'', PStr ''u''),
     (''originator_nation'', PStr ''ATL''), (''declared_by'', PStr ''x''), (''edge_id'', PStr ''e''),
     (''owning_tier'', PStr ''hq''), (''source'', PStr ''declare''),
     (''declared_at'', PStr ''2026-01-01T00:00:00Z'')]"

definition region_message :: "string \<Rightarrow> dict" where
  "region_message n = [(''region_id'', PStr ''r''),
     (''provenance'', PDict [(''releasable_to'', PList [PStr n])])]"

end
