(* ===== verification/Pg_Execute.thy ===== *)
theory Pg_Execute
  imports Pg_Store
begin

text \<open>
  \<open>PostgresPool.connect\<close>, \<open>_backoff\<close> and \<open>execute\<close>: the retry loops of
  \<open>persistence/postgres.py\<close>.

  The loop has no last retry, so the model runs it over the list of what the server does to each
  attempt and returns \<open>Retrying\<close> when the list ends first. An attempt whose connection is lost may
  or may not have taken effect (\<open>LostAfter\<close>, \<open>LostBefore\<close>): the client cannot tell, and retries.
  \<open>execute_lost\<close> shows that this does not matter, because a Write written twice is a Write written
  once. The delays slept are part of the result.
\<close>

section \<open>Backoff\<close>

definition backoff_exponent_cap :: nat where
  "backoff_exponent_cap = 62"

definition backoff :: "rat \<Rightarrow> rat \<Rightarrow> nat \<Rightarrow> rat" where
  "backoff base mx attempt = min (base * 2 ^ min attempt backoff_exponent_cap) mx"

lemma backoff_bounds:
  "0 < base \<Longrightarrow> 0 < mx \<Longrightarrow> 0 < backoff base mx n \<and> backoff base mx n \<le> mx"
  by (simp add: backoff_def)

lemma backoff_mono:
  assumes "0 < base" "m \<le> n"
  shows "backoff base mx m \<le> backoff base mx n"
proof -
  have "(2::rat) ^ min m backoff_exponent_cap \<le> 2 ^ min n backoff_exponent_cap"
    using assms(2) by (intro power_increasing) auto
  with assms(1) have "base * 2 ^ min m backoff_exponent_cap \<le> base * 2 ^ min n backoff_exponent_cap"
    by simp
  then show ?thesis by (auto simp: backoff_def min_def)
qed

lemma backoff_limit:
  assumes "0 < base" "0 < mx" "mx \<le> base * 2 ^ backoff_exponent_cap" "backoff_exponent_cap \<le> n"
  shows "backoff base mx n = mx"
  using assms by (simp add: backoff_def min_def)

section \<open>connect\<close>

text \<open>The attempts that fail before the pool opens, each with the delay slept after it.\<close>

fun connect_loop :: "rat \<Rightarrow> rat \<Rightarrow> nat \<Rightarrow> bool list \<Rightarrow> bool \<times> rat list" where
  "connect_loop base mx n [] = (False, [])"
| "connect_loop base mx n (True # as) = (True, [])"
| "connect_loop base mx n (False # as) =
     (let (c, ds) = connect_loop base mx (Suc n) as in (c, backoff base mx n # ds))"

lemma connect_loop_fails:
  "connect_loop base mx n (replicate k False @ True # as)
     = (True, map (backoff base mx) [n..<n + k])"
  by (induction k arbitrary: n) (auto simp: upt_conv_Cons simp del: upt_Suc)

section \<open>execute\<close>

datatype attempt = Committed | LostAfter | LostBefore | Rejected

datatype outcome = Returned "nat option" | Raised exc | Retrying

fun execute_loop ::
  "rat \<Rightarrow> rat \<Rightarrow> (table \<Rightarrow> (table \<times> nat) res) \<Rightarrow> bool \<Rightarrow> nat \<Rightarrow> attempt list \<Rightarrow> table
     \<Rightarrow> outcome \<times> table \<times> rat list" where
  "execute_loop base mx run upd n [] t = (Retrying, t, [])"
| "execute_loop base mx run upd n (a # as) t =
     (if a = Rejected then (Raised PostgresWriteError, t, [])
      else if a = LostBefore then
        (let (out, t', ds) = execute_loop base mx run upd (Suc n) as t
         in (out, t', backoff base mx n # ds))
      else
        (case run t of
           Inl e \<Rightarrow> (Raised e, t, [])
         | Inr (t1, count) \<Rightarrow>
             (if a = Committed then (Returned (if upd then Some count else None), t1, [])
              else (let (out, t', ds) = execute_loop base mx run upd (Suc n) as t1
                    in (out, t', backoff base mx n # ds)))))"

definition execute ::
  "rat \<Rightarrow> rat \<Rightarrow> bool \<Rightarrow> row \<Rightarrow> pg_write \<Rightarrow> attempt list \<Rightarrow> table \<Rightarrow> outcome \<times> table \<times> rat list" where
  "execute base mx conn dflt w as t =
     (if \<not> conn then (Raised RuntimeError, t, [])
      else (case build_stmt w of
          Inl e \<Rightarrow> (Raised e, t, [])
        | Inr st \<Rightarrow>
            execute_loop base mx (run_stmt dflt st (bind_values w)) (w_mode w = ''update'') 0 as t))"

section \<open>Writing again\<close>

lemma row_hit_merged:
  assumes w: "wf_write w" and hit: "row_hit w r"
  shows "row_hit w (the (merge_row dflt w (Some r)))"
proof (cases "w_mode w = ''append''")
  case True
  with hit show ?thesis by (simp add: merge_row_def)
next
  case False
  then show ?thesis
    using revived_overlay_key [OF w, of r r] by (simp add: merge_row_def row_hit_def)
qed

lemma write_count_again:
  assumes "wf_write w" "w_mode w = ''update''"
  shows "write_count w (apply_write dflt w t) = write_count w t"
proof -
  have "length (filter (row_hit w) (map (\<lambda>r. if row_hit w r
      then the (merge_row dflt w (Some r)) else r) t)) = length (filter (row_hit w) t)"
    by (induction t) (auto simp: row_hit_merged [OF assms(1)])
  then show ?thesis
    using assms(2) by (simp add: write_count_def apply_write_def merge_row_def)
qed

lemma run_stmt_write:
  "wf_write w \<Longrightarrow> build_stmt w = Inr st \<Longrightarrow>
     run_stmt dflt st (bind_values w) t = Inr (apply_write dflt w t, write_count w t)"
  using run_write_refines [of w dflt t] by (simp add: run_write_def)

lemma wf_build: "wf_write w \<Longrightarrow> \<exists>st. build_stmt w = Inr st"
  by (auto simp: build_stmt_Inr dest: wf_writeD(3))

lemma execute_loop_lost:
  assumes ok: "ok_write dflt ks w" and st: "build_stmt w = Inr st"
    and lost: "set ls \<subseteq> {LostBefore, LostAfter}"
  shows "\<exists>t'. execute_loop base mx (run_stmt dflt st (bind_values w)) (w_mode w = ''update'') n
        (ls @ Committed # as) t
      = (Returned (if w_mode w = ''update'' then Some (write_count w t) else None), t',
         map (backoff base mx) [n..<n + length ls])
      \<and> (\<forall>kv. lookup_row ks t' kv = lookup_row ks (apply_write dflt w t) kv)"
  using lost
proof (induction ls arbitrary: n t)
  case Nil
  have "wf_write w" using ok by (simp add: ok_write_def)
  then show ?case by (simp add: run_stmt_write [OF _ st])
next
  case (Cons a ls)
  have w: "wf_write w" using ok by (simp add: ok_write_def)
  let ?t = "if a = LostBefore then t else apply_write dflt w t"
  obtain t' where t': "execute_loop base mx (run_stmt dflt st (bind_values w)) (w_mode w = ''update'')
        (Suc n) (ls @ Committed # as) ?t
      = (Returned (if w_mode w = ''update'' then Some (write_count w ?t) else None), t',
         map (backoff base mx) [Suc n..<Suc n + length ls])"
    and same: "\<forall>kv. lookup_row ks t' kv = lookup_row ks (apply_write dflt w ?t) kv"
    using Cons.IH [of "Suc n" ?t] Cons.prems by auto
  have count: "w_mode w = ''update'' \<Longrightarrow> write_count w ?t = write_count w t"
    by (simp add: write_count_again [OF w])
  have "\<forall>kv. lookup_row ks t' kv = lookup_row ks (apply_write dflt w t) kv"
    using same pg.put_twice [OF ok] by simp
  moreover have "a = LostBefore \<or> a = LostAfter" using Cons.prems by auto
  then have "execute_loop base mx (run_stmt dflt st (bind_values w)) (w_mode w = ''update'') n
      ((a # ls) @ Committed # as) t
      = (Returned (if w_mode w = ''update'' then Some (write_count w t) else None), t',
         map (backoff base mx) [n..<n + length (a # ls)])"
    using t' count
    by (auto simp: run_stmt_write [OF w st] upt_conv_Cons simp del: upt_Suc split: if_splits)
  ultimately show ?case by blast
qed

lemma execute_loop_rejected:
  assumes w: "wf_write w" and st: "build_stmt w = Inr st"
    and lost: "set ls \<subseteq> {LostBefore, LostAfter}"
  shows "fst (execute_loop base mx (run_stmt dflt st (bind_values w)) u n (ls @ Rejected # as) t)
      = Raised PostgresWriteError"
  using lost
  by (induction ls arbitrary: n t)
    (auto simp: run_stmt_write [OF w st] Let_def case_prod_beta)

text \<open>
  C10. Executing a Write either creates or changes the one row under its key and no other, and the
  row it leaves there is the one the Write promises: every column of the row overwritten for an
  upsert or an update, nothing changed by an append whose key exists, nothing created by an update
  whose key does not exist, and a revive applied exactly when the old status is one of its values.
\<close>

theorem write_effect:
  assumes "ok_write dflt ks w"
  shows "\<exists>t' n. run_write dflt w t = Inr (t', n)
    \<and> lookup_row ks t' (write_key w) = merge_row dflt w (lookup_row ks t (write_key w))
    \<and> (\<forall>kv. kv \<noteq> write_key w \<longrightarrow> lookup_row ks t' kv = lookup_row ks t kv)"
proof -
  have "wf_write w" using assms by (simp add: ok_write_def)
  from run_write_refines [OF this] pg.lookup_same [OF assms] pg.lookup_other [OF assms]
  show ?thesis by blast
qed

text \<open>
  However many attempts are lost to a dead connection, and whichever of them had taken effect
  before it died, \<open>execute\<close> returns after the first acknowledged one, the table reads as after a
  single execution, the row count of an update is that of a single execution, and the delays slept
  are the backoff of attempts 0, 1, 2, in order.
\<close>

lemma execute_lost_attempts:
  assumes "ok_write dflt ks w" and "set ls \<subseteq> {LostBefore, LostAfter}"
  shows "\<exists>t'. execute base mx True dflt w (ls @ Committed # as) t
      = (Returned (if w_mode w = ''update'' then Some (write_count w t) else None), t',
         map (backoff base mx) [0..<length ls])
    \<and> (\<forall>kv. lookup_row ks t' kv = lookup_row ks (apply_write dflt w t) kv)"
proof -
  from assms(1) have "wf_write w" by (simp add: ok_write_def)
  then obtain st where "build_stmt w = Inr st" using wf_build by blast
  with execute_loop_lost [OF assms(1) this assms(2), of base mx 0 as t] show ?thesis
    by (simp add: execute_def)
qed

text \<open>
  The backoff of every attempt is positive and at most the configured maximum, and never
  shrinks from one attempt to the next, for any positive base and maximum.
\<close>

lemma backoff_monotone_bounded:
  assumes "0 < base" "0 < mx" "m \<le> n"
  shows "0 < backoff base mx m \<and> backoff base mx m \<le> backoff base mx n \<and> backoff base mx n \<le> mx"
  using backoff_bounds [OF assms(1,2)] backoff_mono [OF assms(1,3)] by blast

section \<open>Witnesses\<close>

definition sample_write :: pg_write where
  "sample_write = \<lparr>w_table = ''telemetry_latest_state'', w_mode = ''upsert'',
     w_key_columns = [''asset_id''],
     w_row = [(''asset_id'', PStr ''a1''), (''updated_at'', PTime 7)],
     w_jsonb_columns = [],
     w_revive = Some \<lparr>rv_column = ''operational_status'', rv_from_values = [''deactivated''],
       rv_to_value = ''operational'', rv_at_column = ''operational_status_at'',
       rv_at_from = ''updated_at''\<rparr>\<rparr>"

lemma sample_write_ok: "ok_write (\<lambda>_. PNone) [''asset_id''] sample_write"
  by (simp add: ok_write_def wf_write_def sample_write_def check_revive_Inr)

lemma sample_write_sql:
  "build_sql sample_write = Inr (''INSERT INTO '' @ quote ''telemetry_latest_state'' @ '' ('' @
     quote ''asset_id'' @ '', '' @ quote ''updated_at'' @ '') VALUES ('' @ placeholder 1 @ '', '' @
     placeholder 2 @ '') ON CONFLICT ('' @ quote ''asset_id'' @ '') DO UPDATE SET '' @
     quote ''updated_at'' @ '' = EXCLUDED.'' @ quote ''updated_at'' @ '', '' @
     quote ''operational_status_at'' @ '' = CASE WHEN '' @ quote ''telemetry_latest_state'' @ ''.'' @
     quote ''operational_status'' @ '' IN ('' @ placeholder 3 @ '') THEN EXCLUDED.'' @
     quote ''updated_at'' @ '' ELSE '' @ quote ''telemetry_latest_state'' @ ''.'' @
     quote ''operational_status_at'' @ '' END, '' @ quote ''operational_status'' @
     '' = CASE WHEN '' @ quote ''telemetry_latest_state'' @ ''.'' @ quote ''operational_status'' @
     '' IN ('' @ placeholder 3 @ '') THEN '' @ placeholder 4 @ '' ELSE '' @
     quote ''telemetry_latest_state'' @ ''.'' @ quote ''operational_status'' @ '' END'')"
  by code_simp

theorem write_effect_witness:
  "\<exists>t' n. run_write (\<lambda>_. PNone) sample_write
       [(\<lambda>_. PNone)(''asset_id'' := PStr ''a1'', ''operational_status'' := PStr ''deactivated'')]
       = Inr (t', n)
     \<and> map_option (\<lambda>r. r ''operational_status'') (lookup_row [''asset_id''] t' [PStr ''a1''])
         = Some (PStr ''operational'')"
proof -
  let ?t = "[(\<lambda>_. PNone)(''asset_id'' := PStr ''a1'', ''operational_status'' := PStr ''deactivated'')]"
  from write_effect [OF sample_write_ok, of ?t] obtain t' n where
    r: "run_write (\<lambda>_. PNone) sample_write ?t = Inr (t', n)"
    and l: "lookup_row [''asset_id''] t' (write_key sample_write)
      = merge_row (\<lambda>_. PNone) sample_write (lookup_row [''asset_id''] ?t (write_key sample_write))"
    by blast
  have "write_key sample_write = [PStr ''a1'']"
    by (simp add: write_key_def sample_write_def)
  with l have "lookup_row [''asset_id''] t' [PStr ''a1'']
      = merge_row (\<lambda>_. PNone) sample_write (lookup_row [''asset_id''] ?t [PStr ''a1''])" by simp
  then show ?thesis
    using r by (simp add: lookup_row_Cons merge_row_def sample_write_def revived_def)
qed

end
