(* ===== verification/Consumer.thy ===== *)
theory Consumer
  imports Telemetry_Lifecycle Handlers_Other Pg_Execute
begin

text \<open>
  \<open>main.ConsumerWorker\<close> and the decoders it dispatches to: one Kafka topic drained in batches,
  decoded, handed to its handler, persisted and committed.

  A topic is its log, a list of messages; a worker has a position (the next offset a poll returns)
  and a committed offset (where a restart resumes). \<open>poll\<close> moves the position, and
  \<open>commit()\<close> without arguments commits the position. The JSON parser and the generated protobuf
  classes are arguments of the decoders: \<open>loads\<close> raises ValueError where \<open>json.loads\<close> or the
  utf-8 decoding does, \<open>parse\<close> returns None where ParseFromString raises. The store is a table per
  name; a write reaches it through \<open>pool.execute\<close>, whose retries \<open>Pg_Execute\<close> shows to have the
  effect of one execution, so here a write either is applied or, where the server refuses the row
  (\<open>accepts\<close>), raises PostgresWriteError.
\<close>

section \<open>Decoders\<close>

definition decode_json :: "(string \<Rightarrow> py res) \<Rightarrow> string option \<Rightarrow> dict res" where
  "decode_json loads raw =
     (case raw of
        None \<Rightarrow> Inl DecodeError
      | Some b \<Rightarrow>
          (case loads b of
             Inl e \<Rightarrow> Inl (if e = ValueError then DecodeError else e)
           | Inr (PDict d) \<Rightarrow> Inr d
           | Inr _ \<Rightarrow> Inl DecodeError))"

definition cloudevent_required :: "string list" where
  "cloudevent_required = [''id'', ''source'', ''type'']"

definition decode_cloudevent :: "(string \<Rightarrow> py res) \<Rightarrow> string option \<Rightarrow> dict res" where
  "decode_cloudevent loads raw =
     (case raw of
        None \<Rightarrow> Inl DecodeError
      | Some b \<Rightarrow>
          (case loads b of
             Inl e \<Rightarrow> Inl (if e = ValueError then DecodeError else e)
           | Inr (PDict d) \<Rightarrow>
               (if filter (\<lambda>a. \<not> truthy (dget d a)) cloudevent_required \<noteq> [] then Inl DecodeError
                else Inr d)
           | Inr _ \<Rightarrow> Inl DecodeError))"

definition message_modules :: "string list" where
  "message_modules =
     [''openddil.configuration.v1.AsMaintainedConfiguration'',
      ''openddil.logistics.v1.AssetLogisticsStatusUpdate'',
      ''openddil.telemetry.v1.EntityTelemetryEvent'',
      ''openddil.logistics.v1.WindowedTelemetry'',
      ''openddil.regional.v1.RegionFleetSummary'',
      ''openddil.regional.v1.RegionTopFactors'',
      ''openddil.regional.v1.RegionWearTrends'']"

text \<open>
  \<open>parse\<close> is what the installed stubs do. Constructing the decoder of a message name without a
  registered module, or whose module does not import, raises.
\<close>

definition proto_decode :: "(string \<Rightarrow> dict option) \<Rightarrow> string option \<Rightarrow> dict res" where
  "proto_decode parse raw =
     (case raw of
        None \<Rightarrow> Inl DecodeError
      | Some b \<Rightarrow> (case parse b of None \<Rightarrow> Inl DecodeError | Some d \<Rightarrow> Inr d))"

definition proto_decoder ::
  "(string \<Rightarrow> (string \<Rightarrow> dict option) option) \<Rightarrow> string \<Rightarrow> (string option \<Rightarrow> dict res) res" where
  "proto_decoder stubs message_name =
     (if message_name \<notin> set message_modules then Inl DecodeError
      else (case stubs message_name of None \<Rightarrow> Inl DecodeError | Some parse \<Rightarrow> Inr (proto_decode parse)))"

definition make_decoder ::
  "(string \<Rightarrow> py res) \<Rightarrow> (string \<Rightarrow> (string \<Rightarrow> dict option) option) \<Rightarrow> string
     \<Rightarrow> (string option \<Rightarrow> dict res) res" where
  "make_decoder loads stubs decode_as =
     (if decode_as = ''cloudevents.json'' then Inr (decode_cloudevent loads)
      else if decode_as = ''json'' then Inr (decode_json loads)
      else proto_decoder stubs decode_as)"

section \<open>The handler registry\<close>

text \<open>
  The handlers of \<open>handlers/__init__.py\<close>: those that answer with a write, and those of mode custom,
  which take the pool and are named here only.
\<close>

datatype registered = Returns handler | Owns_Io string

definition handler_registry :: "(string \<times> registered) list" where
  "handler_registry =
     [(''cm_state'', Returns handle_cm_state),
      (''logistics_status'', Returns handle_logistics_status),
      (''telemetry_latest'', Returns handle_telemetry_latest),
      (''tactical_events'', Returns handle_tactical_events),
      (''telemetry_windows'', Returns handle_telemetry_windows),
      (''region_fleet_summary'', Returns handle_region_fleet_summary),
      (''region_top_factors'', Returns handle_region_top_factors),
      (''region_wear_trends'', Returns handle_region_wear_trends),
      (''capability_state'', Returns handle_capability_state),
      (''asset_element_telemetry'', Owns_Io ''asset_element_telemetry''),
      (''asset_element_inventory'', Returns handle_asset_element_inventory),
      (''parts_availability'', Returns handle_parts_availability),
      (''effector_launch'', Owns_Io ''effector_launch''),
      (''munition_track'', Owns_Io ''munition_track''),
      (''asset_declaration'', Returns handle_asset_declaration),
      (''asset_correlation'', Returns handle_asset_correlation),
      (''asset_fielding'', Returns handle_asset_fielding)]"

definition get_handler :: "string \<Rightarrow> registered res" where
  "get_handler name =
     (case map_of handler_registry name of None \<Rightarrow> Inl (KeyError name) | Some h \<Rightarrow> Inr h)"

section \<open>Keys\<close>

text \<open>\<open>bytes.decode("utf-8")\<close> succeeds: the well-formed sequences of the Unicode standard.\<close>

definition continuation :: "nat \<Rightarrow> bool" where
  "continuation b \<longleftrightarrow> 128 \<le> b \<and> b \<le> 191"

fun utf8_valid :: "nat list \<Rightarrow> bool" where
  "utf8_valid [] = True"
| "utf8_valid (a # bs) =
     (if a < 128 then utf8_valid bs
      else if 194 \<le> a \<and> a \<le> 223 then
        (case bs of b # r \<Rightarrow> continuation b \<and> utf8_valid r | _ \<Rightarrow> False)
      else if 224 \<le> a \<and> a \<le> 239 then
        (case bs of b # c # r \<Rightarrow>
             (if a = 224 then 160 \<le> b \<and> b \<le> 191 else if a = 237 then 128 \<le> b \<and> b \<le> 159 else continuation b)
             \<and> continuation c \<and> utf8_valid r
         | _ \<Rightarrow> False)
      else if 240 \<le> a \<and> a \<le> 244 then
        (case bs of b # c # d # r \<Rightarrow>
             (if a = 240 then 144 \<le> b \<and> b \<le> 191 else if a = 244 then 128 \<le> b \<and> b \<le> 143 else continuation b)
             \<and> continuation c \<and> continuation d \<and> utf8_valid r
         | _ \<Rightarrow> False)
      else False)"

record message =
  msg_key :: "string option"
  msg_value :: "string option"
  msg_error :: "int option"

text \<open>\<open>msg.key().decode("utf-8") if msg.key() else ""\<close>; an invalid key raises UnicodeDecodeError.\<close>

definition message_key :: "message \<Rightarrow> string res" where
  "message_key m =
     (case msg_key m of
        None \<Rightarrow> Inr []
      | Some k \<Rightarrow> (if k = [] then Inr [] else if utf8_valid (map of_char k) then Inr k else Inl ValueError))"

section \<open>Draining\<close>

text \<open>
  The loop of \<open>_drain_batch\<close>: \<open>msg\<close> is the last poll's answer and \<open>polls\<close> the answers to come. The
  answer in hand when the batch is full is not kept.
\<close>

fun drain_loop :: "nat \<Rightarrow> 'm list \<Rightarrow> 'm option \<Rightarrow> 'm option list \<Rightarrow> 'm list \<times> 'm option list" where
  "drain_loop mx batch None polls = (batch, polls)"
| "drain_loop mx batch (Some m) [] = (if length batch < mx then (batch @ [m], []) else (batch, []))"
| "drain_loop mx batch (Some m) (p # ps) =
     (if length batch < mx then drain_loop mx (batch @ [m]) p ps else (batch, p # ps))"

definition drain_batch :: "nat \<Rightarrow> 'm option list \<Rightarrow> 'm list \<times> 'm option list" where
  "drain_batch mx polls =
     (case polls of [] \<Rightarrow> ([], []) | p # ps \<Rightarrow> drain_loop mx [] p ps)"

section \<open>Coalescing and persisting\<close>

definition coalesce_batch :: "string \<Rightarrow> message list \<Rightarrow> message list" where
  "coalesce_batch mode batch =
     (if mode \<noteq> ''upsert'' then batch
      else map snd (foldl (\<lambda>by_key m. dset by_key (msg_key m) m) [] batch))"

type_synonym store = "string \<Rightarrow> table"

datatype persist_result =
  Decode_Error | Handler_Exception | Handled | Skipped_Message | Write_Refused | Unknown_Dropped | Upserted

record worker =
  wk_mode :: string
  wk_decode :: "string option \<Rightarrow> dict res"
  wk_handler :: handler
  wk_custom :: "env \<Rightarrow> string \<Rightarrow> dict \<Rightarrow> store \<Rightarrow> exc option \<times> store"

definition store_write :: "(pg_write \<Rightarrow> bool) \<Rightarrow> (string \<Rightarrow> row) \<Rightarrow> pg_write \<Rightarrow> store \<Rightarrow> (nat \<times> store) res" where
  "store_write accepts schema w st =
     (if \<not> accepts w then Inl PostgresWriteError
      else rbind (run_write (schema (w_table w)) w (st (w_table w))) (\<lambda>(t, n). Inr (n, st(w_table w := t))))"

definition persist ::
  "worker \<Rightarrow> env \<Rightarrow> (pg_write \<Rightarrow> bool) \<Rightarrow> (string \<Rightarrow> row) \<Rightarrow> message \<Rightarrow> store \<Rightarrow> (persist_result \<times> store) res" where
  "persist wk env accepts schema m st =
     rbind (message_key m) (\<lambda>key.
     case wk_decode wk (msg_value m) of
       Inl e \<Rightarrow> (if e = DecodeError then Inr (Decode_Error, st) else Inl e)
     | Inr decoded \<Rightarrow>
         (if wk_mode wk = ''custom'' then
            (case wk_custom wk env key decoded st of
               (None, st') \<Rightarrow> Inr (Handled, st')
             | (Some _, st') \<Rightarrow> Inr (Handler_Exception, st'))
          else
            (case wk_handler wk env key decoded of
               Inl _ \<Rightarrow> Inr (Handler_Exception, st)
             | Inr (Wrote w) \<Rightarrow>
                 (case store_write accepts schema w st of
                    Inl e \<Rightarrow> (if e = PostgresWriteError then Inr (Write_Refused, st) else Inl e)
                  | Inr (n, st') \<Rightarrow>
                      (if w_mode w = ''update'' \<and> n = 0 then Inr (Unknown_Dropped, st')
                       else Inr (Upserted, st')))
             | Inr _ \<Rightarrow> Inr (Skipped_Message, st))))"

text \<open>The loop over the batch: an exception that escapes \<open>_persist\<close> ends the worker's task.\<close>

fun persist_all ::
  "worker \<Rightarrow> (message \<Rightarrow> env) \<Rightarrow> (pg_write \<Rightarrow> bool) \<Rightarrow> (string \<Rightarrow> row) \<Rightarrow> message list \<Rightarrow> store \<Rightarrow> exc option \<times> store" where
  "persist_all wk envs accepts schema [] st = (None, st)"
| "persist_all wk envs accepts schema (m # ms) st =
     (case persist wk (envs m) accepts schema m st of
        Inl e \<Rightarrow> (Some e, st)
      | Inr (_, st') \<Rightarrow> persist_all wk envs accepts schema ms st')"

text \<open>
  One turn of \<open>run\<close>: the messages without an error are coalesced and persisted, then the position is
  committed; a turn with nothing real commits nothing. The answer tells whether it commits.
\<close>

definition run_turn ::
  "worker \<Rightarrow> (message \<Rightarrow> env) \<Rightarrow> (pg_write \<Rightarrow> bool) \<Rightarrow> (string \<Rightarrow> row) \<Rightarrow> message list \<Rightarrow> store
     \<Rightarrow> (exc option \<times> bool) \<times> store" where
  "run_turn wk envs accepts schema batch st =
     (let real_msgs = filter (\<lambda>m. msg_error m = None) batch in
      if real_msgs = [] then ((None, False), st)
      else
        (let (e, st') = persist_all wk envs accepts schema (coalesce_batch (wk_mode wk) real_msgs) st
         in ((e, e = None), st')))"

section \<open>Lag\<close>

text \<open>\<open>update_lag_gauge\<close>: per partition the low and high watermark and the committed offset.\<close>

definition topic_lag :: "(int \<times> int \<times> int) list \<Rightarrow> int" where
  "topic_lag tps = sum_list (map (\<lambda>(lo, hi, committed).
     max 0 (hi - (if committed \<ge> 0 then committed else lo))) tps)"

lemma topic_lag_nonneg: "0 \<le> topic_lag tps"
  by (induction tps) (auto simp: topic_lag_def)

end
