(* ===== verification/Delivery.thy ===== *)
theory Delivery
  imports Consumer
begin

text \<open>
  What the consumer of \<open>Consumer\<close> delivers: the drain, the offsets that a restart can and cannot
  bring back, the coalescing of a batch, redelivery, and the isolation of bad messages.
\<close>

section \<open>The drain\<close>

lemma drain_loop_fits:
  "length batch + length ms < mx \<Longrightarrow>
     drain_loop mx batch (Some m) (map Some ms @ None # rest) = (batch @ m # ms, rest)"
  by (induction ms arbitrary: batch m) auto

lemma drain_loop_full:
  "length batch \<le> mx \<Longrightarrow> mx \<le> length batch + length ms \<Longrightarrow>
     drain_loop mx batch (Some m) (map Some ms @ rest)
       = (batch @ take (mx - length batch) (m # ms), drop (mx - length batch) (map Some ms @ rest))"
proof (induction ms arbitrary: batch m)
  case Nil
  then have "length batch = mx" by simp
  then show ?case by (cases rest) simp_all
next
  case (Cons x xs)
  show ?case
  proof (cases "length batch = mx")
    case False
    then have "mx - length batch = Suc (mx - Suc (length batch))" using Cons.prems by simp
    with Cons False show ?thesis by simp
  qed simp
qed

lemma drain_fits:
  "length ms \<le> mx \<Longrightarrow> ms \<noteq> [] \<Longrightarrow> drain_batch mx (map Some ms @ None # rest) = (ms, rest)"
  by (cases ms) (auto simp: drain_batch_def drain_loop_fits)

lemma drain_full:
  "mx < length ms \<Longrightarrow> drain_batch mx (map Some ms @ rest) = (take mx ms, map Some (drop (Suc mx) ms) @ rest)"
proof (cases ms)
  case (Cons m xs)
  moreover assume "mx < length ms"
  ultimately show ?thesis
    using drain_loop_full [of "[]" mx xs m rest]
    by (simp add: drain_batch_def drop_map)
qed simp

section \<open>Offsets\<close>

record consumer_state =
  cs_position :: nat
  cs_committed :: nat
  cs_handled :: "nat set"

text \<open>
  One turn on a log of which \<open>a\<close> messages past the position are available (at most \<open>cap\<close>): the
  batch is what \<open>drain_batch\<close> makes of their polls, and the position stands behind every message a
  poll returned, kept or not. \<open>commit_failed\<close> is the logged failure of the commit; a crash during
  the turn has handed over any part of the batch and restarts at the committed offset.
\<close>

definition offsets_polled :: "nat \<Rightarrow> nat \<Rightarrow> nat \<Rightarrow> nat list \<times> nat" where
  "offsets_polled mx p a =
     (let (batch, rest) = drain_batch mx (map Some [p..<p + a] @ [None])
      in (batch, p + a - length (filter (\<lambda>x. x \<noteq> None) rest)))"

inductive consumer_step :: "nat \<Rightarrow> nat \<Rightarrow> consumer_state \<Rightarrow> consumer_state \<Rightarrow> bool" for mx cap where
  turn: "0 < a \<Longrightarrow> a \<le> cap \<Longrightarrow> offsets_polled mx (cs_position s) a = (batch, new) \<Longrightarrow>
     consumer_step mx cap s
       (s\<lparr>cs_position := new, cs_handled := cs_handled s \<union> set batch, cs_committed := new\<rparr>)"
| commit_failed: "0 < a \<Longrightarrow> a \<le> cap \<Longrightarrow> offsets_polled mx (cs_position s) a = (batch, new) \<Longrightarrow>
     consumer_step mx cap s (s\<lparr>cs_position := new, cs_handled := cs_handled s \<union> set batch\<rparr>)"
| crash: "0 < a \<Longrightarrow> a \<le> cap \<Longrightarrow> offsets_polled mx (cs_position s) a = (batch, new) \<Longrightarrow> part \<subseteq> set batch \<Longrightarrow>
     consumer_step mx cap s (s\<lparr>cs_position := cs_committed s, cs_handled := cs_handled s \<union> part\<rparr>)"

inductive_cases consumer_stepE: "consumer_step mx cap s s'"

inductive consumer_reach :: "nat \<Rightarrow> nat \<Rightarrow> consumer_state \<Rightarrow> consumer_state \<Rightarrow> bool" for mx cap where
  start: "consumer_reach mx cap s s"
| next_step: "consumer_reach mx cap s s' \<Longrightarrow> consumer_step mx cap s' s'' \<Longrightarrow> consumer_reach mx cap s s''"

lemma filter_Some_map: "filter (\<lambda>x. x \<noteq> None) (map Some xs @ [None]) = map Some xs"
  by (induction xs) auto

lemma offsets_polled_fits:
  "0 < a \<Longrightarrow> a \<le> mx \<Longrightarrow> offsets_polled mx p a = ([p..<p + a], p + a)"
  using drain_fits [of "[p..<p + a]" mx "[]"] by (simp add: offsets_polled_def)

lemma offsets_polled_full:
  "mx < a \<Longrightarrow> offsets_polled mx p a = ([p..<p + mx], Suc (p + mx))"
proof -
  assume a: "mx < a"
  have "length (filter (\<lambda>x. x \<noteq> None) (map Some (drop (Suc mx) [p..<p + a]) @ [None])) = a - Suc mx"
    unfolding filter_Some_map by simp
  with a drain_full [of mx "[p..<p + a]" "[None]"] show ?thesis
    by (simp add: offsets_polled_def take_upt)
qed

lemma offsets_polled_bounds:
  assumes "0 < a" "offsets_polled mx p a = (batch, new)"
  shows "p \<le> new" "set batch \<subseteq> {p..<new}"
  using assms offsets_polled_fits [of a mx p] offsets_polled_full [of mx a p]
  by (cases "a \<le> mx"; auto)+

definition consumer_ok :: "consumer_state \<Rightarrow> bool" where
  "consumer_ok s \<longleftrightarrow> cs_committed s \<le> cs_position s \<and> {..<cs_position s} \<subseteq> cs_handled s"

lemma consumer_ok_step:
  assumes "consumer_step mx cap s s'" "cap \<le> mx" "consumer_ok s"
  shows "consumer_ok s'"
  using assms
proof (cases rule: consumer_step.cases)
  case (turn a batch new)
  with assms(2) offsets_polled_fits [of a mx "cs_position s"] assms(3) show ?thesis
    by (auto simp: consumer_ok_def)
next
  case (commit_failed a batch new)
  with assms(2) offsets_polled_fits [of a mx "cs_position s"] assms(3) show ?thesis
    by (auto simp: consumer_ok_def)
next
  case (crash a batch new part)
  with assms(3) show ?thesis by (force simp: consumer_ok_def)
qed

lemma consumer_ok_reach:
  "consumer_reach mx cap s s' \<Longrightarrow> cap \<le> mx \<Longrightarrow> consumer_ok s \<Longrightarrow> consumer_ok s'"
  by (induction rule: consumer_reach.induct) (auto intro: consumer_ok_step)

text \<open>
  C30. Delivery is at least once as long as no poll window ever finds more messages than a batch
  holds: however turns, failed commits and crashes in the middle of a batch interleave, every message below the
  committed offset has been handed over, so a restart never skips one.
\<close>

theorem at_least_once:
  assumes "consumer_reach mx cap \<lparr>cs_position = p, cs_committed = p, cs_handled = {..<p}\<rparr> s" "cap \<le> mx"
  shows "\<forall>n < cs_committed s. n \<in> cs_handled s"
proof -
  have "consumer_ok \<lparr>cs_position = p, cs_committed = p, cs_handled = {..<p}\<rparr>"
    by (simp add: consumer_ok_def)
  from consumer_ok_reach [OF assms this] show ?thesis by (auto simp: consumer_ok_def)
qed

definition past :: "nat \<Rightarrow> consumer_state \<Rightarrow> bool" where
  "past n s \<longleftrightarrow> n < cs_committed s \<and> cs_committed s \<le> cs_position s \<and> n \<notin> cs_handled s"

lemma past_step: "consumer_step mx cap s s' \<Longrightarrow> past n s \<Longrightarrow> past n s'"
proof (erule consumer_step.cases, goal_cases)
  case (1 a s batch new)
  with offsets_polled_bounds [of a mx "cs_position s" batch new] show ?case by (auto simp: past_def)
next
  case (2 a s batch new)
  with offsets_polled_bounds [of a mx "cs_position s" batch new] show ?case by (auto simp: past_def)
next
  case (3 a s batch new part)
  with offsets_polled_bounds [of a mx "cs_position s" batch new] show ?case by (force simp: past_def)
qed

lemma past_reach: "consumer_reach mx cap s s' \<Longrightarrow> past n s \<Longrightarrow> past n s'"
  by (induction rule: consumer_reach.induct) (auto intro: past_step)

text \<open>
  C28. A backlog loses messages. When a poll window finds more messages than a batch holds, the loop
  of \<open>_drain_batch\<close> has already polled the next one when it stops, and drops it: the turn commits
  the offset behind that message without handing it over, and in no later state, whatever crashes and
  restarts follow, is it ever handed over.
\<close>

theorem full_batch_loses_one:
  assumes "mx < a" "a \<le> cap" "cs_committed s \<le> cs_position s" "cs_position s + mx \<notin> cs_handled s"
  shows "\<exists>s'. consumer_step mx cap s s' \<and> cs_committed s' = cs_position s + mx + 1
    \<and> cs_handled s' = cs_handled s \<union> {cs_position s..<cs_position s + mx}
    \<and> (\<forall>s''. consumer_reach mx cap s' s'' \<longrightarrow> cs_position s + mx \<notin> cs_handled s'')"
proof -
  let ?new = "Suc (cs_position s + mx)"
  let ?s = "s\<lparr>cs_position := ?new, cs_handled := cs_handled s \<union> set [cs_position s..<cs_position s + mx],
    cs_committed := ?new\<rparr>"
  have "consumer_step mx cap s ?s"
    by (rule consumer_step.turn [OF _ assms(2)]) (use assms(1) offsets_polled_full in auto)
  moreover have "past (cs_position s + mx) ?s" using assms(4) by (simp add: past_def)
  ultimately show ?thesis
    using past_reach [of mx cap ?s _ "cs_position s + mx"] by (intro exI [of _ ?s]) (auto simp: past_def)
qed

theorem at_least_once_witness:
  "4 \<in> cs_handled \<lparr>cs_position = 5, cs_committed = 5, cs_handled = {..<2} \<union> set [2..<5]\<rparr>"
proof -
  let ?s = "\<lparr>cs_position = 2, cs_committed = 2, cs_handled = {..<2}\<rparr>"
  have "consumer_step 3 3 ?s (?s\<lparr>cs_position := 5, cs_handled := cs_handled ?s \<union> set [2..<5], cs_committed := 5\<rparr>)"
    by (rule consumer_step.turn [where a = 3]) (simp_all add: offsets_polled_fits)
  then have "consumer_reach 3 3 ?s (?s\<lparr>cs_position := 5, cs_handled := cs_handled ?s \<union> set [2..<5], cs_committed := 5\<rparr>)"
    by (rule consumer_reach.next_step [OF consumer_reach.start])
  from at_least_once [where s = "\<lparr>cs_position = 5, cs_committed = 5, cs_handled = {..<2} \<union> set [2..<5]\<rparr>",
      of 3 3 2] this show ?thesis by simp
qed

theorem full_batch_loses_one_witness:
  "\<exists>s'. consumer_step 2 3 \<lparr>cs_position = 0, cs_committed = 0, cs_handled = {}\<rparr> s' \<and> cs_committed s' = 3
     \<and> cs_handled s' = {0, 1}"
  using full_batch_loses_one [of 2 3 3 "\<lparr>cs_position = 0, cs_committed = 0, cs_handled = {}\<rparr>"]
  by (auto simp: numeral_3_eq_3 numeral_2_eq_2 atLeast0_lessThan_Suc insert_commute)

section \<open>Messages that cannot be written\<close>

text \<open>The write a message leads to, if any, and what it does to the store.\<close>

definition message_write :: "worker \<Rightarrow> env \<Rightarrow> message \<Rightarrow> pg_write option" where
  "message_write wk env m =
     (case message_key m of
        Inl _ \<Rightarrow> None
      | Inr key \<Rightarrow>
          (case wk_decode wk (msg_value m) of
             Inl _ \<Rightarrow> None
           | Inr d \<Rightarrow> (case wk_handler wk env key d of Inr (Wrote w) \<Rightarrow> Some w | _ \<Rightarrow> None)))"

definition put_store :: "(string \<Rightarrow> row) \<Rightarrow> pg_write \<Rightarrow> store \<Rightarrow> store" where
  "put_store schema w st = st(w_table w := apply_write (schema (w_table w)) w (st (w_table w)))"

definition batch_writes ::
  "worker \<Rightarrow> (message \<Rightarrow> env) \<Rightarrow> (pg_write \<Rightarrow> bool) \<Rightarrow> message list \<Rightarrow> pg_write list" where
  "batch_writes wk envs accepts ms = filter accepts (List.map_filter (\<lambda>m. message_write wk (envs m) m) ms)"

text \<open>
  What \<open>_persist\<close> relies on: the decoder raises only DecodeError, the handler is not of mode custom
  and answers with well-formed writes.
\<close>

definition sound_worker :: "worker \<Rightarrow> bool" where
  "sound_worker wk \<longleftrightarrow> wk_mode wk \<noteq> ''custom''
     \<and> (\<forall>raw e. wk_decode wk raw = Inl e \<longrightarrow> e = DecodeError)
     \<and> (\<forall>env key d w. wk_handler wk env key d = Inr (Wrote w) \<longrightarrow> wf_write w)"

definition key_ok :: "message \<Rightarrow> bool" where
  "key_ok m \<longleftrightarrow> (case msg_key m of None \<Rightarrow> True | Some k \<Rightarrow> utf8_valid (map of_char k))"

lemma message_key_ok: "key_ok m \<longleftrightarrow> (\<exists>k. message_key m = Inr k)"
  by (auto simp: key_ok_def message_key_def split: option.split)

lemma message_key_bad: "\<not> key_ok m \<Longrightarrow> message_key m = Inl ValueError"
  by (auto simp: key_ok_def message_key_def split: option.splits if_splits)

lemma store_write_wf:
  "wf_write w \<Longrightarrow> store_write accepts schema w st
     = (if accepts w then Inr (write_count w (st (w_table w)), put_store schema w st) else Inl PostgresWriteError)"
  by (simp add: store_write_def run_write_refines put_store_def)

lemma persist_sound:
  assumes "sound_worker wk" "key_ok m"
  shows "\<exists>r. persist wk env accepts schema m st = Inr (r, fold (put_store schema) (batch_writes wk (\<lambda>_. env) accepts [m]) st)"
proof -
  from assms(2) obtain k where k: "message_key m = Inr k" by (auto simp: message_key_ok)
  show ?thesis
  proof (cases "wk_decode wk (msg_value m)")
    case (Inl e)
    with assms(1) k show ?thesis
      by (auto simp: persist_def sound_worker_def batch_writes_def message_write_def List.map_filter_def)
  next
    case (Inr d)
    have wf: "wk_handler wk env k d = Inr (Wrote w) \<Longrightarrow> wf_write w" for w
      using assms(1) by (auto simp: sound_worker_def)
    show ?thesis
    proof (cases "wk_handler wk env k d")
      case (Inl e)
      with Inr assms(1) k show ?thesis
        by (auto simp: persist_def sound_worker_def batch_writes_def message_write_def List.map_filter_def)
    next
      case ans: (Inr a)
      show ?thesis
      proof (cases a)
        case (Wrote w)
        with ans Inr assms(1) k wf [of w] show ?thesis
          by (simp add: persist_def sound_worker_def batch_writes_def message_write_def store_write_wf List.map_filter_def)
      qed (use ans Inr assms(1) k in
        \<open>auto simp: persist_def sound_worker_def batch_writes_def message_write_def List.map_filter_def\<close>)
    qed
  qed
qed

lemma batch_writes_Cons:
  "batch_writes wk envs accepts (m # ms) = batch_writes wk (\<lambda>_. envs m) accepts [m] @ batch_writes wk envs accepts ms"
  by (simp add: batch_writes_def List.map_filter_def)

lemma persist_all_sound:
  assumes "sound_worker wk" "\<forall>m \<in> set ms. key_ok m"
  shows "persist_all wk envs accepts schema ms st = (None, fold (put_store schema) (batch_writes wk envs accepts ms) st)"
  using assms(2)
proof (induction ms arbitrary: st)
  case (Cons m ms)
  from persist_sound [OF assms(1), of m "envs m" accepts schema st] Cons.prems obtain r where
    "persist wk (envs m) accepts schema m st
       = Inr (r, fold (put_store schema) (batch_writes wk (\<lambda>_. envs m) accepts [m]) st)" by auto
  with Cons show ?case by (simp add: batch_writes_Cons [of wk envs accepts m ms])
qed (simp add: batch_writes_def)

text \<open>What coalescing keeps of a batch: every key, and of each key the last message.\<close>

fun last_with :: "string option \<Rightarrow> message list \<Rightarrow> message option" where
  "last_with k [] = None"
| "last_with k (m # ms) =
     (case last_with k ms of Some x \<Rightarrow> Some x | None \<Rightarrow> if msg_key m = k then Some m else None)"

lemma last_with_last: "last_with k ms = (if filter (\<lambda>m. msg_key m = k) ms = [] then None
    else Some (last (filter (\<lambda>m. msg_key m = k) ms)))"
  by (induction ms) auto

lemma by_key_lookup:
  "map_of (foldl (\<lambda>by_key m. dset by_key (msg_key m) m) d ms) k
     = (case last_with k ms of Some m \<Rightarrow> Some m | None \<Rightarrow> map_of d k)"
  by (induction ms arbitrary: d) (auto simp: map_of_dset split: option.split)

lemma by_key_distinct:
  "distinct (map fst d) \<Longrightarrow> distinct (map fst (foldl (\<lambda>by_key m. dset by_key (msg_key m) m) d ms))"
  by (induction ms arbitrary: d) (auto simp: distinct_dset)

lemma last_with_SomeD: "last_with k ms = Some m \<Longrightarrow> m \<in> set ms \<and> msg_key m = k"
  by (induction ms) (auto split: option.splits if_splits)

lemma last_with_NoneD: "last_with k ms = None \<Longrightarrow> m \<in> set ms \<Longrightarrow> msg_key m \<noteq> k"
  by (induction ms) (auto split: option.splits if_splits)

lemma last_with_exists:
  assumes "k \<in> msg_key ` set ms"
  obtains x where "last_with k ms = Some x"
  using assms by (cases "last_with k ms") (auto dest: last_with_NoneD)

lemma coalesced_keys:
  "d = foldl (\<lambda>by_key m. dset by_key (msg_key m) m) [] ms \<Longrightarrow> (k, m) \<in> set d \<longleftrightarrow> last_with k ms = Some m"
  using by_key_lookup [of "[]" ms k] map_of_eq_Some_iff [OF by_key_distinct [of "[]" ms], of k m]
  by (simp split: option.splits)

lemma coalesced_mem:
  "m \<in> set (coalesce_batch ''upsert'' ms) \<longleftrightarrow> last_with (msg_key m) ms = Some m"
proof
  assume "m \<in> set (coalesce_batch ''upsert'' ms)"
  then obtain k where "last_with k ms = Some m"
    by (force simp: coalesce_batch_def coalesced_keys [OF refl])
  with last_with_SomeD [OF this] show "last_with (msg_key m) ms = Some m" by simp
next
  assume "last_with (msg_key m) ms = Some m"
  then have "(msg_key m, m) \<in> set (foldl (\<lambda>by_key m. dset by_key (msg_key m) m) [] ms)"
    by (rule iffD2 [OF coalesced_keys [OF refl]])
  then show "m \<in> set (coalesce_batch ''upsert'' ms)" by (force simp: coalesce_batch_def)
qed

lemma coalesced_subset: "set (coalesce_batch mode ms) \<subseteq> set ms"
proof (cases "mode = ''upsert''")
  case True
  show ?thesis
  proof
    fix m assume "m \<in> set (coalesce_batch mode ms)"
    with True have "last_with (msg_key m) ms = Some m" by (simp add: coalesced_mem)
    from last_with_SomeD [OF this] show "m \<in> set ms" ..
  qed
qed (simp add: coalesce_batch_def)

lemma coalesced_map_key:
  "map msg_key (coalesce_batch ''upsert'' ms) = map fst (foldl (\<lambda>by_key m. dset by_key (msg_key m) m) [] ms)"
  using coalesced_keys [OF refl, of _ _ ms] by (auto simp: coalesce_batch_def dest: last_with_SomeD)

text \<open>
  Coalescing an upsert batch keeps one message per key, namely the last one of the batch with
  that key; a batch of any other mode is kept as it is.
\<close>

lemma coalesce_keeps_last:
  "distinct (map msg_key (coalesce_batch ''upsert'' ms))
   \<and> msg_key ` set (coalesce_batch ''upsert'' ms) = msg_key ` set ms
   \<and> (m \<in> set (coalesce_batch ''upsert'' ms)
        \<longleftrightarrow> (\<exists>pre post. ms = pre @ m # post \<and> msg_key m \<notin> msg_key ` set post))
   \<and> (mode = ''upsert'' \<or> coalesce_batch mode ms = ms)"
proof -
  have "last_with k ms = Some m \<longleftrightarrow> msg_key m = k \<and> (\<exists>pre post. ms = pre @ m # post \<and> k \<notin> msg_key ` set post)" for k
  proof (induction ms)
    case (Cons x xs)
    show ?case
    proof (cases "last_with k xs")
      case None
      then have "k \<notin> msg_key ` set xs" by (auto dest: last_with_NoneD)
      with None show ?thesis by (auto simp: Cons_eq_append_conv image_iff)
    next
      case (Some y)
      then have "k \<in> msg_key ` set xs" by (auto dest: last_with_SomeD)
      with Some Cons.IH show ?thesis by (auto simp: Cons_eq_append_conv)
    qed
  qed simp
  moreover have "msg_key ` set (coalesce_batch ''upsert'' ms) = msg_key ` set ms"
  proof (intro equalityI subsetI)
    fix k assume "k \<in> msg_key ` set (coalesce_batch ''upsert'' ms)"
    then obtain x where "k = msg_key x" "last_with (msg_key x) ms = Some x" by (auto simp: coalesced_mem)
    with last_with_SomeD [OF this(2)] show "k \<in> msg_key ` set ms" by blast
  next
    fix k assume "k \<in> msg_key ` set ms"
    then obtain x where "last_with k ms = Some x" by (rule last_with_exists)
    moreover from this have "msg_key x = k" by (auto dest: last_with_SomeD)
    ultimately show "k \<in> msg_key ` set (coalesce_batch ''upsert'' ms)" by (force simp: coalesced_mem)
  qed
  moreover have "mode = ''upsert'' \<or> coalesce_batch mode ms = ms" by (auto simp: coalesce_batch_def)
  ultimately show ?thesis by (simp add: coalesced_mem coalesced_map_key by_key_distinct)
qed

section \<open>Isolation of bad messages\<close>

text \<open>A message goes through when it decodes, its handler answers with a write, and the server accepts that.\<close>

definition goes_through :: "worker \<Rightarrow> (message \<Rightarrow> env) \<Rightarrow> (pg_write \<Rightarrow> bool) \<Rightarrow> message \<Rightarrow> bool" where
  "goes_through wk envs accepts m \<longleftrightarrow> (case message_write wk (envs m) m of Some w \<Rightarrow> accepts w | None \<Rightarrow> False)"

lemma batch_writes_through:
  "batch_writes wk envs accepts (filter P ms) = batch_writes wk envs accepts (filter (\<lambda>m. P m \<and> goes_through wk envs accepts m) ms)"
  by (induction ms) (auto simp: batch_writes_def List.map_filter_def goes_through_def split: option.splits)

lemma filter_dset: "filter (\<lambda>kv. P (fst kv)) (dset d k v)
    = (if P k then dset (filter (\<lambda>kv. P (fst kv)) d) k v else filter (\<lambda>kv. P (fst kv)) d)"
  by (induction d k v rule: dset.induct) auto

text \<open>Coalescing the messages of some of the keys keeps the places of the others out, and nothing else.\<close>

lemma coalesce_filter:
  "coalesce_batch mode (filter (\<lambda>m. P (msg_key m)) ms) = filter (\<lambda>m. P (msg_key m)) (coalesce_batch mode ms)"
proof (cases "mode = ''upsert''")
  case True
  let ?f = "\<lambda>by_key m. dset by_key (msg_key m) m"
  have fold: "foldl ?f (filter (\<lambda>kv. P (fst kv)) d) (filter (\<lambda>m. P (msg_key m)) ms) = filter (\<lambda>kv. P (fst kv)) (foldl ?f d ms)" for d
  proof (induction ms arbitrary: d)
    case (Cons m ms)
    from Cons [of "dset d (msg_key m) m"] show ?case by (cases "P (msg_key m)") (simp_all add: filter_dset)
  qed simp
  have own: "fst kv = msg_key (snd kv)" if "kv \<in> set (foldl ?f [] ms)" for kv
    using that coalesced_keys [OF refl, of "fst kv" "snd kv" ms] last_with_SomeD by fastforce
  have "map snd (filter (\<lambda>kv. P (fst kv)) (foldl ?f [] ms)) = map snd (filter (\<lambda>kv. P (msg_key (snd kv))) (foldl ?f [] ms))"
    by (intro arg_cong [where f = "map snd"] filter_cong [OF refl]) (simp add: own)
  with True fold [of "[]"] show ?thesis by (simp add: coalesce_batch_def filter_map comp_def)
qed (simp add: coalesce_batch_def)

lemma turn_writes:
  assumes "sound_worker wk" "\<forall>m \<in> set batch. msg_error m = None \<longrightarrow> key_ok m"
  shows "run_turn wk envs accepts schema batch st
    = ((None, \<exists>m \<in> set batch. msg_error m = None),
       fold (put_store schema) (batch_writes wk envs accepts
         (coalesce_batch (wk_mode wk) (filter (\<lambda>m. msg_error m = None) batch))) st)"
proof -
  let ?real = "filter (\<lambda>m. msg_error m = None) batch"
  from coalesced_subset [of "wk_mode wk" ?real] assms(2) have "\<forall>m \<in> set (coalesce_batch (wk_mode wk) ?real). key_ok m" by auto
  from persist_all_sound [OF assms(1) this, of envs accepts schema st]
  have p: "persist_all wk envs accepts schema (coalesce_batch (wk_mode wk) ?real) st
    = (None, fold (put_store schema) (batch_writes wk envs accepts (coalesce_batch (wk_mode wk) ?real)) st)" .
  show ?thesis
  proof (cases "?real = []")
    case True
    then have "\<not> (\<exists>m \<in> set batch. msg_error m = None)" by (simp add: filter_empty_conv)
    with True show ?thesis by (simp add: run_turn_def coalesce_batch_def batch_writes_def)
  next
    case False
    then have "\<exists>m \<in> set batch. msg_error m = None" by (auto simp: filter_empty_conv)
    with False show ?thesis by (simp add: run_turn_def p)
  qed
qed

lemma isolated_writes:
  assumes "mode = ''upsert'' \<longrightarrow> (\<forall>m \<in> set ms. \<forall>n \<in> set ms. msg_key m = msg_key n \<longrightarrow>
      goes_through wk envs accepts m = goes_through wk envs accepts n)"
  shows "batch_writes wk envs accepts (coalesce_batch mode ms)
    = batch_writes wk envs accepts (coalesce_batch mode (filter (goes_through wk envs accepts) ms))"
proof (cases "mode = ''upsert''")
  case True
  let ?P = "\<lambda>k. \<exists>m \<in> set ms. msg_key m = k \<and> goes_through wk envs accepts m"
  have P: "m \<in> set ms \<Longrightarrow> ?P (msg_key m) = goes_through wk envs accepts m" for m
    using assms True by blast
  have "filter (goes_through wk envs accepts) ms = filter (\<lambda>m. ?P (msg_key m)) ms"
    by (rule filter_cong [OF refl]) (simp only: P)
  moreover have "filter (\<lambda>m. ?P (msg_key m)) (coalesce_batch mode ms) = filter (goes_through wk envs accepts) (coalesce_batch mode ms)"
    by (rule filter_cong [OF refl]) (use P coalesced_subset [of mode ms] in blast)
  ultimately show ?thesis
    using batch_writes_through [of wk envs accepts "\<lambda>_. True" "coalesce_batch mode ms"] coalesce_filter [of mode ?P ms] by simp
next
  case False
  with batch_writes_through [of wk envs accepts "\<lambda>_. True" ms] show ?thesis by (simp add: coalesce_batch_def)
qed

lemma hidden_writes:
  assumes "ms = pre @ m # post" "msg_key m \<notin> msg_key ` set post" "\<not> goes_through wk envs accepts m"
  shows "batch_writes wk envs accepts (coalesce_batch ''upsert'' ms)
    = batch_writes wk envs accepts (coalesce_batch ''upsert'' (filter (\<lambda>n. msg_key n \<noteq> msg_key m) ms))"
proof -
  let ?cs = "coalesce_batch ''upsert'' ms"
  note keeps = coalesce_keeps_last [where mode = "''upsert''" and ms = ms]
  have "m \<in> set ?cs" using keeps assms(1,2) by blast
  moreover have "distinct (map msg_key ?cs)" using keeps by blast
  ultimately have "n = m" if "n \<in> set ?cs" "msg_key n = msg_key m" for n
    using that by (simp add: distinct_map inj_on_def)
  then have "filter (goes_through wk envs accepts) ?cs
      = filter (\<lambda>n. msg_key n \<noteq> msg_key m \<and> goes_through wk envs accepts n) ?cs"
    using assms(3) by (intro filter_cong [OF refl]) blast
  then show ?thesis
    using batch_writes_through [of wk envs accepts "\<lambda>_. True" ?cs]
      batch_writes_through [of wk envs accepts "\<lambda>n. msg_key n \<noteq> msg_key m" ?cs]
      coalesce_filter [of "''upsert''" "\<lambda>k. k \<noteq> msg_key m" ms] by simp
qed

text \<open>
  C35. One message cannot stop a batch, and what it can hide. If every real message has a readable key, a turn ends
  without an exception and commits whenever the batch held a real message, and its effect is that
  of the writes of the coalesced batch that the store accepts, in order. A message that does not go through (it does not decode,
  the handler refuses it or raises on it, or the server refuses its row) is as if absent where batches are not coalesced, and
  in a topic of mode upsert where it shares its Kafka key with no message of the batch that does. But there a
  message that does not go through and is the newest of its key hides the others of that key:
  the turn writes none of them.
\<close>

theorem bad_messages_isolated:
  assumes "sound_worker wk" "\<forall>m \<in> set batch. msg_error m = None \<longrightarrow> key_ok m"
    and "real_msgs = filter (\<lambda>m. msg_error m = None) batch"
  shows "run_turn wk envs accepts schema batch st
      = ((None, real_msgs \<noteq> []),
         fold (put_store schema) (batch_writes wk envs accepts (coalesce_batch (wk_mode wk) real_msgs)) st)
    \<and> ((wk_mode wk = ''upsert'' \<longrightarrow> (\<forall>m \<in> set real_msgs. \<forall>n \<in> set real_msgs. msg_key m = msg_key n \<longrightarrow>
          goes_through wk envs accepts m = goes_through wk envs accepts n)) \<longrightarrow>
        snd (run_turn wk envs accepts schema batch st)
          = snd (run_turn wk envs accepts schema (filter (goes_through wk envs accepts) real_msgs) st))
    \<and> (\<forall>pre m post. wk_mode wk = ''upsert'' \<and> real_msgs = pre @ m # post \<and> msg_key m \<notin> msg_key ` set post
          \<and> \<not> goes_through wk envs accepts m \<longrightarrow>
        snd (run_turn wk envs accepts schema batch st)
          = snd (run_turn wk envs accepts schema (filter (\<lambda>n. msg_key n \<noteq> msg_key m) real_msgs) st))"
proof -
  have one: "run_turn wk envs accepts schema batch st = ((None, real_msgs \<noteq> []),
      fold (put_store schema) (batch_writes wk envs accepts (coalesce_batch (wk_mode wk) real_msgs)) st)"
    using turn_writes [OF assms(1,2)] assms(3) by (simp add: filter_empty_conv)
  have part: "snd (run_turn wk envs accepts schema (filter P real_msgs) st)
      = fold (put_store schema) (batch_writes wk envs accepts (coalesce_batch (wk_mode wk) (filter P real_msgs))) st" for P
  proof -
    have "\<forall>m \<in> set (filter P real_msgs). msg_error m = None \<longrightarrow> key_ok m" using assms(2,3) by simp
    moreover have "filter (\<lambda>m. msg_error m = None) (filter P real_msgs) = filter P real_msgs"
      by (rule filter_True) (simp add: assms(3))
    ultimately show ?thesis using turn_writes [OF assms(1)] by simp
  qed
  have iso: "snd (run_turn wk envs accepts schema batch st)
      = snd (run_turn wk envs accepts schema (filter (goes_through wk envs accepts) real_msgs) st)"
    if "wk_mode wk = ''upsert'' \<longrightarrow> (\<forall>m \<in> set real_msgs. \<forall>n \<in> set real_msgs. msg_key m = msg_key n \<longrightarrow>
          goes_through wk envs accepts m = goes_through wk envs accepts n)"
    using isolated_writes [OF that] by (simp only: one part snd_conv)
  have "snd (run_turn wk envs accepts schema batch st)
      = snd (run_turn wk envs accepts schema (filter (\<lambda>n. msg_key n \<noteq> msg_key m) real_msgs) st)"
    if "wk_mode wk = ''upsert''" "real_msgs = pre @ m # post" "msg_key m \<notin> msg_key ` set post"
      "\<not> goes_through wk envs accepts m" for pre m post
    using hidden_writes [OF that(2-4)] by (simp only: one part snd_conv that(1))
  with one iso show ?thesis by blast
qed

lemma persist_all_poison:
  assumes "sound_worker wk" "m \<in> set ms" "\<not> key_ok m"
  shows "fst (persist_all wk envs accepts schema ms st) = Some ValueError"
  using assms(2)
proof (induction ms arbitrary: st)
  case (Cons x xs)
  show ?case
  proof (cases "key_ok x")
    case True
    with Cons.prems assms(3) have "m \<in> set xs" by auto
    with Cons.IH persist_sound [OF assms(1) True, of "envs x" accepts schema st] show ?thesis by auto
  qed (simp add: message_key_bad persist_def)
qed simp

text \<open>
  C36. A key that is no text stops the topic. A real message whose key is not UTF-8 ends the
  consumer's task with an exception and without a commit, in every turn that polls it; as the
  restart resumes at the committed offset, it is polled again.
\<close>

theorem poison_key_stops_topic:
  assumes "sound_worker wk" "m \<in> set batch" "msg_error m = None" "\<not> key_ok m"
  shows "fst (run_turn wk envs accepts schema batch st) = (Some ValueError, False)"
proof -
  let ?real = "filter (\<lambda>m. msg_error m = None) batch"
  have real: "m \<in> set ?real" using assms(2,3) by simp
  have "\<exists>x \<in> set (coalesce_batch (wk_mode wk) ?real). msg_key x = msg_key m"
  proof (cases "wk_mode wk = ''upsert''")
    case True
    have "msg_key m \<in> msg_key ` set ?real" using real by simp
    then obtain x where x: "last_with (msg_key m) ?real = Some x" by (rule last_with_exists)
    then have "msg_key x = msg_key m" by (auto dest: last_with_SomeD)
    with x True show ?thesis by (auto simp: coalesced_mem intro!: bexI [of _ x])
  qed (use real in \<open>auto simp: coalesce_batch_def\<close>)
  then obtain x where x: "x \<in> set (coalesce_batch (wk_mode wk) ?real)" "\<not> key_ok x"
    using assms(4) by (auto simp: key_ok_def)
  have ne: "?real \<noteq> []" using real by (metis empty_iff empty_set)
  from persist_all_poison [OF assms(1) x, of envs accepts schema st] ne show ?thesis
    by (cases "persist_all wk envs accepts schema (coalesce_batch (wk_mode wk) ?real) st")
      (auto simp: run_turn_def Let_def)
qed

section \<open>Coalescing and redelivery\<close>

text \<open>
  Batches of one table: every message is written, by a well-formed upsert of the table with key
  columns \<open>ks\<close>, and of two writes of one row each names the columns of the other.
\<close>

definition table_batch ::
  "worker \<Rightarrow> (message \<Rightarrow> env) \<Rightarrow> (pg_write \<Rightarrow> bool) \<Rightarrow> (string \<Rightarrow> row) \<Rightarrow> string \<Rightarrow> string list
     \<Rightarrow> (message \<Rightarrow> pg_write) \<Rightarrow> message list \<Rightarrow> bool" where
  "table_batch wk envs accepts schema tbl ks wr ms \<longleftrightarrow>
     list_all (\<lambda>m. message_write wk (envs m) m = Some (wr m) \<and> accepts (wr m) \<and> w_table (wr m) = tbl
        \<and> ok_write (schema tbl) ks (wr m)) ms
     \<and> list_all (\<lambda>m. list_all (\<lambda>n. write_key (wr m) = write_key (wr n) \<longrightarrow> covers_write (wr m) (wr n)) ms) ms"

lemma table_batch_subset:
  "table_batch wk envs accepts schema tbl ks wr ms \<Longrightarrow> set ns \<subseteq> set ms
     \<Longrightarrow> table_batch wk envs accepts schema tbl ks wr ns"
  unfolding table_batch_def list_all_iff by blast

lemma table_batch_key_ok:
  "table_batch wk envs accepts schema tbl ks wr ms \<Longrightarrow> \<forall>m \<in> set ms. key_ok m"
  unfolding table_batch_def list_all_iff message_key_ok message_write_def
  by (metis obj_sumE option.distinct(1) sum.case(1))

lemma table_batch_writes:
  "table_batch wk envs accepts schema tbl ks wr ms \<Longrightarrow> batch_writes wk envs accepts ms = map wr ms"
  by (induction ms) (simp_all add: table_batch_def batch_writes_def List.map_filter_def list_all_iff)

lemma fold_put_store:
  "list_all (\<lambda>w. w_table w = tbl) ws \<Longrightarrow>
     fold (put_store schema) ws st = st(tbl := fold (apply_write (schema tbl)) ws (st tbl))"
  by (induction ws arbitrary: st) (auto simp: put_store_def)

lemma persist_table_batch:
  assumes "sound_worker wk" "table_batch wk envs accepts schema tbl ks wr ms"
  obtains st' where "persist_all wk envs accepts schema ms st = (None, st')"
    "\<And>kv. lookup_row ks (st' tbl) kv
       = fold (merge_row (schema tbl)) (map wr (filter (\<lambda>m. write_key (wr m) = kv) ms)) (lookup_row ks (st tbl) kv)"
    "\<And>t. t \<noteq> tbl \<Longrightarrow> st' t = st t"
proof
  have tbl: "list_all (\<lambda>w. w_table w = tbl) (map wr ms)" and ok: "\<forall>w \<in> set (map wr ms). ok_write (schema tbl) ks w"
    using assms(2) by (auto simp: table_batch_def list_all_iff)
  let ?st = "st(tbl := fold (apply_write (schema tbl)) (map wr ms) (st tbl))"
  show "persist_all wk envs accepts schema ms st = (None, ?st)"
    using persist_all_sound [OF assms(1) table_batch_key_ok [OF assms(2)]]
    by (simp add: table_batch_writes [OF assms(2)] fold_put_store [OF tbl])
  show "lookup_row ks (?st tbl) kv
       = fold (merge_row (schema tbl)) (map wr (filter (\<lambda>m. write_key (wr m) = kv) ms)) (lookup_row ks (st tbl) kv)" for kv
    using pg.lookup_fold [OF ok, of "st tbl" kv] by (simp add: filter_map comp_def)
  show "t \<noteq> tbl \<Longrightarrow> ?st t = st t" for t by simp
qed

lemma filter_of_distinct:
  "distinct (map f xs) \<Longrightarrow> x \<in> set xs \<Longrightarrow> filter (\<lambda>y. f y = f x) xs = [x]"
proof (induction xs)
  case (Cons y ys)
  have "f x \<notin> f ` set ys \<Longrightarrow> filter (\<lambda>y. f y = f x) ys = []" by (auto simp: filter_empty_conv image_iff)
  with Cons show ?case by (auto simp: image_iff)
qed simp

text \<open>The rows of one key, with and without coalescing.\<close>

lemma coalesced_rows:
  assumes b: "table_batch wk envs accepts schema tbl ks wr ms"
    and same: "list_all (\<lambda>m. list_all (\<lambda>n. write_key (wr m) = write_key (wr n) \<longleftrightarrow> msg_key m = msg_key n) ms) ms"
  shows "fold (merge_row (schema tbl)) (map wr (filter (\<lambda>m. write_key (wr m) = kv) (coalesce_batch ''upsert'' ms))) x
    = fold (merge_row (schema tbl)) (map wr (filter (\<lambda>m. write_key (wr m) = kv) ms)) x"
proof (cases "filter (\<lambda>m. write_key (wr m) = kv) ms = []")
  case True
  then have "filter (\<lambda>m. write_key (wr m) = kv) (coalesce_batch ''upsert'' ms) = []"
    using coalesced_subset [of "''upsert''" ms] by (auto simp: filter_empty_conv)
  with True show ?thesis by simp
next
  case False
  let ?fs = "filter (\<lambda>m. write_key (wr m) = kv) ms" and ?l = "last (filter (\<lambda>m. write_key (wr m) = kv) ms)"
  have l: "?l \<in> set ms" "write_key (wr ?l) = kv" using last_in_set [OF False] by auto
  have eq: "m \<in> set ms \<Longrightarrow> write_key (wr m) = kv \<longleftrightarrow> msg_key m = msg_key ?l" for m
    using bspec [OF bspec [OF same [unfolded list_all_iff]] l(1), of m] unfolding l(2) .
  have fs: "?fs = filter (\<lambda>m. msg_key m = msg_key ?l) ms" by (rule filter_cong [OF refl], rule eq)
  note sub = coalesced_subset [of "''upsert''" ms]
  have "last_with (msg_key ?l) ms = Some ?l"
    using False unfolding last_with_last [of "msg_key ?l" ms] fs [symmetric] by simp
  then have "?l \<in> set (coalesce_batch ''upsert'' ms)" by (simp add: coalesced_mem)
  moreover have "distinct (map msg_key (coalesce_batch ''upsert'' ms))"
    by (simp add: coalesced_map_key by_key_distinct)
  ultimately have "filter (\<lambda>m. msg_key m = msg_key ?l) (coalesce_batch ''upsert'' ms) = [?l]"
    by (rule filter_of_distinct [rotated])
  moreover have "filter (\<lambda>m. write_key (wr m) = kv) (coalesce_batch ''upsert'' ms)
      = filter (\<lambda>m. msg_key m = msg_key ?l) (coalesce_batch ''upsert'' ms)"
    by (rule filter_cong [OF refl], rule eq) (use sub in blast)
  ultimately have c: "filter (\<lambda>m. write_key (wr m) = kv) (coalesce_batch ''upsert'' ms) = [?l]" by simp
  have "fold (merge_row (schema tbl)) (map wr ?fs) x = merge_row (schema tbl) (last (map wr ?fs)) x"
  proof (rule pgo.merge_last [where k = kv])
    show "\<forall>w \<in> set (map wr ?fs). ok_write (schema tbl) ks w \<and> write_key w = kv \<and> covers_write (last (map wr ?fs)) w"
      using b l unfolding table_batch_def list_all_iff by (auto simp: last_map [OF False])
  qed (use False in simp)
  then show ?thesis by (simp add: c last_map [OF False])
qed

text \<open>
  Coalescing is invisible when it should be. For a topic whose Kafka key names the row (two
  messages have the same key exactly when their writes do) and whose writes of one row name the same
  columns, persisting only the last message per key leaves every row of every table as persisting
  the whole batch would.
\<close>

lemma coalescing_safe:
  assumes "sound_worker wk" "table_batch wk envs accepts schema tbl ks wr ms"
    and "list_all (\<lambda>m. list_all (\<lambda>n. write_key (wr m) = write_key (wr n) \<longleftrightarrow> msg_key m = msg_key n) ms) ms"
  shows "\<exists>st1 st2. persist_all wk envs accepts schema (coalesce_batch ''upsert'' ms) st = (None, st1)
    \<and> persist_all wk envs accepts schema ms st = (None, st2)
    \<and> (\<forall>kv. lookup_row ks (st1 tbl) kv = lookup_row ks (st2 tbl) kv) \<and> (\<forall>t. t \<noteq> tbl \<longrightarrow> st1 t = st2 t)"
proof -
  note sub = coalesced_subset [of "''upsert''" ms]
  obtain st1 where "persist_all wk envs accepts schema (coalesce_batch ''upsert'' ms) st = (None, st1)"
      "\<And>kv. lookup_row ks (st1 tbl) kv = fold (merge_row (schema tbl))
         (map wr (filter (\<lambda>m. write_key (wr m) = kv) (coalesce_batch ''upsert'' ms))) (lookup_row ks (st tbl) kv)"
      "\<And>t. t \<noteq> tbl \<Longrightarrow> st1 t = st t"
    using persist_table_batch [OF assms(1) table_batch_subset [OF assms(2) sub]] by blast
  moreover obtain st2 where "persist_all wk envs accepts schema ms st = (None, st2)"
      "\<And>kv. lookup_row ks (st2 tbl) kv = fold (merge_row (schema tbl))
         (map wr (filter (\<lambda>m. write_key (wr m) = kv) ms)) (lookup_row ks (st tbl) kv)"
      "\<And>t. t \<noteq> tbl \<Longrightarrow> st2 t = st t"
    using persist_table_batch [OF assms(1,2)] by blast
  ultimately show ?thesis by (simp add: coalesced_rows [OF assms(2,3)])
qed

text \<open>
  Redelivery is harmless. When a crash has written any of the messages of a batch, in any order
  and any number of times, persisting the batch again leaves every row as if it had been persisted
  once.
\<close>

lemma redelivery_idempotent:
  assumes "sound_worker wk" "table_batch wk envs accepts schema tbl ks wr ms" "set part \<subseteq> set ms"
  shows "\<exists>st1 st2 st3. persist_all wk envs accepts schema part st = (None, st1)
    \<and> persist_all wk envs accepts schema ms st1 = (None, st2)
    \<and> persist_all wk envs accepts schema ms st = (None, st3)
    \<and> (\<forall>kv. lookup_row ks (st2 tbl) kv = lookup_row ks (st3 tbl) kv) \<and> (\<forall>t. t \<noteq> tbl \<longrightarrow> st2 t = st3 t)"
proof -
  obtain st1 where 1: "persist_all wk envs accepts schema part st = (None, st1)"
      "\<And>kv. lookup_row ks (st1 tbl) kv = fold (merge_row (schema tbl))
         (map wr (filter (\<lambda>m. write_key (wr m) = kv) part)) (lookup_row ks (st tbl) kv)"
      "\<And>t. t \<noteq> tbl \<Longrightarrow> st1 t = st t"
    using persist_table_batch [OF assms(1) table_batch_subset [OF assms(2,3)]] by blast
  obtain st2 where 2: "persist_all wk envs accepts schema ms st1 = (None, st2)"
      "\<And>kv. lookup_row ks (st2 tbl) kv = fold (merge_row (schema tbl))
         (map wr (filter (\<lambda>m. write_key (wr m) = kv) ms)) (lookup_row ks (st1 tbl) kv)"
      "\<And>t. t \<noteq> tbl \<Longrightarrow> st2 t = st1 t"
    using persist_table_batch [OF assms(1,2)] by blast
  obtain st3 where 3: "persist_all wk envs accepts schema ms st = (None, st3)"
      "\<And>kv. lookup_row ks (st3 tbl) kv = fold (merge_row (schema tbl))
         (map wr (filter (\<lambda>m. write_key (wr m) = kv) ms)) (lookup_row ks (st tbl) kv)"
      "\<And>t. t \<noteq> tbl \<Longrightarrow> st3 t = st t"
    using persist_table_batch [OF assms(1,2)] by blast
  have "lookup_row ks (st2 tbl) kv = lookup_row ks (st3 tbl) kv" for kv
  proof -
    let ?f = "\<lambda>xs. map wr (filter (\<lambda>m. write_key (wr m) = kv) xs)"
    show ?thesis
    proof (cases "?f ms = []")
      case True
      with assms(3) have "?f part = []" by (auto simp: filter_empty_conv)
      with True show ?thesis by (simp add: 1 2 3)
    next
      case False
      let ?l = "last (filter (\<lambda>m. write_key (wr m) = kv) ms)"
      have ne: "filter (\<lambda>m. write_key (wr m) = kv) ms \<noteq> []" using False by simp
      have l: "?l \<in> set ms" "write_key (wr ?l) = kv" using last_in_set [OF ne] by auto
      have cov: "\<forall>w \<in> set (?f ms). ok_write (schema tbl) ks w \<and> write_key w = kv \<and> covers_write (last (?f ms)) w"
        using assms(2) l unfolding table_batch_def list_all_iff by (auto simp: last_map [OF ne])
      have "set (?f part) \<subseteq> set (?f ms)" using assms(3) by auto
      from pgo.merge_replay [OF False this cov] show ?thesis by (simp add: 1 2 3)
    qed
  qed
  with 1 2 3 show ?thesis by auto
qed

end
