(* ===== verification/Element_Handler.thy ===== *)
theory Element_Handler
  imports Element_Delivery Delivery
begin

text \<open>
  \<open>handlers/asset_element_telemetry.py\<close>, the handler: the last-written state it keeps per asset, the
  label record it stamps, and the one transaction it writes; with \<open>fetch_element_state\<close>,
  \<open>fetch_asset_labels\<close>, \<open>build_element_restamp_sql\<close> and \<open>write_element_state\<close> of
  \<open>persistence/postgres.py\<close>.

  The world of the handler is its module state (the assets held, the layers logged, the counters and
  log lines in order) and the store: \<open>asset_element_state\<close> as a table keyed by asset and path, the
  other tables as everywhere. A call brings the clock readings the code takes, in their order, and how its
  three database calls end; a transaction may commit, commit without the acknowledgement
  arriving (\<open>LostAfter\<close>), be lost before it commits, or be rejected.
\<close>

section \<open>State\<close>

type_synonym element_sig = "string \<times> string \<times> py \<times> py"

record asset_state =
  st_elements :: "(string \<times> element_row) list"
  st_asset_sig :: "element_sig option"
  st_asset_written_at :: rat
  st_stamped_labels :: "dict option"

record element_cell =
  ce_row :: element_row
  ce_nation :: py
  ce_releasable :: py
  ce_provenance :: dict
  ce_updated_at :: int

datatype element_effect =
    Undeclared string nat
  | UndeclaredLogged string
  | WriteRefused string
  | Restamped
  | Emitted "bool \<times> bool"
  | Evicted nat

record element_world =
  ew_assets :: "(string \<times> asset_state) list"
  ew_logged :: "string list"
  ew_notes :: "element_effect list"
  ew_cells :: "((string \<times> string) \<times> element_cell) list"
  ew_tables :: store

record element_call =
  ca_env :: env
  ca_schema :: "string \<Rightarrow> row"
  ca_now_observed :: int
  ca_now_row :: int
  ca_now_stamp :: int
  ca_clock :: rat
  ca_fetch_elements :: "exc option"
  ca_fetch_labels :: "exc option"
  ca_tx :: attempt

datatype element_answer = ElSkip | ElUnchanged | ElRefused | ElWritten

definition note_element :: "element_effect list \<Rightarrow> element_world \<Rightarrow> element_world" where
  "note_element ns w = w\<lparr>ew_notes := ew_notes w @ ns\<rparr>"

definition set_asset :: "string \<Rightarrow> asset_state \<Rightarrow> element_world \<Rightarrow> element_world" where
  "set_asset a st w = w\<lparr>ew_assets := dset (ew_assets w) a st\<rparr>"

section \<open>The pool's operations\<close>

definition fetch_element_state :: "string \<Rightarrow> element_world \<Rightarrow> (string \<times> element_row) list" where
  "fetch_element_state a w = map (\<lambda>kc. (snd (fst kc), ce_row (snd kc))) (filter (\<lambda>kc. fst (fst kc) = a) (ew_cells w))"

definition fetch_asset_labels :: "string \<Rightarrow> store \<Rightarrow> dict option res" where
  "fetch_asset_labels a tables =
     (case lookup_row [''asset_id''] (tables ''telemetry_latest_state'') [PStr a] of
        None \<Rightarrow> Inr None
      | Some r \<Rightarrow> rbind (releasability_from (PDict [(''originator_nation'', r ''originator_nation''),
                                                 (''releasable_to'', r ''releasable_to'')])) (\<lambda>d. Inr (Some d)))"

definition relabel :: "dict \<Rightarrow> element_cell \<Rightarrow> element_cell" where
  "relabel labels c = c\<lparr>ce_nation := dget labels ''originator_nation'', ce_releasable := dget labels ''releasable_to''\<rparr>"

text \<open>The UPDATE touches the cells whose labels differ; on the others it would change nothing.\<close>

definition restamp_cells ::
  "string \<Rightarrow> dict \<Rightarrow> ((string \<times> string) \<times> element_cell) list \<Rightarrow> ((string \<times> string) \<times> element_cell) list" where
  "restamp_cells a labels cells = map (\<lambda>kc. if fst (fst kc) = a then (fst kc, relabel labels (snd kc)) else kc) cells"

definition upsert_cells ::
  "string \<Rightarrow> (string \<times> element_cell) list \<Rightarrow> ((string \<times> string) \<times> element_cell) list
     \<Rightarrow> ((string \<times> string) \<times> element_cell) list" where
  "upsert_cells a rows cells = foldl (\<lambda>cs pc. dset cs (a, fst pc) (snd pc)) cells rows"

definition element_tx ::
  "(string \<Rightarrow> row) \<Rightarrow> string \<Rightarrow> pg_write option \<Rightarrow> (string \<times> element_cell) list \<Rightarrow> dict option \<Rightarrow> element_world
     \<Rightarrow> element_world res" where
  "element_tx schema a asset_write rows restamp w =
     rbind (case asset_write of None \<Rightarrow> Inr (ew_tables w)
            | Some wr \<Rightarrow> rbind (run_write (schema (w_table wr)) wr (ew_tables w (w_table wr)))
                          (\<lambda>tn. Inr ((ew_tables w)(w_table wr := fst tn)))) (\<lambda>tables.
       Inr (w\<lparr>ew_tables := tables,
             ew_cells := upsert_cells a rows
               (case restamp of None \<Rightarrow> ew_cells w | Some labels \<Rightarrow> restamp_cells a labels (ew_cells w))\<rparr>))"

definition write_element_state ::
  "(string \<Rightarrow> row) \<Rightarrow> attempt \<Rightarrow> string \<Rightarrow> pg_write option \<Rightarrow> (string \<times> element_cell) list \<Rightarrow> dict option
     \<Rightarrow> element_world \<Rightarrow> unit res \<times> element_world" where
  "write_element_state schema tx a asset_write rows restamp w =
     (if tx = LostBefore then (Inl OSError, w)
      else if tx = Rejected then (Inl PostgresWriteError, w)
      else (case element_tx schema a asset_write rows restamp w of
          Inl e \<Rightarrow> (Inl e, w)
        | Inr w' \<Rightarrow> (if tx = LostAfter then Inl OSError else Inr (), w')))"

section \<open>The handler\<close>

definition observed_at_from_ns :: "int \<Rightarrow> py \<Rightarrow> int" where
  "observed_at_from_ns now v =
     (case rbind (py_int v) (\<lambda>ns.
             if \<bar>of_int ns\<bar> \<ge> float_limit * 1000000000 then Inl OverflowError
             else from_timestamp_us (round_half_even (of_int ns / 1000))) of
        Inr (PTime us) \<Rightarrow> us
      | _ \<Rightarrow> now)"

text \<open>
  What \<open>json.dumps(v, sort_keys=True)\<close> tells apart: the value up to the order of its keys (a
  datetime, dumped by \<open>str\<close>, stays apart from its text here).
\<close>

fun sorted_dump :: "py \<Rightarrow> py" where
  "sorted_dump (PDict d) = PDict (sort_key fst (map (\<lambda>kv. (fst kv, sorted_dump (snd kv))) d))"
| "sorted_dump (PList xs) = PList (map sorted_dump xs)"
| "sorted_dump v = v"

definition asset_signature :: "env \<Rightarrow> dict \<Rightarrow> py \<Rightarrow> dict \<Rightarrow> dict option \<Rightarrow> element_sig" where
  "asset_signature env decoded operational labels stamped =
     (py_str (e_repr env) (py_or (dget decoded ''platform_variant'') (PStr [])),
      py_str (e_repr env) (py_or (dget decoded ''profile_name'') (PStr [])),
      sorted_dump operational,
      sorted_dump (PDict (if labels \<noteq> [] then labels else case stamped of None \<Rightarrow> [] | Some l \<Rightarrow> l)))"

definition asset_row_write ::
  "element_call \<Rightarrow> string \<Rightarrow> element_sig \<Rightarrow> py \<Rightarrow> int \<Rightarrow> dict \<Rightarrow> dict \<Rightarrow> pg_write" where
  "asset_row_write ca a sig operational observed_at prov labels =
     \<lparr>w_table = ''asset_element_telemetry'', w_mode = ''upsert'', w_key_columns = [''asset_id''],
      w_row = [(''asset_id'', PStr a), (''platform_variant'', PStr (fst sig)), (''profile_name'', PStr (fst (snd sig))),
               (''operational'', operational), (''observed_at'', PTime observed_at),
               (''updated_at'', PTime (ca_now_row ca))] @ prov @ labels,
      w_jsonb_columns = [''operational''], w_revive = None\<rparr>"

definition full_rows :: "int \<Rightarrow> dict \<Rightarrow> dict \<Rightarrow> (string \<times> element_row) list \<Rightarrow> (string \<times> element_cell) list" where
  "full_rows stamp labels prov rows =
     map (\<lambda>pr. (fst pr, \<lparr>ce_row = snd pr, ce_nation = dget labels ''originator_nation'',
        ce_releasable = dget labels ''releasable_to'', ce_provenance = prov, ce_updated_at = stamp\<rparr>)) rows"

text \<open>The counters of the undeclared layers, and one log line per layer and process.\<close>

definition note_undeclared :: "(string \<times> nat) list \<Rightarrow> element_world \<Rightarrow> element_world" where
  "note_undeclared u w =
     foldl (\<lambda>w ln. if fst ln \<in> set (ew_logged w) then note_element [Undeclared (fst ln) (snd ln)] w
        else (note_element [Undeclared (fst ln) (snd ln), UndeclaredLogged (fst ln)] w)
               \<lparr>ew_logged := ew_logged w @ [fst ln]\<rparr>) w u"

text \<open>
  What a call decides from the labels and the state it holds: the signature, whether the asset row is
  due and that row, the labels to restamp, and the state after a written call.
\<close>

definition call_due :: "element_call \<Rightarrow> element_config \<Rightarrow> element_sig \<Rightarrow> asset_state \<Rightarrow> bool" where
  "call_due ca cfg sig st \<longleftrightarrow> st_asset_sig st \<noteq> Some sig \<or> ca_clock ca - st_asset_written_at st \<ge> ec_heartbeat_s cfg"

definition call_restamp :: "dict \<Rightarrow> asset_state \<Rightarrow> dict option" where
  "call_restamp labels st =
     (if st_stamped_labels st \<noteq> None \<and> st_stamped_labels st \<noteq> Some labels then Some labels else None)"

definition call_sig :: "element_call \<Rightarrow> dict \<Rightarrow> dict \<Rightarrow> asset_state \<Rightarrow> element_sig" where
  "call_sig ca decoded labels st =
     asset_signature (ca_env ca) decoded (or_empty (dget decoded ''operational'')) labels (st_stamped_labels st)"

definition call_write ::
  "element_call \<Rightarrow> element_config \<Rightarrow> string \<Rightarrow> dict \<Rightarrow> asset_state \<Rightarrow> dict \<Rightarrow> dict \<Rightarrow> int \<Rightarrow> pg_write option" where
  "call_write ca cfg a decoded st prov labels observed_at =
     (if call_due ca cfg (call_sig ca decoded labels st) st
      then Some (asset_row_write ca a (call_sig ca decoded labels st) (or_empty (dget decoded ''operational''))
             observed_at prov labels)
      else None)"

definition advanced ::
  "element_call \<Rightarrow> element_config \<Rightarrow> dict \<Rightarrow> dict \<Rightarrow> (string \<times> element_row) list \<Rightarrow> asset_state \<Rightarrow> asset_state" where
  "advanced ca cfg decoded labels rows st =
     (let sig = call_sig ca decoded labels st; due = call_due ca cfg sig st in
      st\<lparr>st_elements := dmerge (st_elements st) rows, st_stamped_labels := Some labels,
         st_asset_sig := (if due then Some sig else st_asset_sig st),
         st_asset_written_at := (if due then ca_clock ca else st_asset_written_at st)\<rparr>)"

text \<open>From the diff on: signature, refusal, the transaction, and the memory advanced after it.\<close>

definition write_asset ::
  "element_call \<Rightarrow> element_config \<Rightarrow> string \<Rightarrow> dict \<Rightarrow> asset_state \<Rightarrow> dict \<Rightarrow> dict option \<Rightarrow> int
     \<Rightarrow> snapshot_diff \<Rightarrow> element_world \<Rightarrow> element_answer res \<times> element_world" where
  "write_asset ca cfg a decoded st prov record_labels observed_at diff w =
     (case diff of (rows, classes, _) \<Rightarrow>
       let labels = (case record_labels of None \<Rightarrow> [] | Some l \<Rightarrow> l) in
       if \<not> call_due ca cfg (call_sig ca decoded labels st) st \<and> rows = [] then (Inr ElUnchanged, w)
       else if labels = [] then
         (Inr ElRefused, note_element
           [WriteRefused (if record_labels = None then ''no_label_record'' else ''label_record_unlabelled'')] w)
       else
         (case write_element_state (ca_schema ca) (ca_tx ca) a
                 (call_write ca cfg a decoded st prov labels observed_at)
                 (full_rows (ca_now_stamp ca) labels prov rows) (call_restamp labels st) w of
            (Inl e, w1) \<Rightarrow> (Inl e, w1)
          | (Inr _, w1) \<Rightarrow>
              (Inr ElWritten, note_element
                 ((if call_restamp labels st = None then [] else [Restamped]) @ map (\<lambda>pc. Emitted (snd pc)) classes)
                 (set_asset a (advanced ca cfg decoded labels rows st) w1))))"

definition first_labels :: "dict option \<Rightarrow> asset_state \<Rightarrow> asset_state" where
  "first_labels record_labels st =
     (case record_labels of
        None \<Rightarrow> st
      | Some l \<Rightarrow> (if l \<noteq> [] \<and> st_stamped_labels st = None then st\<lparr>st_stamped_labels := Some l\<rparr> else st))"

definition element_asset ::
  "element_call \<Rightarrow> element_config \<Rightarrow> string \<Rightarrow> dict \<Rightarrow> py list \<Rightarrow> asset_state \<Rightarrow> element_world
     \<Rightarrow> element_answer res \<times> element_world" where
  "element_asset ca cfg a decoded elements st w =
     (let observed_at = observed_at_from_ns (ca_now_observed ca) (dget decoded ''observed_at_ns'') in
      case rbind (resolve_origin_or_derive (ca_env ca) PNone (PStr a) None None) (\<lambda>prov.
           rbind (case ca_fetch_labels ca of Some e \<Rightarrow> Inl e | None \<Rightarrow> fetch_asset_labels a (ew_tables w)) (\<lambda>labels.
             Inr (prov, labels))) of
        Inl e \<Rightarrow> (Inl e, w)
      | Inr (prov, labels) \<Rightarrow>
          (let st1 = first_labels labels st; w1 = set_asset a st1 w in
           case diff_snapshot (e_repr (ca_env ca)) cfg (st_elements st1) elements observed_at of
             Inl e \<Rightarrow> (Inl e, w1)
           | Inr diff \<Rightarrow>
               write_asset ca cfg a decoded st1 prov labels observed_at diff (note_undeclared (snd (snd diff)) w1)))"

definition handle_asset_element_telemetry ::
  "element_call \<Rightarrow> element_config option \<Rightarrow> string \<Rightarrow> dict \<Rightarrow> element_world \<Rightarrow> element_answer res \<times> element_world" where
  "handle_asset_element_telemetry ca config key decoded w =
     (case config of
        None \<Rightarrow> (Inl ConfigError, w)
      | Some cfg \<Rightarrow>
          (let asset_id = py_or (dget decoded ''asset_id'') (PStr key) in
           if \<not> truthy asset_id then (Inr ElSkip, w)
           else case py_or (dget decoded ''elements'') (PList []) of
             PList elements \<Rightarrow>
               (case asset_id of
                  PStr a \<Rightarrow>
                    (case map_of (ew_assets w) a of
                       Some st \<Rightarrow> element_asset ca cfg a decoded elements st w
                     | None \<Rightarrow>
                         (case ca_fetch_elements ca of
                            Some e \<Rightarrow> (Inl e, w)
                          | None \<Rightarrow>
                              (let st = \<lparr>st_elements = dmerge [] (fetch_element_state a w), st_asset_sig = None,
                                        st_asset_written_at = 0, st_stamped_labels = None\<rparr>
                               in element_asset ca cfg a decoded elements st (set_asset a st w))))
                | PList _ \<Rightarrow> (Inl TypeError, w)
                | PDict _ \<Rightarrow> (Inl TypeError, w)
                | _ \<Rightarrow> (Inl InterfaceError, w))
           | _ \<Rightarrow> (Inr ElSkip, w)))"

section \<open>Eviction\<close>

definition evict_assets :: "string list \<Rightarrow> element_world \<Rightarrow> nat \<times> element_world" where
  "evict_assets ids w =
     (let n = length (filter (\<lambda>a. a \<in> fst ` set (ew_assets w)) (remdups ids));
          w1 = w\<lparr>ew_assets := filter (\<lambda>kv. fst kv \<notin> set ids) (ew_assets w)\<rparr>
      in (n, if n > 0 then note_element [Evicted n] w1 else w1))"

text \<open>\<open>prune_owned\<close>: the cells whose asset has no row in \<open>asset_element_telemetry\<close> go.\<close>

definition owned :: "store \<Rightarrow> string \<Rightarrow> bool" where
  "owned tables a \<longleftrightarrow> list_ex (\<lambda>r. r ''asset_id'' = PStr a) (tables ''asset_element_telemetry'')"

definition prune_owned :: "element_world \<Rightarrow> string list \<times> element_world" where
  "prune_owned w =
     (remdups (map (\<lambda>kc. fst (fst kc)) (filter (\<lambda>kc. \<not> owned (ew_tables w) (fst (fst kc))) (ew_cells w))),
      w\<lparr>ew_cells := filter (\<lambda>kc. owned (ew_tables w) (fst (fst kc))) (ew_cells w)\<rparr>)"

end
