(* ===== verification/Prune.thy ===== *)
theory Prune
  imports Config Element_Handler Lifecycle
begin

text \<open>
  Retention: \<open>build_prune_targets\<close> and one pass of \<open>prune_loop\<close> (\<open>main.py\<close>), and what the DELETE of
  \<open>build_prune_sql\<close> removes (\<open>persistence/postgres.py\<close>). The hours reach Postgres as text;
  \<open>hours_of\<close> is the length of the interval it reads from them, in microseconds, None where it refuses.
\<close>

section \<open>Targets\<close>

type_synonym prune_target = "py \<times> string \<times> py \<times> bool"

definition lifecycle_table :: string where
  "lifecycle_table = ''telemetry_latest_state''"

definition parent_owned_prune :: "(string \<times> string) list" where
  "parent_owned_prune = [(''asset_element_state'', ''asset_element_telemetry'')]"

definition non_asset_id_keyed :: "string list" where
  "non_asset_id_keyed = [''inventory_items'']"

definition custom_pruned :: "string list" where
  "custom_pruned = [''asset_element_telemetry'']"

fun insert_child :: "string \<times> string \<Rightarrow> prune_target list \<Rightarrow> prune_target list" where
  "insert_child cp [] = []"
| "insert_child cp (t # ts) =
     (if fst t = PStr (snd cp) then t # (PStr (fst cp), [], PFloat (Fin 0), True) # ts else t # insert_child cp ts)"

definition append_targets :: "mapping list \<Rightarrow> prune_target list" where
  "append_targets ms = map (\<lambda>m. (mp_table m, ''time'', mp_retention_hours m, False))
     (filter (\<lambda>m. mp_mode m = PStr ''append'' \<and> truthy (mp_retention_hours m)) ms)"

definition upsert_targets :: "mapping list \<Rightarrow> prune_target list" where
  "upsert_targets ms = map (\<lambda>m. (mp_table m, ''updated_at'', mp_asset_ttl_hours m, mp_table m \<notin> PStr ` set non_asset_id_keyed))
     (filter (\<lambda>m. (mp_mode m = PStr ''upsert''
          \<or> (mp_mode m = PStr ''custom'' \<and> mp_table m \<in> PStr ` set custom_pruned)) \<and> truthy (mp_asset_ttl_hours m)) ms)"

definition build_prune_targets :: "mapping list \<Rightarrow> prune_target list" where
  "build_prune_targets ms =
     append_targets ms
     @ fold insert_child parent_owned_prune (sort_key (\<lambda>t. fst t = PStr lifecycle_table) (upsert_targets ms))"

section \<open>What a DELETE removes\<close>

definition aged :: "int \<Rightarrow> rat \<Rightarrow> string \<Rightarrow> row \<Rightarrow> bool" where
  "aged now hours_us column r \<longleftrightarrow> (case r column of PTime t \<Rightarrow> of_int t < of_int now - hours_us | _ \<Rightarrow> False)"

definition terminal_row :: "row \<Rightarrow> bool" where
  "terminal_row r \<longleftrightarrow> r ''operational_status'' \<in> PStr ` set terminal_operational_statuses"

text \<open>Some lifecycle row of the asset is terminal; NULL equals nothing.\<close>

definition terminal_asset :: "store \<Rightarrow> py \<Rightarrow> bool" where
  "terminal_asset tables a \<longleftrightarrow> a \<noteq> PNone
     \<and> list_ex (\<lambda>lc. lc ''asset_id'' = a \<and> terminal_row lc) (tables lifecycle_table)"

definition prunable :: "int \<Rightarrow> rat \<Rightarrow> string \<Rightarrow> string \<Rightarrow> bool \<Rightarrow> store \<Rightarrow> row \<Rightarrow> bool" where
  "prunable now hours_us table column keyed tables r \<longleftrightarrow>
     aged now hours_us column r
     \<and> (if \<not> keyed then True
        else if table = lifecycle_table then terminal_row r
        else terminal_asset tables (r ''asset_id''))"

definition prune_older_than :: "int \<Rightarrow> rat \<Rightarrow> string \<Rightarrow> string \<Rightarrow> bool \<Rightarrow> store \<Rightarrow> store" where
  "prune_older_than now hours_us table column keyed tables =
     tables(table := filter (\<lambda>r. \<not> prunable now hours_us table column keyed tables r) (tables table))"

section \<open>One pass\<close>

text \<open>
  The target's clock, whether its statement goes through, and the target. A failing one is logged and the
  pass goes on.
\<close>

definition prune_step ::
  "(py \<Rightarrow> string) \<Rightarrow> (py \<Rightarrow> rat option) \<Rightarrow> (int \<times> bool) \<times> prune_target \<Rightarrow> element_world \<Rightarrow> element_world" where
  "prune_step repr hours_of st w =
     (case st of ((now, ok), (table, column, hours, keyed)) \<Rightarrow>
       if \<not> ok then w
       else if table \<in> PStr ` set (map fst parent_owned_prune) then
         (let (ids, w1) = prune_owned w in if ids = [] then w1 else snd (evict_assets ids w1))
       else
         (case hours_of hours of
            None \<Rightarrow> w
          | Some h \<Rightarrow> w\<lparr>ew_tables := prune_older_than now h (py_str repr table) column keyed (ew_tables w)\<rparr>))"

definition prune_pass ::
  "(py \<Rightarrow> string) \<Rightarrow> (py \<Rightarrow> rat option) \<Rightarrow> ((int \<times> bool) \<times> prune_target) list \<Rightarrow> element_world \<Rightarrow> element_world" where
  "prune_pass repr hours_of steps w = fold (prune_step repr hours_of) steps w"

end
