(* ===== verification/Retention.thy ===== *)
theory Retention
  imports Prune
begin

text \<open>
  What the retention guarantees: no pass removes a row of an asset that is not terminal, whatever its age;
  one pass removes all that is due, dependents and lifecycle row alike; no element row
  outlives its asset's row; and which configurations keep the element rows bounded.
\<close>

section \<open>Order of the targets\<close>

lemma sort_key_bool: "sort_key (f :: 'a \<Rightarrow> bool) xs = filter (\<lambda>x. \<not> f x) xs @ filter f xs"
proof (induction xs)
  case (Cons x xs)
  have skip: "\<forall>y\<in>set as. \<not> f y \<Longrightarrow> f x \<Longrightarrow> insort_key f x (as @ bs) = as @ insort_key f x bs" for as bs
    by (induction as) auto
  have front: "\<forall>y\<in>set bs. f y \<Longrightarrow> insort_key f x bs = x # bs" for bs by (cases bs) auto
  show ?case
  proof (cases "f x")
    case True
    with Cons skip [of "filter (\<lambda>x. \<not> f x) xs" "filter f xs"] front [of "filter f xs"] show ?thesis by simp
  next
    case False
    then have "insort_key f x ys = x # ys" for ys by (cases ys) auto
    with Cons False show ?thesis by simp
  qed
qed simp

definition is_lifecycle :: "prune_target \<Rightarrow> bool" where
  "is_lifecycle t \<longleftrightarrow> fst t = PStr lifecycle_table"

lemma insert_child_append:
  "\<forall>t\<in>set ys. fst t \<noteq> PStr (snd cp) \<Longrightarrow> insert_child cp (xs @ ys) = insert_child cp xs @ ys"
proof (induction xs)
  case Nil
  then show ?case by (induction ys) auto
qed simp

lemma set_insert_child: "set (insert_child cp ts) =
    set ts \<union> (if \<exists>t\<in>set ts. fst t = PStr (snd cp) then {(PStr (fst cp), [], PFloat (Fin 0), True)} else {})"
  by (induction ts) auto

text \<open>The lifecycle table comes after every other asset keyed target.\<close>

lemma targets_split:
  "\<exists>xs ys. build_prune_targets ms = append_targets ms @ xs @ ys \<and> list_all is_lifecycle ys \<and> list_all (\<lambda>t. \<not> is_lifecycle t) xs
     \<and> set ys = {t \<in> set (upsert_targets ms). is_lifecycle t}
     \<and> {t \<in> set (upsert_targets ms). \<not> is_lifecycle t} \<subseteq> set xs
     \<and> set xs \<subseteq> {t \<in> set (upsert_targets ms). \<not> is_lifecycle t} \<union> {(PStr ''asset_element_state'', [], PFloat (Fin 0), True)}
     \<and> xs = insert_child (''asset_element_state'', ''asset_element_telemetry'') (filter (\<lambda>t. \<not> is_lifecycle t) (upsert_targets ms))"
proof -
  let ?cp = "(''asset_element_state'', ''asset_element_telemetry'')"
  let ?a = "filter (\<lambda>t. \<not> is_lifecycle t) (upsert_targets ms)" and ?b = "filter is_lifecycle (upsert_targets ms)"
  have "fold insert_child parent_owned_prune (sort_key (\<lambda>t. fst t = PStr lifecycle_table) (upsert_targets ms))
      = insert_child ?cp (?a @ ?b)"
    by (simp add: parent_owned_prune_def sort_key_bool is_lifecycle_def [abs_def])
  also have "\<dots> = insert_child ?cp ?a @ ?b"
    by (rule insert_child_append) (auto simp: is_lifecycle_def lifecycle_table_def)
  finally have eq: "build_prune_targets ms = append_targets ms @ insert_child ?cp ?a @ ?b"
    by (simp add: build_prune_targets_def)
  show ?thesis
    by (intro exI [of _ "insert_child ?cp ?a"] exI [of _ ?b])
      (use eq in \<open>auto simp: set_insert_child list_all_iff is_lifecycle_def lifecycle_table_def\<close>)
qed

section \<open>A pass only removes\<close>

lemma prune_step_subset: "set (ew_tables (prune_step repr hours_of st w) t) \<subseteq> set (ew_tables w t)"
  by (auto simp: prune_step_def prune_older_than_def prune_owned_def evict_assets_def note_element_def Let_def
      split: prod.split option.split if_splits)

lemma prune_pass_subset: "set (ew_tables (prune_pass repr hours_of steps w) t) \<subseteq> set (ew_tables w t)"
proof (induction steps arbitrary: w)
  case (Cons st steps)
  with prune_step_subset [of repr hours_of st w t] show ?case by (force simp: prune_pass_def)
qed (simp add: prune_pass_def)

lemma prune_step_other:
  "py_str repr (fst (snd st)) \<noteq> t \<Longrightarrow> ew_tables (prune_step repr hours_of st w) t = ew_tables w t"
  by (auto simp: prune_step_def prune_older_than_def prune_owned_def evict_assets_def note_element_def Let_def
      split: prod.split option.split)

lemma prune_pass_other:
  "\<forall>st\<in>set steps. py_str repr (fst (snd st)) \<noteq> t \<Longrightarrow> ew_tables (prune_pass repr hours_of steps w) t = ew_tables w t"
  by (induction steps arbitrary: w) (simp_all add: prune_pass_def prune_step_other)

lemma terminal_asset_mono:
  "set (tables' lifecycle_table) \<subseteq> set (tables lifecycle_table) \<Longrightarrow> terminal_asset tables' a \<Longrightarrow> terminal_asset tables a"
  by (auto simp: terminal_asset_def list_ex_iff)

lemma terminal_asset_step:
  "terminal_asset (ew_tables (prune_step repr hours_of st w)) a \<Longrightarrow> terminal_asset (ew_tables w) a"
  by (erule terminal_asset_mono [OF prune_step_subset])

text \<open>A row no asset keyed DELETE may remove: of the lifecycle table when not terminal itself, else when its asset is not.\<close>

definition spared :: "store \<Rightarrow> string \<Rightarrow> row \<Rightarrow> bool" where
  "spared tables t r \<longleftrightarrow> (if t = lifecycle_table then \<not> terminal_row r else \<not> terminal_asset tables (r ''asset_id''))"

definition keyed_only :: "(py \<Rightarrow> string) \<Rightarrow> string \<Rightarrow> prune_target list \<Rightarrow> bool" where
  "keyed_only repr t ts \<longleftrightarrow> (\<forall>x\<in>set ts. py_str repr (fst x) = t \<longrightarrow> snd (snd (snd x)))"

lemma prune_step_spares:
  assumes "r \<in> set (ew_tables w t)" "spared (ew_tables w) t r" "py_str repr (fst (snd st)) = t \<longrightarrow> snd (snd (snd (snd st)))"
  shows "r \<in> set (ew_tables (prune_step repr hours_of st w) t) \<and> spared (ew_tables (prune_step repr hours_of st w)) t r"
proof
  show "spared (ew_tables (prune_step repr hours_of st w)) t r"
    using assms(2) terminal_asset_step [of repr hours_of st w "r ''asset_id''"] by (simp add: spared_def split: if_splits) blast
  show "r \<in> set (ew_tables (prune_step repr hours_of st w) t)"
    using assms
    by (auto simp: prune_step_def prune_older_than_def prune_owned_def evict_assets_def note_element_def Let_def
        prunable_def spared_def split: prod.split option.split if_splits)
qed

lemma prune_pass_spares:
  assumes "keyed_only repr t (map snd steps)" "r \<in> set (ew_tables w t)" "spared (ew_tables w) t r"
  shows "r \<in> set (ew_tables (prune_pass repr hours_of steps w) t)"
  using assms
proof (induction steps arbitrary: w)
  case (Cons st steps)
  from Cons.prems have "py_str repr (fst (snd st)) = t \<longrightarrow> snd (snd (snd (snd st)))" by (simp add: keyed_only_def)
  from prune_step_spares [OF Cons.prems(2,3) this, of hours_of] Cons.IH [of "prune_step repr hours_of st w"] Cons.prems(1)
  show ?case by (simp add: prune_pass_def keyed_only_def)
qed (simp add: prune_pass_def)

lemma targets_keyed:
  assumes "t \<noteq> ''inventory_items''" "\<forall>m\<in>set ms. mp_mode m = PStr ''append'' \<longrightarrow> py_str repr (mp_table m) \<noteq> t"
  shows "keyed_only repr t (build_prune_targets ms)"
proof -
  obtain xs ys where split: "build_prune_targets ms = append_targets ms @ xs @ ys"
    "set ys = {t \<in> set (upsert_targets ms). is_lifecycle t}"
    "set xs \<subseteq> {t \<in> set (upsert_targets ms). \<not> is_lifecycle t} \<union> {(PStr ''asset_element_state'', [], PFloat (Fin 0), True)}"
    using targets_split [of ms] by blast
  have "x \<in> set (append_targets ms) \<Longrightarrow> py_str repr (fst x) \<noteq> t" for x
    using assms(2) by (auto simp: append_targets_def)
  moreover have "x \<in> set (upsert_targets ms) \<Longrightarrow> py_str repr (fst x) = t \<Longrightarrow> snd (snd (snd x))" for x
    using assms(1) by (auto simp: upsert_targets_def non_asset_id_keyed_def)
  moreover have "x \<in> set xs \<union> set ys \<Longrightarrow> x \<in> set (upsert_targets ms) \<or> snd (snd (snd x))" for x
    using split(2,3) by auto
  ultimately show ?thesis unfolding keyed_only_def split(1) by (metis Un_iff set_append)
qed

lemma prune_pass_cells:
  assumes "keyed_only repr ''asset_element_telemetry'' (map snd steps)" "c \<in> set (ew_cells w)" "fst (fst c) = a"
    "r \<in> set (ew_tables w ''asset_element_telemetry'')" "r ''asset_id'' = PStr a" "\<not> terminal_asset (ew_tables w) (PStr a)"
  shows "c \<in> set (ew_cells (prune_pass repr hours_of steps w))"
  using assms
proof (induction steps arbitrary: w)
  case (Cons st steps)
  let ?w = "prune_step repr hours_of st w"
  have sp: "spared (ew_tables w) ''asset_element_telemetry'' r"
    using Cons.prems(5,6) by (simp add: spared_def lifecycle_table_def)
  from Cons.prems(1) have "py_str repr (fst (snd st)) = ''asset_element_telemetry'' \<longrightarrow> snd (snd (snd (snd st)))"
    by (simp add: keyed_only_def)
  from prune_step_spares [OF Cons.prems(4) sp this, of hours_of] have
    r: "r \<in> set (ew_tables ?w ''asset_element_telemetry'')" by simp
  have "\<not> terminal_asset (ew_tables ?w) (PStr a)"
    using Cons.prems(6) terminal_asset_step by metis
  moreover have "owned (ew_tables w) a" using Cons.prems(4,5) by (auto simp: owned_def list_ex_iff)
  then have "c \<in> set (ew_cells ?w)" using Cons.prems(2,3)
    by (auto simp: prune_step_def prune_owned_def evict_assets_def note_element_def Let_def split: prod.split option.split)
  ultimately show ?case using Cons.IH [of ?w] Cons.prems(1,3,5) r by (simp add: prune_pass_def keyed_only_def)
qed (simp add: prune_pass_def)

text \<open>
  C18. No pass removes what belongs to a live asset. Whatever is configured, whatever statements of the pass fail,
  and however old the row: a row of an asset keyed table stays as long as no lifecycle row says its
  asset is terminal, a lifecycle row stays as long as it is not terminal itself, and the element rows
  of an asset that is not terminal stay as long as the asset has its own telemetry row.
\<close>

theorem live_assets_kept:
  assumes "map snd steps = build_prune_targets ms" "t \<noteq> ''inventory_items''"
    "\<forall>m\<in>set ms. mp_mode m = PStr ''append'' \<longrightarrow> py_str repr (mp_table m) \<noteq> t"
  shows "(\<forall>r. r \<in> set (ew_tables w t) \<and> spared (ew_tables w) t r \<longrightarrow> r \<in> set (ew_tables (prune_pass repr hours_of steps w) t))
    \<and> (t = ''asset_element_telemetry'' \<longrightarrow> (\<forall>c r. c \<in> set (ew_cells w) \<and> r \<in> set (ew_tables w t)
        \<and> r ''asset_id'' = PStr (fst (fst c)) \<and> \<not> terminal_asset (ew_tables w) (r ''asset_id'')
        \<longrightarrow> c \<in> set (ew_cells (prune_pass repr hours_of steps w))))"
proof -
  have "keyed_only repr t (map snd steps)" using targets_keyed [OF assms(2,3)] assms(1) by simp
  then show ?thesis using prune_pass_spares prune_pass_cells by metis
qed

section \<open>One pass removes what is due\<close>

lemma aged_later: "aged now h col r \<Longrightarrow> now \<le> now' \<Longrightarrow> aged now' h col r"
  by (auto simp: aged_def split: py.splits)

lemma prune_step_removes:
  assumes "hours_of hrs = Some h" "prunable now h t col keyed (ew_tables w) r" "t \<noteq> ''asset_element_state''"
  shows "r \<notin> set (ew_tables (prune_step repr hours_of ((now, True), (PStr t, col, hrs, keyed)) w) t)"
  using assms by (auto simp: prune_step_def prune_older_than_def parent_owned_prune_def)

lemma prune_pass_split:
  "prune_pass repr hours_of (s1 @ st # s2) w = prune_pass repr hours_of s2 (prune_step repr hours_of st (prune_pass repr hours_of s1 w))"
  by (simp add: prune_pass_def)

lemma steps_split:
  assumes "map snd steps = ts1 @ x # ts2"
  obtains s1 now ok s2 where "steps = s1 @ ((now, ok), x) # s2" "map snd s1 = ts1" "map snd s2 = ts2"
proof -
  from assms obtain s1 s' where s: "steps = s1 @ s'" "map snd s1 = ts1" "map snd s' = x # ts2"
    by (auto simp: map_eq_append_conv)
  then obtain no s2 where "s' = (no, x) # s2" "map snd s2 = ts2" by (cases s') auto
  with s that [of s1 "fst no" "snd no" s2] show ?thesis by simp
qed

lemma prune_step_owned:
  "\<forall>c\<in>set (ew_cells (prune_step repr hours_of ((now, True), (PStr ''asset_element_state'', col, hrs, keyed)) w)).
     owned (ew_tables (prune_step repr hours_of ((now, True), (PStr ''asset_element_state'', col, hrs, keyed)) w)) (fst (fst c))"
  by (auto simp: prune_step_def prune_owned_def evict_assets_def note_element_def Let_def parent_owned_prune_def)

lemma prune_pass_owned:
  assumes "\<forall>st\<in>set steps. py_str repr (fst (snd st)) \<noteq> ''asset_element_telemetry''"
    "\<forall>c\<in>set (ew_cells w). owned (ew_tables w) (fst (fst c))"
  shows "\<forall>c\<in>set (ew_cells (prune_pass repr hours_of steps w)). owned (ew_tables (prune_pass repr hours_of steps w)) (fst (fst c))"
proof -
  have "set (ew_cells (prune_step repr hours_of st v)) \<subseteq> set (ew_cells v)" for st v
    by (auto simp: prune_step_def prune_owned_def evict_assets_def note_element_def Let_def split: prod.split option.split)
  then have "set (ew_cells (prune_pass repr hours_of steps v)) \<subseteq> set (ew_cells v)" for v
    by (induction steps arbitrary: v) (force simp: prune_pass_def)+
  moreover have "owned (ew_tables (prune_pass repr hours_of steps w)) = owned (ew_tables w)"
    using prune_pass_other [OF assms(1)] by (simp add: owned_def [abs_def])
  ultimately show ?thesis using assms(2) by auto
qed

lemma insert_child_split:
  "\<exists>t\<in>set ts. fst t = PStr (snd cp) \<Longrightarrow> distinct (map fst ts) \<Longrightarrow>
     \<exists>us p vs. insert_child cp ts = us @ p # (PStr (fst cp), [], PFloat (Fin 0), True) # vs
       \<and> (\<forall>v\<in>set vs. fst v \<noteq> PStr (snd cp)) \<and> set vs \<subseteq> set ts"
proof (induction ts)
  case (Cons t ts)
  show ?case
  proof (cases "fst t = PStr (snd cp)")
    case True
    with Cons.prems(2) have "\<forall>v\<in>set ts. fst v \<noteq> PStr (snd cp)" by (force simp: image_iff)
    with True show ?thesis
      by (intro exI [of _ "[]"] exI [of _ t] exI [of _ ts]) auto
  next
    case False
    with Cons obtain us p vs where "insert_child cp ts = us @ p # (PStr (fst cp), [], PFloat (Fin 0), True) # vs"
      "\<forall>v\<in>set vs. fst v \<noteq> PStr (snd cp)" "set vs \<subseteq> set ts" by auto
    with False show ?thesis by (intro exI [of _ "t # us"] exI [of _ p] exI [of _ vs]) auto
  qed
qed simp

text \<open>The order of the targets, as the pass relies on it: the lifecycle table is touched after everything else.\<close>

definition tables_named :: "mapping list \<Rightarrow> bool" where
  "tables_named ms \<longleftrightarrow> (\<forall>m\<in>set ms. (\<exists>s. mp_table m = PStr s) \<and> (mp_mode m = PStr ''append'' \<longrightarrow> mp_table m \<noteq> PStr lifecycle_table))"

lemma named_targets:
  assumes "tables_named ms"
  shows "x \<in> set (upsert_targets ms) \<Longrightarrow> \<exists>s. fst x = PStr s"
    and "x \<in> set (append_targets ms) \<Longrightarrow> \<exists>s. fst x = PStr s \<and> s \<noteq> lifecycle_table"
  using assms by (fastforce simp: tables_named_def upsert_targets_def append_targets_def)+

lemma target_position:
  assumes "tables_named ms" "(PStr t, c, hrs, True) \<in> set (upsert_targets ms)"
  obtains ts1 ts2 where "build_prune_targets ms = ts1 @ (PStr t, c, hrs, True) # ts2"
    "t \<noteq> lifecycle_table \<longrightarrow> (\<forall>x\<in>set ts1. py_str repr (fst x) \<noteq> lifecycle_table)"
proof -
  let ?x = "(PStr t, c, hrs, True)"
  obtain xs ys where split: "build_prune_targets ms = append_targets ms @ xs @ ys" "list_all (\<lambda>t. \<not> is_lifecycle t) xs"
    "set ys = {t \<in> set (upsert_targets ms). is_lifecycle t}" "{t \<in> set (upsert_targets ms). \<not> is_lifecycle t} \<subseteq> set xs"
    "set xs \<subseteq> {t \<in> set (upsert_targets ms). \<not> is_lifecycle t} \<union> {(PStr ''asset_element_state'', [], PFloat (Fin 0), True)}"
    using targets_split [of ms] by blast
  have early: "py_str repr (fst x) \<noteq> lifecycle_table" if "x \<in> set (append_targets ms) \<or> x \<in> set xs" for x
    using that
  proof
    assume "x \<in> set (append_targets ms)"
    from named_targets(2) [OF assms(1) this] show ?thesis by auto
  next
    assume x: "x \<in> set xs"
    with split(2) have "fst x \<noteq> PStr lifecycle_table" by (auto simp: list_all_iff is_lifecycle_def)
    moreover have "x \<in> set (upsert_targets ms) \<or> fst x = PStr ''asset_element_state''" using x split(5) by auto
    then have "\<exists>s. fst x = PStr s" using named_targets(1) [OF assms(1), of x] by blast
    ultimately show ?thesis by auto
  qed
  show ?thesis
  proof (cases "t = lifecycle_table")
    case True
    with assms(2) split(3) have "?x \<in> set (append_targets ms @ xs @ ys)" by (simp add: is_lifecycle_def)
    then obtain us vs where "append_targets ms @ xs @ ys = us @ ?x # vs" by (meson split_list)
    with True split(1) that show ?thesis by auto
  next
    case False
    with assms(2) split(4) have "?x \<in> set xs" by (auto simp: is_lifecycle_def)
    then obtain us vs where "xs = us @ ?x # vs" by (meson split_list)
    moreover from this have "\<forall>y\<in>set (append_targets ms @ us). py_str repr (fst y) \<noteq> lifecycle_table"
      by (intro ballI early) auto
    ultimately show ?thesis using split(1) that [of "append_targets ms @ us" "vs @ ys"] by simp
  qed
qed

lemma due_row_gone:
  assumes steps: "map snd steps = build_prune_targets ms" "\<forall>st\<in>set steps. snd (fst st) \<and> start \<le> fst (fst st)"
    and x: "tables_named ms" "(PStr t, ''updated_at'', hrs, True) \<in> set (upsert_targets ms)" "hours_of hrs = Some h"
      "t \<noteq> ''asset_element_state''"
    and due: "prunable start h t ''updated_at'' True (ew_tables w) r"
  shows "r \<notin> set (ew_tables (prune_pass repr hours_of steps w) t)"
proof -
  let ?x = "(PStr t, ''updated_at'', hrs, True)"
  obtain ts1 ts2 where ts: "build_prune_targets ms = ts1 @ ?x # ts2"
    "t \<noteq> lifecycle_table \<longrightarrow> (\<forall>x\<in>set ts1. py_str repr (fst x) \<noteq> lifecycle_table)"
    using target_position [OF x(1,2)] .
  obtain s1 now ok s2 where s: "steps = s1 @ ((now, ok), ?x) # s2" "map snd s1 = ts1"
    using steps_split [OF steps(1) [unfolded ts(1)]] .
  let ?w1 = "prune_pass repr hours_of s1 w"
  have "ew_tables ?w1 lifecycle_table = ew_tables w lifecycle_table" if "t \<noteq> lifecycle_table"
    by (rule prune_pass_other) (use ts(2) that s(2) in \<open>force simp: image_iff\<close>)
  then have "prunable now h t ''updated_at'' True (ew_tables ?w1) r"
    using due steps(2) s(1) aged_later [of start h "''updated_at''" r now]
    by (auto simp: prunable_def terminal_asset_def)
  moreover have ok: ok using steps(2) s(1) by simp
  ultimately have "r \<notin> set (ew_tables (prune_step repr hours_of ((now, ok), ?x) ?w1) t)"
    using prune_step_removes [where hours_of = hours_of and hrs = hrs and h = h] x(3,4) by simp
  then show ?thesis unfolding s(1) prune_pass_split using prune_pass_subset by fast
qed

lemma orphans_gone:
  assumes steps: "map snd steps = build_prune_targets ms" "\<forall>st\<in>set steps. snd (fst st) \<and> start \<le> fst (fst st)"
    and d: "tables_named ms" "distinct (map fst (upsert_targets ms))"
      "PStr ''asset_element_telemetry'' \<in> fst ` set (upsert_targets ms)"
  shows "\<forall>c\<in>set (ew_cells (prune_pass repr hours_of steps w)). owned (ew_tables (prune_pass repr hours_of steps w)) (fst (fst c))"
proof -
  let ?ts = "filter (\<lambda>t. \<not> is_lifecycle t) (upsert_targets ms)"
  obtain xs ys where split: "build_prune_targets ms = append_targets ms @ xs @ ys" "list_all is_lifecycle ys"
    "set ys = {t \<in> set (upsert_targets ms). is_lifecycle t}"
    "xs = insert_child (''asset_element_state'', ''asset_element_telemetry'') ?ts"
    using targets_split [of ms] by blast
  have "\<exists>t\<in>set ?ts. fst t = PStr ''asset_element_telemetry''"
    using d(3) by (force simp: is_lifecycle_def lifecycle_table_def)
  moreover have "distinct (map fst ?ts)" using d(2) by (simp add: distinct_map_filter)
  ultimately obtain us p vs where v: "xs = us @ p # (PStr ''asset_element_state'', [], PFloat (Fin 0), True) # vs"
    "\<forall>v\<in>set vs. fst v \<noteq> PStr ''asset_element_telemetry''" "set vs \<subseteq> set ?ts"
    using insert_child_split [of ?ts "(''asset_element_state'', ''asset_element_telemetry'')"] split(4) by auto
  have "map snd steps = (append_targets ms @ us @ [p]) @ (PStr ''asset_element_state'', [], PFloat (Fin 0), True) # vs @ ys"
    using steps(1) split(1) v(1) by simp
  from steps_split [OF this] obtain s1 now ok s2 where
    s: "steps = s1 @ ((now, ok), (PStr ''asset_element_state'', [], PFloat (Fin 0), True)) # s2" "map snd s2 = vs @ ys" .
  have ok: ok using steps(2) s(1) by simp
  have "\<forall>st\<in>set s2. py_str repr (fst (snd st)) \<noteq> ''asset_element_telemetry''"
  proof
    fix st assume "st \<in> set s2"
    then have "snd st \<in> set vs \<union> set ys" using s(2) by (metis imageI set_append set_map)
    then have "snd st \<in> set (upsert_targets ms) \<and> fst (snd st) \<noteq> PStr ''asset_element_telemetry''"
      using v(2,3) split(2,3) by (auto simp: list_all_iff is_lifecycle_def lifecycle_table_def)
    with named_targets(1) [OF d(1), of "snd st"] show "py_str repr (fst (snd st)) \<noteq> ''asset_element_telemetry''" by fastforce
  qed
  from prune_pass_owned [OF this prune_step_owned] ok show ?thesis unfolding s(1) prune_pass_split by simp
qed

text \<open>
  C19. One pass removes all that is due. In a pass whose statements go through, every row of an asset keyed
  table that is older than its hours and whose asset is terminal goes, the lifecycle row of the same asset
  included: the lifecycle table comes last, so no dependent waits for the next pass. And if the asset
  telemetry table has a target, no element row is left without the telemetry row of its asset.
\<close>

theorem one_pass_clears:
  assumes steps: "map snd steps = build_prune_targets ms" "\<forall>st\<in>set steps. snd (fst st) \<and> start \<le> fst (fst st)"
    and maps: "tables_named ms"
  shows "(\<forall>t hrs h r. (PStr t, ''updated_at'', hrs, True) \<in> set (upsert_targets ms) \<longrightarrow> hours_of hrs = Some h \<longrightarrow>
        t \<noteq> ''asset_element_state'' \<longrightarrow> prunable start h t ''updated_at'' True (ew_tables w) r \<longrightarrow>
        r \<notin> set (ew_tables (prune_pass repr hours_of steps w) t))
    \<and> (distinct (map fst (upsert_targets ms)) \<longrightarrow> PStr ''asset_element_telemetry'' \<in> fst ` set (upsert_targets ms) \<longrightarrow>
        (\<forall>c\<in>set (ew_cells (prune_pass repr hours_of steps w)).
           owned (ew_tables (prune_pass repr hours_of steps w)) (fst (fst c))))"
  using due_row_gone [OF steps maps] orphans_gone [OF steps maps] by blast

section \<open>Configurations\<close>

lemma rmap_set: "rmap f xs = Inr ys \<Longrightarrow> y \<in> set ys \<Longrightarrow> \<exists>x\<in>set xs. f x = Inr y"
  by (induction xs arbitrary: ys) (auto simp: res_simps)

lemma positive_truthy: "positive f \<Longrightarrow> truthy (PFloat f)"
  by (cases f) (auto simp: positive_def)

lemma checked_element:
  "load_mapping override v = Inr m \<Longrightarrow> mp_handler m = PStr element_telemetry \<Longrightarrow>
     mp_mode m = PStr ''custom'' \<and> (\<exists>ttl. truthy ttl \<and> mp_asset_ttl_hours m = effective_ttl override (PStr ''custom'') ttl)"
  by (auto simp: load_mapping_def check_element_mapping_def res_simps Let_def split: py.splits if_splits sum.splits)

text \<open>
  C26. A loaded configuration keeps the element rows bounded. Every mapping to the element handler that
  \<open>load_config\<close> accepts is of mode custom; and unless the environment overrides the hours with a value
  that is not positive, it has hours, so its table is a prune target if it is asset_element_telemetry,
  followed by the element rows. With such an override the mapping is accepted all the same and
  nothing of it is pruned.
\<close>

theorem element_mapping_bounded:
  assumes "load_config ce parsed = Inr cfg" "ttl_override (ce_asset_ttl_hours ce) = Inr override"
    and "m \<in> set (cf_mappings cfg)" "mp_handler m = PStr element_telemetry"
  shows "mp_mode m = PStr ''custom''
    \<and> ((case override of None \<Rightarrow> True | Some f \<Rightarrow> positive f) \<longrightarrow> truthy (mp_asset_ttl_hours m)
         \<and> (mp_table m = PStr ''asset_element_telemetry'' \<longrightarrow>
              {PStr ''asset_element_telemetry'', PStr ''asset_element_state''} \<subseteq> fst ` set (build_prune_targets (cf_mappings cfg))))
    \<and> (\<not> (case override of None \<Rightarrow> True | Some f \<Rightarrow> positive f) \<longrightarrow> mp_asset_ttl_hours m = PNone
         \<and> upsert_targets [m] = [])"
proof -
  from assms(1,2) obtain entries where "rmap (load_mapping override) entries = Inr (cf_mappings cfg)"
    by (auto simp: load_config_def res_simps split: py.splits)
  from rmap_set [OF this assms(3)] obtain v where "load_mapping override v = Inr m" by blast
  from checked_element [OF this assms(4)] obtain ttl where
    m: "mp_mode m = PStr ''custom''" "truthy ttl" "mp_asset_ttl_hours m = effective_ttl override (PStr ''custom'') ttl" by blast
  have kept: "truthy (mp_asset_ttl_hours m)" if "case override of None \<Rightarrow> True | Some f \<Rightarrow> positive f"
    using that m positive_truthy by (cases override) (auto simp: effective_ttl_def)
  have target: "{PStr ''asset_element_telemetry'', PStr ''asset_element_state''} \<subseteq> fst ` set (build_prune_targets (cf_mappings cfg))"
    if "truthy (mp_asset_ttl_hours m)" "mp_table m = PStr ''asset_element_telemetry''"
  proof -
    let ?t = "(PStr ''asset_element_telemetry'', ''updated_at'', mp_asset_ttl_hours m, True)"
    have t: "?t \<in> set (upsert_targets (cf_mappings cfg))"
      using that m(1) assms(3)
      by (auto simp: upsert_targets_def custom_pruned_def non_asset_id_keyed_def image_iff intro!: bexI [of _ m])
    obtain xs ys where split: "build_prune_targets (cf_mappings cfg) = append_targets (cf_mappings cfg) @ xs @ ys"
      "{t \<in> set (upsert_targets (cf_mappings cfg)). \<not> is_lifecycle t} \<subseteq> set xs"
      "xs = insert_child (''asset_element_state'', ''asset_element_telemetry'') (filter (\<lambda>t. \<not> is_lifecycle t) (upsert_targets (cf_mappings cfg)))"
      using targets_split [of "cf_mappings cfg"] by blast
    have life: "\<not> is_lifecycle ?t" by (simp add: is_lifecycle_def lifecycle_table_def)
    with t have "?t \<in> set (filter (\<lambda>t. \<not> is_lifecycle t) (upsert_targets (cf_mappings cfg)))" by simp
    then have "(PStr ''asset_element_state'', [], PFloat (Fin 0), True) \<in> set xs"
      unfolding split(3) set_insert_child by (intro UnI2) (auto intro!: bexI [of _ ?t])
    moreover have "?t \<in> set xs" using split(2) t life by auto
    ultimately show ?thesis using split(1) by force
  qed
  have off: "mp_asset_ttl_hours m = PNone" if "\<not> (case override of None \<Rightarrow> True | Some f \<Rightarrow> positive f)"
    using that m by (cases override) (auto simp: effective_ttl_def)
  then show ?thesis using m(1) kept target by (auto simp: upsert_targets_def)
qed

section \<open>Examples\<close>

definition sample_entry :: "string \<Rightarrow> string \<Rightarrow> py" where
  "sample_entry handler mode = PDict [(''topic'', PStr ''t''), (''handler'', PStr handler),
     (''table'', PStr (if handler = element_telemetry then handler else ''telemetry_latest_state'')),
     (''consumer_group'', PStr ''g''), (''decode_as'', PStr ''json''), (''mode'', PStr mode), (''asset_ttl_hours'', PInt 24)]"

definition sample_parsed :: py where
  "sample_parsed = PDict [(''mappings'', PList [sample_entry ''telemetry_latest'' ''upsert'', sample_entry element_telemetry ''custom''])]"

definition sample_config_env :: "string option \<Rightarrow> config_env" where
  "sample_config_env ttl = \<lparr>ce_asset_ttl_hours = ttl, ce_rate_limit = None, ce_edge_overlay = None\<rparr>"

definition sample_mappings :: "mapping list" where
  "sample_mappings = (case load_config (sample_config_env None) sample_parsed of Inr cfg \<Rightarrow> cf_mappings cfg | Inl _ \<Rightarrow> [])"

lemma sample_mappings_loaded:
  "sample_mappings =
     [\<lparr>mp_topic = PStr ''t'', mp_handler = PStr ''telemetry_latest'', mp_table = PStr ''telemetry_latest_state'',
       mp_consumer_group = PStr ''g'', mp_decode_as = PStr ''json'', mp_mode = PStr ''upsert'', mp_retention_hours = PNone,
       mp_asset_ttl_hours = PInt 24\<rparr>,
      \<lparr>mp_topic = PStr ''t'', mp_handler = PStr ''asset_element_telemetry'', mp_table = PStr ''asset_element_telemetry'',
       mp_consumer_group = PStr ''g'', mp_decode_as = PStr ''json'', mp_mode = PStr ''custom'', mp_retention_hours = PNone,
       mp_asset_ttl_hours = PInt 24\<rparr>]"
  by code_simp

text \<open>With the hours overridden by 0 the element mapping still loads, and has no hours.\<close>

theorem element_mapping_bounded_witness:
  "case load_config (sample_config_env (Some ''0'')) sample_parsed of
     Inl _ \<Rightarrow> False
   | Inr cfg \<Rightarrow> mp_mode (last (cf_mappings cfg)) = PStr ''custom'' \<and> mp_asset_ttl_hours (last (cf_mappings cfg)) = PNone"
proof -
  have "case load_config (sample_config_env (Some ''0'')) sample_parsed of Inl _ \<Rightarrow> False
      | Inr cfg \<Rightarrow> cf_mappings cfg \<noteq> [] \<and> mp_handler (last (cf_mappings cfg)) = PStr element_telemetry" by code_simp
  then obtain cfg where c: "load_config (sample_config_env (Some ''0'')) sample_parsed = Inr cfg" "cf_mappings cfg \<noteq> []"
    "mp_handler (last (cf_mappings cfg)) = PStr element_telemetry" by (auto split: sum.splits)
  have "ttl_override (ce_asset_ttl_hours (sample_config_env (Some ''0''))) = Inr (Some (Fin 0))" by code_simp
  from element_mapping_bounded [OF c(1) this last_in_set [OF c(2)] c(3)] show ?thesis
    by (simp add: c(1) positive_def)
qed

definition sample_asset_row :: "string \<Rightarrow> string \<Rightarrow> row" where
  "sample_asset_row a status = (\<lambda>c. if c = ''asset_id'' then PStr a else if c = ''operational_status'' then PStr status
     else if c = ''updated_at'' then PTime 0 else PNone)"

definition sample_store :: element_world where
  "sample_store = \<lparr>ew_assets = [], ew_logged = [], ew_notes = [], ew_cells = [],
     ew_tables = (\<lambda>t. if t = ''telemetry_latest_state'' then [sample_asset_row ''a1'' ''destroyed'', sample_asset_row ''a2'' ''operational'']
        else if t = ''asset_element_telemetry'' then [sample_asset_row ''a1'' [], sample_asset_row ''a2'' []] else [])\<rparr>"

definition sample_pass :: element_world where
  "sample_pass = prune_pass (\<lambda>_. []) (\<lambda>_. Some 1) (map (Pair (1000, True)) (build_prune_targets sample_mappings)) sample_store"

lemma sample_statuses: "destroyed = PStr ''destroyed'' \<Longrightarrow> destroyed \<in> PStr ` set terminal_operational_statuses"
  "PStr ''operational'' \<notin> PStr ` set terminal_operational_statuses"
  by (auto simp: terminal_operational_statuses_def operational_status_destroyed_def operational_status_deactivated_def
      operational_status_removed_def)

theorem live_assets_kept_witness:
  "list_ex (\<lambda>r. r ''asset_id'' = PStr ''a2'') (ew_tables sample_pass ''asset_element_telemetry'')"
proof -
  have s: "map snd (map (Pair (1000 :: int, True)) (build_prune_targets sample_mappings)) = build_prune_targets sample_mappings"
    by (simp add: comp_def)
  have h: "\<forall>m\<in>set sample_mappings. mp_mode m = PStr ''append'' \<longrightarrow> py_str (\<lambda>_. []) (mp_table m) \<noteq> ''asset_element_telemetry''"
    by (simp add: sample_mappings_loaded)
  have sp: "spared (ew_tables sample_store) ''asset_element_telemetry'' (sample_asset_row ''a2'' [])"
    using sample_statuses(2)
    by (auto simp: spared_def terminal_asset_def terminal_row_def sample_store_def sample_asset_row_def lifecycle_table_def)
  have r: "sample_asset_row ''a2'' [] \<in> set (ew_tables sample_store ''asset_element_telemetry'')"
    by (simp add: sample_store_def)
  have ne: "''asset_element_telemetry'' \<noteq> ''inventory_items''" by simp
  have "sample_asset_row ''a2'' [] \<in> set (ew_tables sample_pass ''asset_element_telemetry'')"
    unfolding sample_pass_def by (rule mp [OF spec [OF conjunct1 [OF live_assets_kept [OF s ne h]]] conjI [OF r sp]])
  then show ?thesis unfolding list_ex_iff
    by (intro bexI [of _ "sample_asset_row ''a2'' []"]) (simp_all add: sample_asset_row_def)
qed

theorem one_pass_clears_witness:
  "\<not> list_ex (\<lambda>r. r ''asset_id'' = PStr ''a1'') (ew_tables sample_pass ''asset_element_telemetry'')"
proof -
  let ?r = "sample_asset_row ''a1'' []"
  have s: "map snd (map (Pair (1000 :: int, True)) (build_prune_targets sample_mappings)) = build_prune_targets sample_mappings"
    by (simp add: comp_def)
  have ok: "\<forall>st\<in>set (map (Pair (1000 :: int, True)) (build_prune_targets sample_mappings)). snd (fst st) \<and> 1000 \<le> fst (fst st)"
    by simp
  have m: "tables_named sample_mappings"
    by (simp add: sample_mappings_loaded tables_named_def)
  have due: "prunable 1000 1 ''asset_element_telemetry'' ''updated_at'' True (ew_tables sample_store) ?r"
    using sample_statuses(1) [OF refl]
    by (auto simp: prunable_def aged_def terminal_asset_def terminal_row_def sample_store_def sample_asset_row_def lifecycle_table_def)
  have t: "(PStr ''asset_element_telemetry'', ''updated_at'', PInt 24, True) \<in> set (upsert_targets sample_mappings)"
    by (simp add: sample_mappings_loaded upsert_targets_def custom_pruned_def non_asset_id_keyed_def)
  have hrs: "(\<lambda>_. Some 1) (PInt 24) = Some (1 :: rat)" by simp
  note one_pass_clears [OF s ok m, THEN conjunct1, rule_format, OF t hrs _ due]
  then have gone: "?r \<notin> set (ew_tables sample_pass ''asset_element_telemetry'')"
    by (simp only: sample_pass_def) simp
  have "set (ew_tables sample_pass ''asset_element_telemetry'') \<subseteq> set (ew_tables sample_store ''asset_element_telemetry'')"
    unfolding sample_pass_def by (rule prune_pass_subset)
  also have "\<dots> = {?r, sample_asset_row ''a2'' []}" by (simp add: sample_store_def)
  finally show ?thesis using gone by (auto simp: list_ex_iff sample_asset_row_def)
qed

end
