(* ===== verification/Sweeps.thy ===== *)
theory Sweeps
  imports Pg_Store Lifecycle
begin

text \<open>
  The staleness sweep over \<open>telemetry_latest_state\<close> (\<open>reporting_sweep.py\<close> and
  \<open>PostgresPool.sweep_reporting_staleness\<close>), and the contract every sweep of this program has.

  A sweep is one UPDATE whose WHERE clause its own SET clause falsifies. The locale \<open>sweep\<close> states
  that for a guard and an action on rows, and gives what follows for the whole table: no row is
  deleted or reordered, a row outside the guard is untouched, the count returned is the number of
  rows changed, and a second pass with the same or a later clock touches none of them again.
  The interpretations are on the row operations of the code: \<open>stale\<close> here, the effector timeout in
  \<open>Terminal\<close> and the two track sweeps in \<open>Munition_History\<close>.
\<close>

section \<open>The contract of a sweep\<close>

definition sweep_rows :: "('r \<Rightarrow> bool) \<Rightarrow> ('r \<Rightarrow> 'r) \<Rightarrow> 'r list \<Rightarrow> 'r list \<times> nat" where
  "sweep_rows guard act t =
     (map (\<lambda>r. if guard r then act r else r) t, length (filter guard t))"

locale sweep =
  fixes guard :: "int \<Rightarrow> 'r \<Rightarrow> bool"
    and act :: "int \<Rightarrow> 'r \<Rightarrow> 'r"
  assumes act_clears: "guard now r \<Longrightarrow> \<not> guard later (act now r)"
begin

lemma keeps_rows: "length (fst (sweep_rows (guard now) (act now) t)) = length t"
  by (simp add: sweep_rows_def)

lemma nth_swept:
  "i < length t \<Longrightarrow> fst (sweep_rows (guard now) (act now) t) ! i
     = (if guard now (t ! i) then act now (t ! i) else t ! i)"
  by (simp add: sweep_rows_def)

lemma nothing_due: "(\<forall>r \<in> set t. \<not> guard now r) \<Longrightarrow> sweep_rows (guard now) (act now) t = (t, 0)"
  by (induction t) (auto simp: sweep_rows_def)

lemma second_pass:
  assumes "\<And>r. r \<in> set t \<Longrightarrow> guard later r \<Longrightarrow> guard now r"
  shows "sweep_rows (guard later) (act later) (fst (sweep_rows (guard now) (act now) t))
      = (fst (sweep_rows (guard now) (act now) t), 0)"
  by (rule nothing_due) (use assms in \<open>auto simp: sweep_rows_def act_clears\<close>)

lemma same_clock:
  "sweep_rows (guard now) (act now) (fst (sweep_rows (guard now) (act now) t))
     = (fst (sweep_rows (guard now) (act now) t), 0)"
  by (rule second_pass)

lemma touched_once:
  "snd (sweep_rows (guard later) (act later) (fst (sweep_rows (guard now) (act now) t)))
     + snd (sweep_rows (guard now) (act now) t)
   = length (filter (\<lambda>r. guard now r \<or> guard later r) t)"
  by (induction t) (auto simp: sweep_rows_def act_clears)

end

section \<open>Times in a WHERE clause\<close>

text \<open>
  \<open>($n || ' seconds')::interval\<close>: Postgres keeps an interval in whole microseconds. A NULL column
  satisfies no comparison.
\<close>

definition interval_us :: "rat \<Rightarrow> int" where
  "interval_us s = round (s * 1000000)"

definition older_than :: "py \<Rightarrow> int \<Rightarrow> rat \<Rightarrow> bool" where
  "older_than v now s = (case v of PTime t \<Rightarrow> t < now - interval_us s | _ \<Rightarrow> False)"

lemma older_than_PTime [simp]: "older_than (PTime t) now s \<longleftrightarrow> t < now - interval_us s"
  by (simp add: older_than_def)

lemma older_than_PNone [simp]: "\<not> older_than PNone now s"
  by (simp add: older_than_def)

lemma older_than_mono: "older_than v now s \<Longrightarrow> now \<le> later \<Longrightarrow> older_than v later s"
  by (auto simp: older_than_def split: py.splits)

section \<open>The reporting sweep\<close>

definition sample_column :: string where "sample_column = ''last_sample_at''"
definition reporting_column :: string where "reporting_column = ''reporting_status''"
definition reporting_at_column :: string where "reporting_at_column = ''reporting_status_at''"

lemmas sweep_columns = sample_column_def reporting_column_def reporting_at_column_def

text \<open>\<open>WHERE sample < now - stale_after AND reporting != not_reporting\<close>\<close>

definition staleness_guard :: "rat \<Rightarrow> int \<Rightarrow> row \<Rightarrow> bool" where
  "staleness_guard stale_after_s now r \<longleftrightarrow>
     older_than (r sample_column) now stale_after_s
     \<and> r reporting_column \<noteq> PNone
     \<and> r reporting_column \<noteq> PStr reporting_status_not_reporting"

definition staleness_act :: "int \<Rightarrow> row \<Rightarrow> row" where
  "staleness_act now r =
     r(reporting_column := PStr reporting_status_not_reporting, reporting_at_column := PTime now)"

definition sweep_reporting_staleness :: "rat \<Rightarrow> int \<Rightarrow> table \<Rightarrow> table \<times> nat" where
  "sweep_reporting_staleness stale_after_s now t =
     sweep_rows (staleness_guard stale_after_s now) (staleness_act now) t"

interpretation stale: sweep "staleness_guard w" staleness_act for w
  by unfold_locales (simp add: staleness_guard_def staleness_act_def sweep_columns)

lemma staleness_act_frame:
  "c \<noteq> reporting_column \<Longrightarrow> c \<noteq> reporting_at_column \<Longrightarrow> staleness_act now r c = r c"
  by (simp add: staleness_act_def)

lemma staleness_lookup:
  assumes "reporting_column \<notin> set ks" "reporting_at_column \<notin> set ks"
  shows "lookup_row ks (fst (sweep_reporting_staleness w now t)) kv
    = map_option (\<lambda>r. if staleness_guard w now r then staleness_act now r else r)
        (lookup_row ks t kv)"
  unfolding sweep_reporting_staleness_def sweep_rows_def fst_conv
  by (rule lookup_row_map) (use assms in \<open>auto intro!: staleness_act_frame\<close>)

lemma interval_us_exact: "interval_us w = us \<Longrightarrow> w * 1000000 = of_int us \<Longrightarrow>
    (of_int d \<le> w * 1000000 \<longleftrightarrow> d \<le> interval_us w)"
  by simp

text \<open>
  C38. Where the sweep and the status function agree. For a window of whole microseconds, a row that reads reporting or
  not_reporting has after one sweep the status that \<open>compute_reporting_status\<close> gives for its own sample time (NULL is no
  sample) and this reader's clock, with exactly two exceptions: a row never sampled that
  reads reporting keeps reading so, and a row marked not_reporting although its sample is within the window is left
  for the next message to turn back. The sweep never turns a row back to reporting, it
  deletes no row, and the same pass repeated touches nothing.
\<close>

theorem sweep_agrees_with_status:
  assumes row: "r sample_column = (case s of None \<Rightarrow> PNone | Some x \<Rightarrow> PTime x)"
    and w: "w * 1000000 = of_int us"
    and st: "r reporting_column \<in> {PStr reporting_status_reporting, PStr reporting_status_not_reporting}"
    and t: "i < length t" "t ! i = r"
    and swept: "swept = fst (sweep_reporting_staleness w now t)"
  shows "((swept ! i) reporting_column = PStr (compute_reporting_status s now w) \<longleftrightarrow>
        \<not> (s = None \<and> r reporting_column = PStr reporting_status_reporting)
        \<and> \<not> (compute_reporting_status s now w = reporting_status_reporting
              \<and> r reporting_column = PStr reporting_status_not_reporting))
    \<and> (r reporting_column = PStr reporting_status_not_reporting \<longrightarrow>
        (swept ! i) reporting_column = PStr reporting_status_not_reporting)
    \<and> length swept = length t \<and> sweep_reporting_staleness w now swept = (swept, 0)"
proof -
  have us: "interval_us w = us" using w by (simp add: interval_us_def)
  have old: "total_seconds (now - x) > w \<longleftrightarrow> x < now - us" for x
  proof -
    have "total_seconds (now - x) > w \<longleftrightarrow> (of_int (now - x) :: rat) > of_int us"
      unfolding total_seconds_def w [symmetric] by (simp add: field_simps)
    then show ?thesis by auto
  qed
  let ?stale = "case s of None \<Rightarrow> False | Some x \<Rightarrow> x < now - us"
  let ?rep = "PStr reporting_status_reporting" and ?not = "PStr reporting_status_not_reporting"
  have c: "compute_reporting_status s now w
      = (if s = None \<or> ?stale then reporting_status_not_reporting else reporting_status_reporting)"
    by (cases s) (simp_all add: compute_reporting_status_def old)
  have neq: "reporting_status_reporting \<noteq> reporting_status_not_reporting" by (simp add: status_defs)
  have "staleness_guard w now r \<longleftrightarrow> ?stale \<and> r reporting_column = ?rep"
    using st row us neq by (cases s) (auto simp: staleness_guard_def)
  then have i: "(swept ! i) reporting_column = (if ?stale \<and> r reporting_column = ?rep then ?not else r reporting_column)"
    using t by (simp add: swept sweep_reporting_staleness_def stale.nth_swept staleness_act_def sweep_columns)
  have "((swept ! i) reporting_column = PStr (compute_reporting_status s now w) \<longleftrightarrow>
        \<not> (s = None \<and> r reporting_column = ?rep)
        \<and> \<not> (compute_reporting_status s now w = reporting_status_reporting \<and> r reporting_column = ?not))
    \<and> (r reporting_column = ?not \<longrightarrow> (swept ! i) reporting_column = ?not)"
    unfolding i c using st neq by (cases s) auto
  then show ?thesis
    using stale.keeps_rows [of w now t] stale.same_clock [of w now t]
    by (simp add: swept sweep_reporting_staleness_def)
qed

text \<open>
  A row whose sample time is NULL is outside the sweep's WHERE clause at every clock, while
  \<open>compute_reporting_status\<close> reads it as not_reporting.
\<close>

lemma never_sampled_never_swept:
  assumes "r sample_column = PNone"
  shows "\<not> staleness_guard w now r"
    and "compute_reporting_status None now w = reporting_status_not_reporting"
  using assms by (simp_all add: staleness_guard_def compute_reporting_status_def)

text \<open>
  A row that never carried a sample time keeps reading reporting for ever: no number of sweeps,
  at whatever clock readings, changes it, although the status function reads an asset that was
  never sampled as not_reporting.
\<close>

lemma never_sampled_stays_reporting:
  assumes "r sample_column = PNone" "r reporting_column = PStr reporting_status_reporting"
  shows "fold (\<lambda>now t. fst (sweep_reporting_staleness w now t)) clocks [r] = [r]
    \<and> r reporting_column \<noteq> PStr (compute_reporting_status None now w)"
proof
  have "fst (sweep_reporting_staleness w now [r]) = [r]" for now
    using assms(1)
    by (simp add: sweep_reporting_staleness_def sweep_rows_def staleness_guard_def)
  then show "fold (\<lambda>now t. fst (sweep_reporting_staleness w now t)) clocks [r] = [r]"
    by (induction clocks) auto
  show "r reporting_column \<noteq> PStr (compute_reporting_status None now w)"
    using assms(2) by (simp add: compute_reporting_status_def status_defs)
qed

definition sampled_row :: row where
  "sampled_row = (\<lambda>_. PNone)(sample_column := PTime 0,
     reporting_column := PStr reporting_status_reporting)"

theorem sweep_agrees_with_status_witness:
  "(fst (sweep_reporting_staleness 30 30000001 [sampled_row]) ! 0) reporting_column = PStr ''not_reporting''
   \<and> (fst (sweep_reporting_staleness 30 30000001 [sampled_row(sample_column := PNone)]) ! 0) reporting_column \<noteq> PStr ''not_reporting''"
  using sweep_agrees_with_status [of sampled_row "Some 0" 30 30000000 0 "[sampled_row]" _ 30000001, OF _ _ _ _ _ refl]
    sweep_agrees_with_status [of "sampled_row(sample_column := PNone)" None 30 30000000 0 "[sampled_row(sample_column := PNone)]" _ 30000001,
      OF _ _ _ _ _ refl]
  by (simp add: sampled_row_def sweep_columns compute_reporting_status_def total_seconds_def status_defs)

end
