(* ===== verification/Terminal.thy ===== *)
theory Terminal
  imports Sweeps
begin

text \<open>
  The life of a launch row and of a munition track: in flight, provisionally closed by a timer,
  or closed by a real detonation. The two tables use different words (\<open>unresolved\<close>, \<open>silent\<close>)
  and different code, and keep the same contract, stated once as the locale \<open>terminal_machine\<close>:
  a real result is final, a timer only ever closes what is in flight, and a real result replaces a
  timer's guess. Here also the DIS vocabulary of \<open>handlers/effector_launch.py\<close>
  (\<open>terminal_state_for\<close>, \<open>munition_type_key\<close>), the launch table's two operations
  \<open>apply_effector_detonation\<close> and \<open>sweep_effector_timeouts\<close>, and \<open>row_exists\<close>.
\<close>

section \<open>The contract\<close>

datatype phase = InFlight | Provisional | Final

text \<open>A row moves up this order only.\<close>

fun phase_rank :: "phase \<Rightarrow> nat" where
  "phase_rank InFlight = 0"
| "phase_rank Provisional = 1"
| "phase_rank Final = 2"

instantiation phase :: linorder
begin

definition less_eq_phase :: "phase \<Rightarrow> phase \<Rightarrow> bool" where
  "less_eq_phase p q \<longleftrightarrow> phase_rank p \<le> phase_rank q"

definition less_phase :: "phase \<Rightarrow> phase \<Rightarrow> bool" where
  "less_phase p q \<longleftrightarrow> phase_rank p < phase_rank q"

instance
proof
  show "p \<le> q \<Longrightarrow> q \<le> p \<Longrightarrow> p = q" for p q :: phase
    by (cases p; cases q) (simp_all add: less_eq_phase_def)
qed (auto simp: less_eq_phase_def less_phase_def)

end

lemma phase_ends [simp]: "InFlight \<le> p" "p \<le> Final"
  by (cases p; simp add: less_eq_phase_def)+

datatype 'd event = Settle 'd | Expire int

locale terminal_machine =
  fixes phase :: "'r \<Rightarrow> phase"
    and settle :: "'d \<Rightarrow> 'r \<Rightarrow> 'r"
    and expire :: "int \<Rightarrow> 'r \<Rightarrow> 'r"
    and real :: "'d \<Rightarrow> bool"
  assumes settle_final: "phase r = Final \<Longrightarrow> settle d r = r"
    and settle_open: "real d \<Longrightarrow> phase r \<noteq> Final \<Longrightarrow> phase (settle d r) = Final"
    and expire_closed: "phase r \<noteq> InFlight \<Longrightarrow> expire now r = r"
    and expire_open: "phase r = InFlight \<Longrightarrow> phase (expire now r) \<noteq> Final"
begin

primrec step :: "'d event \<Rightarrow> 'r \<Rightarrow> 'r" where
  "step (Settle d) r = settle d r"
| "step (Expire now) r = expire now r"

lemma final_step: "phase r = Final \<Longrightarrow> step e r = r"
  by (cases e) (auto simp: settle_final expire_closed)

lemma final_stable: "phase r = Final \<Longrightarrow> fold step es r = r"
  by (induction es) (auto simp: final_step)

lemma expiry_never_final:
  "phase r \<noteq> Final \<Longrightarrow> (\<forall>e \<in> set es. \<exists>now. e = Expire now) \<Longrightarrow> phase (fold step es r) \<noteq> Final"
proof (induction es arbitrary: r)
  case (Cons e es)
  then obtain now where e: "e = Expire now" by auto
  have "phase (expire now r) \<noteq> Final"
    using Cons.prems(1) expire_closed [of r now] expire_open [of r now] by (cases "phase r") auto
  with Cons e show ?case by simp
qed simp

text \<open>No call takes a row back.\<close>

lemma step_up: "(\<And>d. e = Settle d \<Longrightarrow> real d) \<Longrightarrow> phase r \<le> phase (step e r)"
  using expire_closed [of r] by (cases e; cases "phase r") (auto simp: settle_open settle_final)

lemma never_back: "(\<forall>d. Settle d \<in> set es \<longrightarrow> real d) \<Longrightarrow> phase r \<le> phase (fold step es r)"
proof (induction es arbitrary: r)
  case (Cons e es)
  then have "phase r \<le> phase (step e r)" "phase (step e r) \<le> phase (fold step es (step e r))"
    using step_up [of e r] by simp_all
  then show ?case by simp
qed simp

text \<open>The first real result decides, whatever timers ran before it and whatever comes after.\<close>

lemma first_result_decides:
  assumes "real d" "phase r \<noteq> Final" "\<forall>e \<in> set es. \<exists>now. e = Expire now"
  shows "fold step (es @ Settle d # fs) r = settle d (fold step es r)"
proof -
  have "phase (settle d (fold step es r)) = Final"
    by (rule settle_open [OF assms(1)]) (rule expiry_never_final [OF assms(2,3)])
  then show ?thesis by (simp add: final_stable)
qed

lemma final_iff_settled:
  "phase r \<noteq> Final \<Longrightarrow> (\<forall>d. Settle d \<in> set es \<longrightarrow> real d) \<Longrightarrow>
     phase (fold step es r) = Final \<longleftrightarrow> (\<exists>d. Settle d \<in> set es)"
proof (induction es arbitrary: r)
  case (Cons e es)
  show ?case
  proof (cases e)
    case (Settle d)
    with Cons.prems have "phase (step e r) = Final" by (simp add: settle_open)
    then have "phase (fold step es (step e r)) = Final" by (simp add: final_stable)
    with Settle show ?thesis by auto
  next
    case (Expire now)
    have "phase (expire now r) \<noteq> Final"
      using Cons.prems expire_closed [of r now] expire_open [of r now] by (cases "phase r") auto
    with Expire Cons.prems Cons.IH [of "expire now r"] show ?thesis by simp
  qed
qed simp

end

section \<open>The DIS vocabulary\<close>

definition terminal_map :: "(int \<times> string) list" where
  "terminal_map = [(1, ''entity_impact''), (3, ''ground_impact''), (2, ''detonated''),
     (4, ''detonated''), (5, ''detonated''), (6, ''dud'')]"

definition terminal_state_of_code :: "int \<Rightarrow> string" where
  "terminal_state_of_code code =
     (case map_of terminal_map code of None \<Rightarrow> ''other'' | Some s \<Rightarrow> s)"

definition terminal_state_for :: "py \<Rightarrow> string res" where
  "terminal_state_for v =
     (case py_int v of
        Inr code \<Rightarrow> Inr (terminal_state_of_code code)
      | Inl e \<Rightarrow> if e = TypeError \<or> e = ValueError then Inr ''other'' else Inl e)"

text \<open>\<open>munition_type_key\<close>: seven components, each \<open>int()\<close> of the value or 0 when absent.\<close>

definition munition_components :: "string list" where
  "munition_components =
     [''kind'', ''domain'', ''country'', ''category'', ''subcategory'', ''specific'', ''extra'']"

definition dotted :: "int list \<Rightarrow> string" where
  "dotted is = join ''.'' (map show_int is)"

definition munition_type_key :: "py \<Rightarrow> string res" where
  "munition_type_key munition_type =
     (case or_empty munition_type of
        PDict d \<Rightarrow>
          rbind (rmap (\<lambda>c. py_int (dget_or d c (PInt 0))) munition_components)
            (\<lambda>is. Inr (dotted is))
      | _ \<Rightarrow> Inl AttributeError)"

lemma map_of_terminal_map:
  "map_of terminal_map code = Some s \<Longrightarrow> s \<in> {''entity_impact'', ''ground_impact'', ''detonated'', ''dud''}"
  by (simp add: terminal_map_def split: if_splits)

lemma terminal_state_of_code_vocabulary:
  "terminal_state_of_code code
     \<in> {''entity_impact'', ''ground_impact'', ''detonated'', ''dud'', ''other''}"
  using map_of_terminal_map [of code] by (cases "map_of terminal_map code")
    (auto simp: terminal_state_of_code_def)

lemma terminal_state_not_provisional:
  "terminal_state_of_code code \<noteq> ''unresolved''" "terminal_state_of_code code \<noteq> ''silent''"
  using terminal_state_of_code_vocabulary [of code] by auto

lemma dotted_inj:
  assumes "dotted is = dotted js" "is \<noteq> []" "js \<noteq> []"
  shows "is = js"
proof -
  have "split_on (CHR ''.'') (dotted ks) = map show_int ks" if "ks \<noteq> []" for ks
    unfolding dotted_def by (rule split_on_join) (use that show_int_no_dot in auto)
  with assms have "map show_int is = map show_int js" by metis
  then show ?thesis by (rule map_injective) (auto intro: injI show_int_inj)
qed

section \<open>The launch table\<close>

definition phase_of :: "string \<Rightarrow> row \<Rightarrow> phase" where
  "phase_of provisional r =
     (if r ''terminal_state'' = PNone then InFlight
      else if r ''terminal_state'' = PStr provisional then Provisional else Final)"

text \<open>What a detonation carries: its code, its time and the clock of the tier that applies it.\<close>

record detonation =
  d_state :: string
  d_result :: int
  d_terminated_at :: py
  d_now :: int

definition real_detonation :: "detonation \<Rightarrow> bool" where
  "real_detonation d \<longleftrightarrow> d_state d \<noteq> ''unresolved'' \<and> d_state d \<noteq> ''silent''"

text \<open>The SET list shared by the two UPDATEs; \<open>late\<close> tells whether a timer closed the row first.\<close>

definition close_row :: "detonation \<Rightarrow> bool \<Rightarrow> row \<Rightarrow> row" where
  "close_row d late r = r(''terminal_state'' := PStr (d_state d),
     ''detonation_result'' := PInt (d_result d), ''terminated_at'' := d_terminated_at d,
     ''late_terminal'' := PBool late, ''updated_at'' := PTime (d_now d))"

datatype detonation_outcome = Updated | Late | Replayed | Conflicting | NoFire

definition update_where :: "string \<Rightarrow> py \<Rightarrow> (row \<Rightarrow> row) \<Rightarrow> table \<Rightarrow> table" where
  "update_where c v f t = map (\<lambda>r. if r c = v \<and> v \<noteq> PNone then f r else r) t"

definition select_one :: "string \<Rightarrow> py \<Rightarrow> table \<Rightarrow> row option" where
  "select_one c v t = List.find (\<lambda>r. r c = v \<and> v \<noteq> PNone) t"

definition row_exists :: "string \<Rightarrow> py \<Rightarrow> table \<Rightarrow> bool" where
  "row_exists c v t \<longleftrightarrow> list_ex (\<lambda>r. r c = v \<and> v \<noteq> PNone) t"

definition apply_effector_detonation ::
  "py \<Rightarrow> detonation \<Rightarrow> table \<Rightarrow> (detonation_outcome \<times> py) \<times> table" where
  "apply_effector_detonation event_urn d t =
     (case select_one ''event_urn'' event_urn t of
        None \<Rightarrow> ((NoFire, PNone), t)
      | Some r \<Rightarrow>
          (let old_state = r ''terminal_state''; old_result = r ''detonation_result'' in
           if old_state \<noteq> PNone \<and> old_state \<noteq> PStr ''unresolved'' then
             (if old_result = PInt (d_result d) then ((Replayed, old_result), t)
              else ((Conflicting, old_result), t))
           else
             (let late = (old_state = PStr ''unresolved'') in
              ((if late then Late else Updated, old_result),
               update_where ''event_urn'' event_urn (close_row d late) t))))"

definition effector_guard :: "rat \<Rightarrow> int \<Rightarrow> row \<Rightarrow> bool" where
  "effector_guard timeout_s now r \<longleftrightarrow>
     r ''terminal_state'' = PNone \<and> older_than (r ''launched_at'') now timeout_s"

definition effector_act :: "int \<Rightarrow> row \<Rightarrow> row" where
  "effector_act now r = r(''terminal_state'' := PStr ''unresolved'',
     ''terminated_at'' := PTime now, ''updated_at'' := PTime now)"

definition sweep_effector_timeouts :: "rat \<Rightarrow> int \<Rightarrow> table \<Rightarrow> table \<times> nat" where
  "sweep_effector_timeouts timeout_s now t =
     sweep_rows (effector_guard timeout_s now) (effector_act now) t"

interpretation effector_sweep: sweep "effector_guard w" effector_act for w
  by unfold_locales (simp add: effector_guard_def effector_act_def)

text \<open>The effect of either operation on one row.\<close>

definition settle_row :: "string \<Rightarrow> detonation \<Rightarrow> row \<Rightarrow> row" where
  "settle_row provisional d r =
     (if phase_of provisional r = Final then r
      else close_row d (phase_of provisional r = Provisional) r)"

definition expire_launch :: "rat \<Rightarrow> int \<Rightarrow> row \<Rightarrow> row" where
  "expire_launch timeout_s now r =
     (if effector_guard timeout_s now r then effector_act now r else r)"

lemma close_row_phase:
  "real_detonation d \<Longrightarrow> p \<in> {''unresolved'', ''silent''} \<Longrightarrow> phase_of p (close_row d l r) = Final"
  by (auto simp: phase_of_def close_row_def real_detonation_def)

lemma phase_of_iff:
  "phase_of p r = InFlight \<longleftrightarrow> r ''terminal_state'' = PNone"
  "phase_of p r = Provisional \<longleftrightarrow> r ''terminal_state'' = PStr p"
  "phase_of p r = Final \<longleftrightarrow> r ''terminal_state'' \<noteq> PNone \<and> r ''terminal_state'' \<noteq> PStr p"
  by (auto simp: phase_of_def)

lemma settle_row_phase:
  "real_detonation d \<Longrightarrow> p \<in> {''unresolved'', ''silent''} \<Longrightarrow> phase_of p (settle_row p d r) = Final"
  using close_row_phase [of d p] by (auto simp: settle_row_def)

interpretation launch: terminal_machine "phase_of ''unresolved''" "settle_row ''unresolved''"
    "expire_launch w" real_detonation for w
proof unfold_locales
  show "phase_of ''unresolved'' r = Final \<Longrightarrow> settle_row ''unresolved'' d r = r" for r d
    by (simp add: settle_row_def)
  show "real_detonation d \<Longrightarrow> phase_of ''unresolved'' r \<noteq> Final \<Longrightarrow>
      phase_of ''unresolved'' (settle_row ''unresolved'' d r) = Final" for r d
    by (rule settle_row_phase) simp_all
  show "phase_of ''unresolved'' r \<noteq> InFlight \<Longrightarrow> expire_launch w now r = r" for r now
    by (simp add: phase_of_iff expire_launch_def effector_guard_def)
  show "phase_of ''unresolved'' r = InFlight \<Longrightarrow> phase_of ''unresolved'' (expire_launch w now r) \<noteq> Final"
    for r now
    by (simp add: phase_of_iff expire_launch_def effector_act_def)
qed

section \<open>One row of a keyed table\<close>

lemma select_one_lookup: "v \<noteq> PNone \<Longrightarrow> select_one c v t = lookup_row [c] t [v]"
  by (simp add: select_one_def lookup_row_def)

lemma lookup_update_where:
  assumes "\<And>r. f r c = r c" "v \<noteq> PNone"
  shows "lookup_row [c] (update_where c v f t) [k]
    = (if k = v then map_option f (lookup_row [c] t [k]) else lookup_row [c] t [k])"
  using assms by (induction t) (auto simp: update_where_def lookup_row_Cons)

lemma close_row_frame:
  "c \<notin> {''terminal_state'', ''detonation_result'', ''terminated_at'', ''late_terminal'', ''updated_at''}
     \<Longrightarrow> close_row d l r c = r c"
  by (simp add: close_row_def)

lemma detonation_row:
  assumes "urn \<noteq> PNone"
  shows "lookup_row [''event_urn''] (snd (apply_effector_detonation urn d t)) [k]
    = (if k = urn then map_option (settle_row ''unresolved'' d) (lookup_row [''event_urn''] t [k])
       else lookup_row [''event_urn''] t [k])"
proof (cases "lookup_row [''event_urn''] t [urn]")
  case None
  then show ?thesis using assms by (simp add: apply_effector_detonation_def select_one_lookup)
next
  case (Some r)
  have upd: "lookup_row [''event_urn''] (update_where ''event_urn'' urn (close_row d l) t) [k]
      = (if k = urn then map_option (close_row d l) (lookup_row [''event_urn''] t [k])
         else lookup_row [''event_urn''] t [k])" for l k
    by (rule lookup_update_where) (simp_all add: close_row_frame assms)
  have "snd (apply_effector_detonation urn d t)
      = (if phase_of ''unresolved'' r = Final then t
         else update_where ''event_urn'' urn (close_row d (phase_of ''unresolved'' r = Provisional)) t)"
    using Some assms
    by (simp add: apply_effector_detonation_def select_one_lookup Let_def phase_of_def)
  with Some show ?thesis by (cases "k = urn") (simp_all add: upd settle_row_def)
qed

lemma sweep_effector_row:
  "lookup_row [''event_urn''] (fst (sweep_effector_timeouts w now t)) kv
     = map_option (expire_launch w now) (lookup_row [''event_urn''] t kv)"
proof -
  have "expire_launch w now r ''event_urn'' = r ''event_urn''" for r
    by (simp add: expire_launch_def effector_act_def)
  then show ?thesis
    unfolding sweep_effector_timeouts_def sweep_rows_def fst_conv expire_launch_def
    by (intro lookup_row_map) simp
qed


section \<open>A launch through any history\<close>

text \<open>The calls that touch the launch table after the Fire: a detonation of some URN, a timer pass.\<close>

datatype launch_call = Detonate string detonation | Timeout int

primrec run_launch_call :: "rat \<Rightarrow> launch_call \<Rightarrow> table \<Rightarrow> table" where
  "run_launch_call w (Detonate u d) t = snd (apply_effector_detonation (PStr u) d t)"
| "run_launch_call w (Timeout now) t = fst (sweep_effector_timeouts w now t)"

fun events_for :: "string \<Rightarrow> launch_call list \<Rightarrow> detonation event list" where
  "events_for u [] = []"
| "events_for u (Detonate v d # cs) = (if v = u then Settle d # events_for u cs else events_for u cs)"
| "events_for u (Timeout now # cs) = Expire now # events_for u cs"

lemma events_for_append: "events_for u (cs @ ds) = events_for u cs @ events_for u ds"
  by (induction u cs rule: events_for.induct) auto

lemma events_for_expiries:
  "(\<forall>d. Detonate u d \<notin> set cs) \<Longrightarrow> \<forall>e \<in> set (events_for u cs). \<exists>now. e = Expire now"
  by (induction u cs rule: events_for.induct) auto

lemma launch_calls_row:
  "lookup_row [''event_urn''] (fold (run_launch_call w) cs t) [PStr u]
     = map_option (fold (launch.step w) (events_for u cs)) (lookup_row [''event_urn''] t [PStr u])"
proof (induction cs arbitrary: t)
  case Nil
  show ?case by (simp add: option.map_id0 id_def [symmetric])
next
  case (Cons c cs)
  show ?case
    by (cases c)
      (auto simp: Cons.IH detonation_row sweep_effector_row option.map_comp comp_def
        intro!: option.map_cong)
qed

lemma events_for_settles: "Settle d \<in> set (events_for u cs) \<longleftrightarrow> Detonate u d \<in> set cs"
  by (induction u cs rule: events_for.induct) auto

text \<open>A launch that was closed is never in flight again, and one that was decided never open again.\<close>

lemma launch_never_back:
  assumes "lookup_row [''event_urn''] t [PStr u] = Some r" "\<forall>d. Detonate u d \<in> set cs \<longrightarrow> real_detonation d"
  shows "\<exists>r'. lookup_row [''event_urn''] (fold (run_launch_call w) cs t) [PStr u] = Some r'
    \<and> phase_of ''unresolved'' r \<le> phase_of ''unresolved'' r'"
  using launch_calls_row [of w cs t u] launch.never_back [of "events_for u cs" r w] assms
  by (auto simp: events_for_settles)

definition timer_fires :: "rat \<Rightarrow> row \<Rightarrow> detonation event list \<Rightarrow> bool" where
  "timer_fires w r es \<longleftrightarrow> (\<exists>now. Expire now \<in> set es \<and> effector_guard w now r)"

lemma expiries_row:
  assumes "\<forall>e \<in> set es. \<exists>now. e = Expire now" "r ''terminal_state'' = PNone"
  shows "phase_of ''unresolved'' (fold (launch.step w) es r)
      = (if timer_fires w r es then Provisional else InFlight)
    \<and> (\<forall>c. c \<notin> {''terminal_state'', ''terminated_at'', ''updated_at''} \<longrightarrow>
         fold (launch.step w) es r c = r c)"
  using assms
proof (induction es arbitrary: r)
  case (Cons e es)
  then obtain now where e: "e = Expire now" by auto
  show ?case
  proof (cases "effector_guard w now r")
    case True
    have "fold (launch.step w) es (effector_act now r) = effector_act now r"
    proof -
      have stay: "expire_launch w n (effector_act now r) = effector_act now r" for n
        by (simp add: expire_launch_def effector_guard_def effector_act_def)
      have "\<forall>e \<in> set es. \<exists>n. e = Expire n" using Cons.prems by simp
      then show ?thesis by (induction es) (auto simp: stay)
    qed
    moreover have "launch.step w e r = effector_act now r"
      using True e by (simp add: expire_launch_def [of w now r])
    ultimately have "fold (launch.step w) (e # es) r = effector_act now r" by simp
    moreover have "timer_fires w r (e # es)" using True e by (auto simp: timer_fires_def)
    ultimately show ?thesis
      by (simp only:) (simp add: phase_of_def effector_act_def)
  next
    case False
    then have "timer_fires w r (e # es) = timer_fires w r es"
      using e by (auto simp: timer_fires_def)
    moreover have "launch.step w e r = r" using False e by (simp add: expire_launch_def [of w now r])
    ultimately show ?thesis using Cons by simp
  qed
qed (simp add: phase_of_def timer_fires_def)

lemma timer_fires_calls:
  "timer_fires w r (events_for u cs) \<longleftrightarrow> (\<exists>now. Timeout now \<in> set cs \<and> effector_guard w now r)"
proof -
  have "Expire now \<in> set (events_for u cs) \<longleftrightarrow> Timeout now \<in> set cs" for now
    by (induction u cs rule: events_for.induct) auto
  then show ?thesis by (simp add: timer_fires_def)
qed

text \<open>
  C11. The first detonation of a launch decides its row, whatever else happens to the table: timer
  passes at any clock readings and detonations of other launches before it, and any calls after it,
  replayed or conflicting detonations of the same launch included. The row then carries that
  detonation's state and result, late_terminal is true exactly when a timer pass had closed the row
  first, and every column the two operations do not own is unchanged.
\<close>

theorem launch_first_result_decides:
  assumes row: "lookup_row [''event_urn''] t [PStr u] = Some r" "r ''terminal_state'' = PNone"
    and first: "\<forall>d'. Detonate u d' \<notin> set before" and real: "real_detonation d"
  shows "\<exists>r'. lookup_row [''event_urn'']
        (fold (run_launch_call w) (before @ Detonate u d # after) t) [PStr u] = Some r'
    \<and> r' ''terminal_state'' = PStr (d_state d) \<and> r' ''detonation_result'' = PInt (d_result d)
    \<and> r' ''terminated_at'' = d_terminated_at d
    \<and> r' ''late_terminal'' = PBool (\<exists>now. Timeout now \<in> set before \<and> effector_guard w now r)
    \<and> (\<forall>c. c \<notin> {''terminal_state'', ''detonation_result'', ''terminated_at'',
                 ''late_terminal'', ''updated_at''} \<longrightarrow> r' c = r c)"
proof -
  let ?es = "events_for u before" and ?fs = "events_for u after"
  have exp: "\<forall>e \<in> set ?es. \<exists>now. e = Expire now" by (rule events_for_expiries [OF first])
  have "phase_of ''unresolved'' r \<noteq> Final" using row(2) by (simp add: phase_of_def)
  from launch.first_result_decides [OF real this exp, of w ?fs]
  have "fold (launch.step w) (?es @ Settle d # ?fs) r
      = settle_row ''unresolved'' d (fold (launch.step w) ?es r)" .
  then have look: "lookup_row [''event_urn'']
      (fold (run_launch_call w) (before @ Detonate u d # after) t) [PStr u]
      = Some (settle_row ''unresolved'' d (fold (launch.step w) ?es r))"
    using launch_calls_row [of w "before @ Detonate u d # after" t u] row(1)
    by (simp add: events_for_append)
  show ?thesis
    using look expiries_row [where w = w and es = ?es and r = r, OF exp row(2)]
    by (auto simp: settle_row_def close_row_def timer_fires_calls)
qed

text \<open>
  What \<open>apply_effector_detonation\<close> reports is what it did: it changes the table exactly for
  the outcomes updated and late, no_fire is reported exactly when no row carries the URN, late
  exactly when a timer had closed the row, replayed exactly for the same result on a closed row and
  conflicting exactly for a different one, and in every case the value returned beside the outcome is the
  result the row held before.
\<close>

lemma detonation_outcomes:
  assumes "u \<noteq> PNone"
  shows "let ((out, old), t') = apply_effector_detonation u d t in
     (case lookup_row [''event_urn''] t [u] of
        None \<Rightarrow> out = NoFire \<and> old = PNone \<and> t' = t
      | Some r \<Rightarrow> old = r ''detonation_result''
          \<and> (out = Updated \<longleftrightarrow> r ''terminal_state'' = PNone)
          \<and> (out = Late \<longleftrightarrow> r ''terminal_state'' = PStr ''unresolved'')
          \<and> (out = Replayed \<longleftrightarrow> phase_of ''unresolved'' r = Final
               \<and> r ''detonation_result'' = PInt (d_result d))
          \<and> (out = Conflicting \<longleftrightarrow> phase_of ''unresolved'' r = Final
               \<and> r ''detonation_result'' \<noteq> PInt (d_result d))
          \<and> (out \<in> {Replayed, Conflicting} \<longrightarrow> t' = t)
          \<and> (out \<in> {Updated, Late} \<longrightarrow>
               lookup_row [''event_urn''] t' [u] = Some (close_row d (out = Late) r)))"
  using assms lookup_update_where [of "close_row d l" "''event_urn''" u t u for l]
  by (auto simp: apply_effector_detonation_def select_one_lookup Let_def phase_of_def close_row_frame
      split: option.split)

text \<open>
  Two munition types get the same key only when all seven of their DIS components are the same
  integers, and the key is exactly the seven decimal numerals in the order kind, domain, country,
  category, subcategory, specific, extra, separated by dots, an absent component read as 0.
\<close>

lemma munition_type_key_exact:
  assumes "munition_type_key (PDict a) = Inr k" "munition_type_key (PDict b) = Inr l"
  shows "(k = l \<longleftrightarrow> (\<forall>c \<in> set munition_components.
            py_int (dget_or a c (PInt 0)) = py_int (dget_or b c (PInt 0))))
    \<and> length (split_on (CHR ''.'') k) = 7
    \<and> map read_int (split_on (CHR ''.'') k)
        = map (\<lambda>c. case py_int (dget_or a c (PInt 0)) of Inr i \<Rightarrow> Some i | Inl _ \<Rightarrow> None)
            munition_components"
proof -
  let ?f = "\<lambda>d c. py_int (dget_or d c (PInt 0))"
  from assms obtain as bs where
    as: "rmap (?f a) munition_components = Inr as" "k = dotted as" and
    bs: "rmap (?f b) munition_components = Inr bs" "l = dotted bs"
    by (auto simp: munition_type_key_def or_empty_dict res_simps)
  have len: "length as = 7" "length bs = 7"
    using rmap_length [OF as(1)] rmap_length [OF bs(1)] by (simp_all add: munition_components_def)
  have ne: "as \<noteq> []" "bs \<noteq> []" using len by auto
  have "k = l \<longleftrightarrow> as = bs" using dotted_inj ne as(2) bs(2) by blast
  moreover have "as = bs \<longleftrightarrow> (\<forall>c \<in> set munition_components. ?f a c = ?f b c)"
    by (rule rmap_eq_iff [OF as(1) bs(1)])
  moreover have split: "split_on (CHR ''.'') k = map show_int as"
    unfolding as(2) dotted_def by (rule split_on_join) (use ne show_int_no_dot in auto)
  moreover have "map read_int (map show_int as)
      = map (\<lambda>c. case ?f a c of Inr i \<Rightarrow> Some i | Inl _ \<Rightarrow> None) munition_components"
    using rmap_values [OF as(1)] by (simp add: read_int_show_int comp_def)
  ultimately show ?thesis using len by simp
qed

section \<open>Witnesses\<close>

definition flying :: row where
  "flying = (\<lambda>_. PNone)(''event_urn'' := PStr ''u'', ''launched_at'' := PTime 0)"

definition hit_report :: detonation where
  "hit_report = \<lparr>d_state = ''entity_impact'', d_result = 1, d_terminated_at = PTime 9, d_now = 10\<rparr>"

lemma flying_found: "lookup_row [''event_urn''] [flying] [PStr ''u''] = Some flying"
  by (simp add: lookup_row_Cons flying_def)

lemma flying_in_flight: "flying ''terminal_state'' = PNone"
  by (simp add: flying_def)

lemma hit_report_real: "real_detonation hit_report"
  by (simp add: real_detonation_def hit_report_def)

theorem launch_first_result_decides_witness:
  "\<exists>r'. lookup_row [''event_urn''] (fold (run_launch_call 1)
       ([Timeout 2000000] @ Detonate ''u'' hit_report # [Timeout 9000000]) [flying]) [PStr ''u''] = Some r'
     \<and> r' ''terminal_state'' = PStr ''entity_impact'' \<and> r' ''late_terminal'' = PBool True"
proof -
  have guard: "effector_guard 1 2000000 flying"
    by (simp add: effector_guard_def flying_def interval_us_def)
  have "\<forall>d'. Detonate ''u'' d' \<notin> set [Timeout 2000000]" by simp
  from launch_first_result_decides [OF flying_found flying_in_flight this hit_report_real, of 1 "[Timeout 9000000]"]
  show ?thesis using guard by (auto simp: hit_report_def)
qed

end
