(* ===== verification/Declared_Load.thy ===== *)
theory Declared_Load
  imports Terminal
begin

text \<open>
  \<open>effector_declared_load.py\<close>: the startup load of the declared munitions, and the transaction
  \<open>PostgresPool.replace_effector_declared_load\<close>.

  The parsed file is what \<open>yaml.safe_load\<close> returns, with text keys; \<open>exc.ConfigError\<close> stands for
  \<open>DeclaredLoadConfigError\<close>. The characters of a text are bytes, so the digits of other scripts that \<open>\d\<close>
  also accepts do not occur.
\<close>

section \<open>The file\<close>

record declared_row =
  dl_load_key :: string
  dl_key_kind :: string
  dl_munition_type :: string
  dl_declared :: int

definition key_kinds :: "string list" where
  "key_kinds = [''asset'', ''variant'']"

text \<open>
  \<open>_MUNITION_KEY_RE\<close>: seven runs of digits with dots between them; \<open>$\<close> also matches before a line feed at
  the end.
\<close>

definition all_digits :: "string \<Rightarrow> bool" where
  "all_digits s \<longleftrightarrow> s \<noteq> [] \<and> list_all (\<lambda>c. digit_of c \<noteq> None) s"

definition seven_numbers :: "string \<Rightarrow> bool" where
  "seven_numbers s \<longleftrightarrow> length (split_on (CHR ''.'') s) = 7 \<and> list_all all_digits (split_on (CHR ''.'') s)"

definition munition_key_matches :: "string \<Rightarrow> bool" where
  "munition_key_matches s \<longleftrightarrow>
     seven_numbers s \<or> (s \<noteq> [] \<and> last s = CHR 0x0A \<and> seven_numbers (butlast s))"

definition declared_count :: "py \<Rightarrow> int option" where
  "declared_count v = (case v of PInt i \<Rightarrow> (if i < 0 then None else Some i) | _ \<Rightarrow> None)"

fun flatten_munitions :: "string \<Rightarrow> string \<Rightarrow> dict \<Rightarrow> declared_row list res" where
  "flatten_munitions kind load_key [] = Inr []"
| "flatten_munitions kind load_key ((munition, v) # rest) =
     (if \<not> munition_key_matches munition then Inl ConfigError
      else (case declared_count v of
          None \<Rightarrow> Inl ConfigError
        | Some n \<Rightarrow> rbind (flatten_munitions kind load_key rest) (\<lambda>rs.
            Inr (\<lparr>dl_load_key = load_key, dl_key_kind = kind, dl_munition_type = munition, dl_declared = n\<rparr> # rs))))"

fun flatten_block :: "string \<Rightarrow> dict \<Rightarrow> declared_row list res" where
  "flatten_block kind [] = Inr []"
| "flatten_block kind ((load_key, munitions) # rest) =
     (case munitions of
        PDict d \<Rightarrow> rbind (flatten_munitions kind load_key d) (\<lambda>rs.
          rbind (flatten_block kind rest) (\<lambda>more. Inr (rs @ more)))
      | _ \<Rightarrow> Inl ConfigError)"

definition flatten_kind :: "dict \<Rightarrow> string \<Rightarrow> declared_row list res" where
  "flatten_kind raw kind =
     (case dget raw kind of PNone \<Rightarrow> Inr [] | PDict block \<Rightarrow> flatten_block kind block | _ \<Rightarrow> Inl ConfigError)"

definition validate_and_flatten :: "py \<Rightarrow> declared_row list res" where
  "validate_and_flatten v =
     (case v of
        PDict raw \<Rightarrow> rbind (rmap (flatten_kind raw) key_kinds) (\<lambda>rss. Inr (concat rss))
      | _ \<Rightarrow> Inl ConfigError)"

section \<open>The load\<close>

text \<open>The environment's setting: none, a path that names no file, or a file and what it parses to.\<close>

datatype load_source = NotSet | NoFile | Parsed py

definition declared_rows :: "load_source \<Rightarrow> declared_row list res" where
  "declared_rows src = (case src of Parsed v \<Rightarrow> validate_and_flatten (or_empty v) | _ \<Rightarrow> Inr [])"

text \<open>
  One transaction: the table emptied and filled, or, when the server rejects a statement, as it was. The
  second component of the argument tells whether it rejects.
\<close>

definition replace_effector_declared_load ::
  "declared_row list \<Rightarrow> bool \<Rightarrow> declared_row list \<Rightarrow> unit res \<times> declared_row list" where
  "replace_effector_declared_load rows rejected tbl =
     (if rejected then (Inl PostgresWriteError, tbl) else (Inr (), rows))"

definition load_declared_load :: "load_source \<Rightarrow> bool \<Rightarrow> declared_row list \<Rightarrow> nat res \<times> declared_row list" where
  "load_declared_load src rejected tbl =
     (case declared_rows src of
        Inl e \<Rightarrow> (Inl e, tbl)
      | Inr rows \<Rightarrow>
          (case replace_effector_declared_load rows rejected tbl of
             (Inl e, tbl1) \<Rightarrow> (Inl e, tbl1)
           | (Inr _, tbl1) \<Rightarrow> (Inr (length rows), tbl1)))"

section \<open>What an accepted file declares\<close>

text \<open>The entries of the file: kind, launcher key, munition key, value, in order.\<close>

definition entries_of :: "dict \<Rightarrow> (string \<times> string \<times> string \<times> py) list" where
  "entries_of raw = concat (map (\<lambda>kind. case dget raw kind of
       PDict block \<Rightarrow> concat (map (\<lambda>(k, v). case v of PDict d \<Rightarrow> map (\<lambda>(m, n). (kind, k, m, n)) d | _ \<Rightarrow> []) block)
     | _ \<Rightarrow> []) key_kinds)"

definition entry_of :: "declared_row \<Rightarrow> string \<times> string \<times> string \<times> py" where
  "entry_of r = (dl_key_kind r, dl_load_key r, dl_munition_type r, PInt (dl_declared r))"

definition valid_row :: "declared_row \<Rightarrow> bool" where
  "valid_row r \<longleftrightarrow> munition_key_matches (dl_munition_type r) \<and> 0 \<le> dl_declared r"

lemma declared_count_Some: "declared_count v = Some n \<longleftrightarrow> v = PInt n \<and> 0 \<le> n"
  by (auto simp: declared_count_def split: py.splits)

lemma flatten_munitions_entries:
  "flatten_munitions kind k d = Inr rows \<Longrightarrow>
     map entry_of rows = map (\<lambda>(m, n). (kind, k, m, n)) d \<and> list_all valid_row rows"
  by (induction kind k d arbitrary: rows rule: flatten_munitions.induct)
    (auto simp: res_simps entry_of_def valid_row_def declared_count_Some split: if_splits option.splits)

lemma flatten_block_entries:
  "flatten_block kind b = Inr rows \<Longrightarrow>
     map entry_of rows = concat (map (\<lambda>(k, v). case v of PDict d \<Rightarrow> map (\<lambda>(m, n). (kind, k, m, n)) d | _ \<Rightarrow> []) b)
     \<and> list_all valid_row rows"
proof (induction b arbitrary: rows)
  case (Cons kv b)
  then obtain k d rs more where kv: "kv = (k, PDict d)" and rs: "flatten_munitions kind k d = Inr rs"
    "flatten_block kind b = Inr more" "rows = rs @ more"
    by (cases kv) (auto simp: res_simps split: py.splits)
  from flatten_munitions_entries [OF rs(1)] Cons.IH [OF rs(2)] show ?case by (simp add: kv rs(3))
qed simp

lemma flatten_entries:
  assumes "validate_and_flatten (PDict raw) = Inr rows"
  shows "map entry_of rows = entries_of raw \<and> list_all valid_row rows"
proof -
  obtain as vs where r: "flatten_kind raw ''asset'' = Inr as" "flatten_kind raw ''variant'' = Inr vs" "rows = as @ vs"
    using assms by (auto simp: validate_and_flatten_def key_kinds_def res_simps)
  have "map entry_of rs = (case dget raw kind of
       PDict block \<Rightarrow> concat (map (\<lambda>(k, v). case v of PDict d \<Rightarrow> map (\<lambda>(m, n). (kind, k, m, n)) d | _ \<Rightarrow> []) block)
     | _ \<Rightarrow> []) \<and> list_all valid_row rs" if "flatten_kind raw kind = Inr rs" for kind rs
    using that flatten_block_entries [of kind _ rs] by (auto simp: flatten_kind_def split: py.splits)
  from this [OF r(1)] this [OF r(2)] show ?thesis by (simp add: r(3) entries_of_def key_kinds_def)
qed

text \<open>A file the loader takes: mappings of mappings, each entry with a key that matches and a count.\<close>

definition valid_entry :: "string \<times> string \<times> string \<times> py \<Rightarrow> bool" where
  "valid_entry e = (case e of (_, _, m, v) \<Rightarrow> munition_key_matches m \<and> declared_count v \<noteq> None)"

definition shaped :: "dict \<Rightarrow> string \<Rightarrow> bool" where
  "shaped raw kind = (case dget raw kind of PNone \<Rightarrow> True | PDict block \<Rightarrow> list_all (\<lambda>kv. is_dict (snd kv)) block | _ \<Rightarrow> False)"

definition acceptable :: "load_source \<Rightarrow> bool" where
  "acceptable src = (case src of
       Parsed v \<Rightarrow> (case or_empty v of
           PDict raw \<Rightarrow> list_all (shaped raw) key_kinds \<and> list_all valid_entry (entries_of raw)
         | _ \<Rightarrow> False)
     | _ \<Rightarrow> True)"

lemma flatten_munitions_ok:
  "is_ok (flatten_munitions kind k d) \<longleftrightarrow> list_all valid_entry (map (\<lambda>(m, n). (kind, k, m, n)) d)"
  by (induction kind k d rule: flatten_munitions.induct)
    (auto simp: valid_entry_def is_ok_def split: option.splits sum.splits)

lemma flatten_block_ok:
  "is_ok (flatten_block kind b) \<longleftrightarrow> list_all (\<lambda>kv. is_dict (snd kv)) b
     \<and> list_all valid_entry (concat (map (\<lambda>(k, v). case v of PDict d \<Rightarrow> map (\<lambda>(m, n). (kind, k, m, n)) d | _ \<Rightarrow> []) b))"
proof (induction b)
  case (Cons kv b)
  obtain k v where kv: "kv = (k, v)" by (cases kv)
  show ?case
  proof (cases v)
    case (PDict d)
    with Cons flatten_munitions_ok [of kind k d] show ?thesis
      by (cases "flatten_munitions kind k d"; cases "flatten_block kind b") (auto simp: kv)
  qed (simp_all add: kv)
qed simp

lemma flatten_ok:
  "is_ok (validate_and_flatten (PDict raw)) \<longleftrightarrow> list_all (shaped raw) key_kinds \<and> list_all valid_entry (entries_of raw)"
proof -
  have kind: "is_ok (flatten_kind raw kind) \<longleftrightarrow> shaped raw kind \<and> list_all valid_entry (case dget raw kind of
       PDict block \<Rightarrow> concat (map (\<lambda>(k, v). case v of PDict d \<Rightarrow> map (\<lambda>(m, n). (kind, k, m, n)) d | _ \<Rightarrow> []) block)
     | _ \<Rightarrow> [])" for kind
    by (cases "dget raw kind") (simp_all add: flatten_kind_def shaped_def flatten_block_ok)
  have "is_ok (validate_and_flatten (PDict raw)) \<longleftrightarrow> is_ok (flatten_kind raw ''asset'') \<and> is_ok (flatten_kind raw ''variant'')"
    by (cases "flatten_kind raw ''asset''"; cases "flatten_kind raw ''variant''")
      (simp_all add: validate_and_flatten_def key_kinds_def)
  then show ?thesis by (auto simp: kind entries_of_def key_kinds_def)
qed

lemma declared_rows_ok: "is_ok (declared_rows src) \<longleftrightarrow> acceptable src"
proof (cases src)
  case (Parsed v)
  then show ?thesis
    by (cases "or_empty v") (simp_all add: declared_rows_def acceptable_def flatten_ok, simp_all add: validate_and_flatten_def)
qed (simp_all add: declared_rows_def acceptable_def)

text \<open>
  C39. The declared load is replaced as a whole or not at all. The load succeeds exactly when the server takes
  the statements and every entry of the file is valid (or there is no file). Then the table holds
  exactly the entries of the file in order, none without a file, each with a munition key of
  seven numbers and a count that is not negative, and the answer is their number. A load that
  raises leaves the table as it was.
\<close>

theorem declared_load_whole:
  assumes "load_declared_load src rejected tbl = (r, tbl1)"
  shows "(is_ok r \<longleftrightarrow> \<not> rejected \<and> acceptable src) \<and> (case r of
      Inl e \<Rightarrow> tbl1 = tbl
    | Inr n \<Rightarrow> n = length tbl1 \<and> list_all valid_row tbl1
        \<and> (case src of
             Parsed v \<Rightarrow> (case or_empty v of PDict raw \<Rightarrow> map entry_of tbl1 = entries_of raw | _ \<Rightarrow> False)
           | _ \<Rightarrow> tbl1 = []))"
proof (cases "declared_rows src")
  case (Inl e)
  with assms declared_rows_ok [of src] show ?thesis by (auto simp: load_declared_load_def)
next
  case (Inr rows)
  have r: "(r, tbl1) = (if rejected then (Inl PostgresWriteError, tbl) else (Inr (length rows), rows))"
    using assms Inr by (auto simp: load_declared_load_def replace_effector_declared_load_def)
  have "acceptable src" using declared_rows_ok [of src] Inr by simp
  moreover have "list_all valid_row rows \<and> (case src of
      Parsed v \<Rightarrow> (case or_empty v of PDict raw \<Rightarrow> map entry_of rows = entries_of raw | _ \<Rightarrow> False) | _ \<Rightarrow> rows = [])"
  proof (cases src)
    case (Parsed v)
    with Inr obtain raw where "or_empty v = PDict raw" "validate_and_flatten (PDict raw) = Inr rows"
      by (auto simp: declared_rows_def validate_and_flatten_def split: py.splits)
    with flatten_entries [of raw rows] Parsed show ?thesis by simp
  qed (use Inr in \<open>auto simp: declared_rows_def\<close>)
  ultimately show ?thesis using r by (cases rejected) auto
qed

section \<open>Keys the handler writes\<close>

text \<open>Digits as the handler prints them: no zero in front of others.\<close>

definition canonical :: "string \<Rightarrow> bool" where
  "canonical p \<longleftrightarrow> all_digits p \<and> (hd p = CHR ''0'' \<longrightarrow> length p = 1)"

lemma digit_of_Some: "digit_of c = Some k \<longleftrightarrow> k < 10 \<and> c = digit_char k"
proof -
  have "c = char_of (of_char c :: nat)" by simp
  then show ?thesis by (auto simp: digit_of_def digit_char_def split: if_splits)
qed

lemma zero_char: "CHR ''0'' = digit_char 0"
  by code_simp

lemma digit_char_inj: "i < 10 \<Longrightarrow> j < 10 \<Longrightarrow> digit_char i = digit_char j \<longleftrightarrow> i = j"
  by (metis digit_of_digit_char option.inject)

lemma show_nat_canonical: "canonical (show_nat n)"
proof -
  have "list_all (\<lambda>c. digit_of c \<noteq> None) (show_nat n)"
    using show_nat_digits [of _ n] digit_of_digit_char by (fastforce simp: list_all_iff)
  moreover have "hd (show_nat n) = CHR ''0'' \<longrightarrow> n = 0"
  proof (induction n rule: show_nat.induct)
    case (1 n)
    then show ?case
      by (cases "n < 10") (auto simp: show_nat.simps [of n] zero_char digit_char_inj hd_append)
  qed
  moreover have "length (show_nat 0) = 1" by (simp add: show_nat.simps [of 0])
  ultimately show ?thesis by (auto simp: canonical_def all_digits_def)
qed

lemma canonical_shown: "canonical p \<Longrightarrow> \<exists>n. show_nat n = p"
proof (induction p rule: rev_induct)
  case (snoc c p)
  then obtain k where k: "k < 10" "c = digit_char k"
    by (auto simp: canonical_def all_digits_def digit_of_Some)
  show ?case
  proof (cases "p = []")
    case True
    with k show ?thesis by (intro exI [of _ k]) (simp add: show_nat.simps [of k])
  next
    case False
    with snoc.prems have nz: "hd p \<noteq> CHR ''0''" and "canonical p"
      by (auto simp: canonical_def all_digits_def)
    with snoc.IH obtain n where n: "show_nat n = p" by blast
    have "show_nat 0 = [CHR ''0'']" by (simp add: show_nat.simps [of 0] zero_char)
    with n nz have "n \<noteq> 0" by (cases "n = 0") auto
    with n k show ?thesis by (intro exI [of _ "10 * n + k"]) (simp add: show_nat.simps [of "10 * n + k"])
  qed
qed (simp add: canonical_def all_digits_def)

lemma dotted_parts: "ns \<noteq> [] \<Longrightarrow> split_on (CHR ''.'') (dotted ns) = map show_int ns"
  unfolding dotted_def by (rule split_on_join) (auto simp: show_int_no_dot)

lemma show_int_canonical: "canonical (show_int i) \<longleftrightarrow> 0 \<le> i"
proof (cases "i < 0")
  case True
  have "digit_of (CHR ''-'') = None" by (simp add: digit_of_def)
  with True show ?thesis by (simp add: canonical_def all_digits_def show_int_def)
next
  case False
  with show_nat_canonical [of "nat i"] show ?thesis by (simp add: show_int_def)
qed

lemma key_written: "munition_type_key v = Inr k \<Longrightarrow> \<exists>ns. length ns = 7 \<and> k = dotted ns"
  by (auto simp: munition_type_key_def res_simps split: py.splits dest!: rmap_length)
    (auto simp: munition_components_def numeral_eq_Suc)

lemma key_of_components: "length ns = 7 \<Longrightarrow> \<exists>v. munition_type_key v = Inr (dotted ns)"
proof -
  assume "length ns = 7"
  then obtain a b c d e f g where "ns = [a, b, c, d, e, f, g]"
    by (auto simp: numeral_eq_Suc length_Suc_conv)
  then show ?thesis
    by (intro exI [of _ "PDict (zip munition_components (map PInt ns))"])
      (simp add: munition_type_key_def munition_components_def or_empty_dict)
qed

lemma set_join: "set (join sep xs) \<subseteq> set sep \<union> (\<Union>x\<in>set xs. set x)"
  by (induction sep xs rule: join.induct) auto

lemma line_feed_parts:
  assumes "list_all (\<lambda>p. CHR 0x0A \<notin> set p) (split_on (CHR ''.'') k)" shows "CHR 0x0A \<notin> set k"
  using assms set_join [of "[CHR ''.'']" "split_on (CHR ''.'') k"]
  by (auto simp: join_split_on list_all_iff)

lemma digits_no_line_feed: "all_digits p \<Longrightarrow> CHR 0x0A \<notin> set p"
  by (auto simp: all_digits_def list_all_iff digit_of_def)

lemma show_int_digits: "all_digits (show_int i) \<longleftrightarrow> 0 \<le> i" and show_int_no_line_feed: "CHR 0x0A \<notin> set (show_int i)"
proof -
  have "digit_of (CHR ''-'') = None" by (simp add: digit_of_def)
  then show "all_digits (show_int i) \<longleftrightarrow> 0 \<le> i"
    using show_int_canonical [of i] by (auto simp: canonical_def all_digits_def show_int_def split: if_splits)
  show "CHR 0x0A \<notin> set (show_int i)"
    using show_nat_plain [of "CHR 0x0A"] by (auto simp: show_int_def is_space_def)
qed

lemma key_parts:
  assumes "munition_type_key v = Inr k"
  shows "munition_key_matches k \<longleftrightarrow> list_all canonical (split_on (CHR ''.'') k)"
proof -
  obtain ns where ns: "length ns = 7" "k = dotted ns" using key_written [OF assms] by blast
  then have "ns \<noteq> []" by auto
  from dotted_parts [OF this] ns have parts: "split_on (CHR ''.'') k = map show_int ns" by simp
  have "CHR 0x0A \<notin> set k"
    by (rule line_feed_parts) (simp add: parts list_all_iff show_int_no_line_feed)
  then have "k \<noteq> [] \<Longrightarrow> last k \<noteq> CHR 0x0A" using last_in_set by metis
  then show ?thesis
    using ns(1) by (auto simp: munition_key_matches_def seven_numbers_def parts list_all_iff show_int_digits show_int_canonical)
qed

lemma canonical_key_written:
  assumes "munition_key_matches k" "list_all canonical (split_on (CHR ''.'') k)"
  shows "\<exists>v. munition_type_key v = Inr k"
proof -
  let ?ps = "split_on (CHR ''.'') k"
  have "CHR 0x0A \<notin> set k"
    by (rule line_feed_parts) (use assms(2) digits_no_line_feed in \<open>auto simp: list_all_iff canonical_def\<close>)
  then have "k \<noteq> [] \<Longrightarrow> last k \<noteq> CHR 0x0A" using last_in_set by metis
  with assms(1) have len: "length ?ps = 7" by (auto simp: munition_key_matches_def seven_numbers_def)
  have "\<forall>p\<in>set ?ps. \<exists>n. show_nat n = p" using assms(2) canonical_shown by (simp add: list_all_iff)
  then obtain f where f: "\<forall>p\<in>set ?ps. show_nat (f p) = p" by metis
  have "map show_int (map (int \<circ> f) ?ps) = ?ps" using f by (simp add: show_int_def map_idI)
  then have "dotted (map (int \<circ> f) ?ps) = k" by (simp only: dotted_def join_split_on)
  with key_of_components [of "map (int \<circ> f) ?ps"] len show ?thesis by simp
qed

text \<open>
  Which declared keys can ever match. A key the handlers write for components that are not negative is
  accepted in the file. An accepted key is one the handlers write exactly when none of its
  numbers has leading zeros and no line feed ends it; the others are accepted all the same and
  never resolve.
\<close>

lemma declared_keys_match:
  "(\<forall>v k. munition_type_key v = Inr k \<longrightarrow> munition_key_matches k \<longleftrightarrow> list_all canonical (split_on (CHR ''.'') k))
   \<and> (\<forall>k. munition_key_matches k \<longrightarrow>
        (\<exists>v. munition_type_key v = Inr k) \<longleftrightarrow> list_all canonical (split_on (CHR ''.'') k))"
  using key_parts canonical_key_written by blast

text \<open>Seven numbers with a leading zero, or with a line feed behind them, pass.\<close>

lemma unmatched_keys:
  "munition_key_matches ''01.2.225.1.1.1.0''" "munition_key_matches (''1.2.225.1.1.1.0'' @ [CHR 0x0A])"
  "\<not> list_all canonical (split_on (CHR ''.'') ''01.2.225.1.1.1.0'')"
  by code_simp+

section \<open>Examples\<close>

definition sample_load_file :: py where
  "sample_load_file = PDict [(''asset'', PDict [(''launcher-1'', PDict [(''1.2.225.1.1.1.0'', PInt 8)])])]"

theorem declared_load_whole_witness:
  "length (snd (load_declared_load (Parsed sample_load_file) False [])) = 1"
proof -
  have "load_declared_load (Parsed sample_load_file) False [] = (Inr 1, snd (load_declared_load (Parsed sample_load_file) False []))"
    by code_simp
  from declared_load_whole [OF this] show ?thesis by simp
qed

end
