(* ===== verification/Telemetry_Batches.thy ===== *)
theory Telemetry_Batches
  imports Delivery
begin

text \<open>
  The delivery results on the registered handlers: every configured worker is sound in the sense of
  \<open>Delivery\<close>, and what the coalescing of a telemetry batch does to status claims. The witnesses run
  a telemetry worker on concrete messages.
\<close>

section \<open>Every configured worker is sound\<close>

lemma writes_wf: "writes (contract t m ks) a \<Longrightarrow> a = Inr (Wrote w) \<Longrightarrow> wf_write w"
  by (simp add: writes_def contract_def)

lemma telemetry_handler_wf: "handle_telemetry_latest env key d = Inr (Wrote w) \<Longrightarrow> wf_write w"
  using telemetry_wf [of env key d] by (simp add: writes_def)

lemmas handler_contracts =
  windows_contract cm_state_contract logistics_contract capability_contract tactical_contract
  region_fleet_contract region_factors_contract region_wear_contract parts_contract
  declaration_contract correlation_contract fielding_contract inventory_contract

lemma registered_wf:
  assumes "get_handler name = Inr (Returns h)" "h env key d = Inr (Wrote w)"
  shows "wf_write w"
proof -
  from assms(1) have "(name, Returns h) \<in> set handler_registry"
    by (auto simp: get_handler_def split: option.splits dest: map_of_SomeD)
  then have "h \<in> {handle_cm_state, handle_logistics_status, handle_telemetry_latest, handle_tactical_events,
      handle_telemetry_windows, handle_region_fleet_summary, handle_region_top_factors, handle_region_wear_trends,
      handle_capability_state, handle_asset_element_inventory, handle_parts_availability,
      handle_asset_declaration, handle_asset_correlation, handle_asset_fielding}"
    by (auto simp: handler_registry_def)
  with assms(2) show ?thesis
    by (elim insertE emptyE)
      (auto dest: telemetry_handler_wf writes_wf [OF handler_contracts(1)] writes_wf [OF handler_contracts(2)]
        writes_wf [OF handler_contracts(3)] writes_wf [OF handler_contracts(4)] writes_wf [OF handler_contracts(5)]
        writes_wf [OF handler_contracts(6)] writes_wf [OF handler_contracts(7)] writes_wf [OF handler_contracts(8)]
        writes_wf [OF handler_contracts(9)] writes_wf [OF handler_contracts(10)] writes_wf [OF handler_contracts(11)]
        writes_wf [OF handler_contracts(12)] writes_wf [OF handler_contracts(13)])
qed

lemma decode_json_error:
  "\<forall>s e. loads s = Inl e \<longrightarrow> e = ValueError \<Longrightarrow> decode_json loads raw = Inl e \<Longrightarrow> e = DecodeError"
  by (auto simp: decode_json_def split: option.splits sum.splits py.splits)

lemma decode_cloudevent_error:
  "\<forall>s e. loads s = Inl e \<longrightarrow> e = ValueError \<Longrightarrow> decode_cloudevent loads raw = Inl e \<Longrightarrow> e = DecodeError"
  by (auto simp: decode_cloudevent_def split: option.splits sum.splits py.splits if_splits)

lemma make_decoder_error:
  assumes "make_decoder loads stubs decode_as = Inr dec" "\<forall>s e. loads s = Inl e \<longrightarrow> e = ValueError"
    and "dec raw = Inl e"
  shows "e = DecodeError"
proof -
  from assms(1) consider "dec = decode_cloudevent loads" | "dec = decode_json loads" | parse where "dec = proto_decode parse"
    by (auto simp: make_decoder_def proto_decoder_def split: if_splits option.splits)
  then show ?thesis
    using assms(2,3) decode_json_error decode_cloudevent_error
    by cases (auto simp: proto_decode_def split: option.splits)
qed

text \<open>
  Every worker a configuration can name is sound: whatever decoder and whatever registered
  handler a mapping of a mode other than custom combines, the decoder raises nothing but
  DecodeError and each write the handler answers with is one that the store executes as it
  promises. (The JSON parser raises nothing but ValueError.)
\<close>

lemma configured_worker_sound:
  assumes "make_decoder loads stubs decode_as = Inr dec" "get_handler name = Inr (Returns h)"
    and "\<forall>s e. loads s = Inl e \<longrightarrow> e = ValueError" "mode \<noteq> ''custom''"
  shows "sound_worker \<lparr>wk_mode = mode, wk_decode = dec, wk_handler = h, wk_custom = c\<rparr>"
  using assms(4) make_decoder_error [OF assms(1,3)] registered_wf [OF assms(2)] by (auto simp: sound_worker_def)

section \<open>Coalescing a status claim away\<close>

abbreviation status_in :: "store \<Rightarrow> py list \<Rightarrow> py option" where
  "status_in st key \<equiv> map_option (\<lambda>r. r ''operational_status'')
     (lookup_row [''asset_id''] (st ''telemetry_latest_state'') key)"

lemma batch_writes_single:
  "message_write wk (envs m) m = Some w \<Longrightarrow> accepts w \<Longrightarrow> batch_writes wk envs accepts [m] = [w]"
  by (simp add: batch_writes_def List.map_filter_def)

text \<open>One telemetry message, seen from the status of its row.\<close>

lemma status_put:
  assumes msg: "handle_telemetry_latest env key d = Inr (Wrote w)"
    and claim: "telemetry_claim (or_empty (dget d ''operational_state'')) (or_empty (dget d ''provenance'')) = Inr (c, f)"
    and dflt: "schema ''telemetry_latest_state'' ''operational_status'' \<noteq> PStr operational_status_deactivated"
    and row: "status_in st (write_key w) = Some s"
  shows "status_in (put_store schema w st) (write_key w) = Some (status_after c (truthy (dget d ''kinematics'')) s)"
proof -
  let ?d = "schema ''telemetry_latest_state''" and ?t = "st ''telemetry_latest_state''"
  have tbl: "w_table w = ''telemetry_latest_state''"
    using telemetry_wf [of env key d] msg by (simp add: writes_def)
  have ok: "ok_write ?d [''asset_id''] w" using msg dflt by (rule telemetry_ok_write)
  from row obtain r where r: "lookup_row [''asset_id''] ?t (write_key w) = Some r" "r ''operational_status'' = s"
    by auto
  from status_of_merge [OF msg claim, of ?d r] obtain r' where "merge_row ?d w (Some r) = Some r'"
      "r' ''operational_status'' = status_after c (truthy (dget d ''kinematics'')) s"
    using r(2) by auto
  with pg.lookup_same [OF ok, of ?t] r show ?thesis by (simp add: put_store_def tbl)
qed

text \<open>
  C29. Coalescing drops a terminal claim. When one drain holds a message that claims a terminal status for
  an asset and, later, an ordinary message of the same asset and Kafka key, the turn never hands
  the claim to the handler: the row keeps the status it had (or is revived), where the same two
  messages in two turns leave it with the claimed status, which then stays.
\<close>

theorem coalescing_drops_claim:
  assumes wk: "sound_worker wk" "wk_mode wk = ''upsert''" "wk_handler wk = handle_telemetry_latest"
    and key: "msg_key m1 = msg_key m2" "message_key m2 = Inr k" "msg_error m1 = None" "msg_error m2 = None"
    and dec: "wk_decode wk (msg_value m1) = Inr d1" "wk_decode wk (msg_value m2) = Inr d2"
    and msg: "handle_telemetry_latest (envs m1) k d1 = Inr (Wrote w1)" "handle_telemetry_latest (envs m2) k d2 = Inr (Wrote w2)"
      "write_key w1 = write_key w2" "accepts w1" "accepts w2"
    and claim: "telemetry_claim (or_empty (dget d1 ''operational_state'')) (or_empty (dget d1 ''provenance'')) = Inr (Some c, f1)"
      "telemetry_claim (or_empty (dget d2 ''operational_state'')) (or_empty (dget d2 ''provenance'')) = Inr (None, f2)"
      "c \<noteq> ''deactivated''"
    and dflt: "schema ''telemetry_latest_state'' ''operational_status'' \<noteq> PStr operational_status_deactivated"
    and row: "status_in st (write_key w1) = Some old"
  shows "\<exists>st1 st2. run_turn wk envs accepts schema [m1, m2] st = ((None, True), st1)
    \<and> status_in st1 (write_key w1) = Some (status_after None (truthy (dget d2 ''kinematics'')) old)
    \<and> snd (run_turn wk envs accepts schema [m2] (snd (run_turn wk envs accepts schema [m1] st))) = st2
    \<and> status_in st2 (write_key w1) = Some (PStr c)"
proof -
  have k1: "message_key m1 = Inr k" using key(1,2) by (simp add: message_key_def)
  have ok: "key_ok m1" "key_ok m2" using k1 key(2) by (auto simp: message_key_ok)
  have w: "message_write wk (envs m1) m1 = Some w1" "message_write wk (envs m2) m2 = Some w2"
    using wk(3) k1 key(2) dec msg(1,2) by (simp_all add: message_write_def)
  note bw = batch_writes_single [of wk envs _ _ accepts, OF w(1) msg(4)] batch_writes_single [of wk envs _ _ accepts, OF w(2) msg(5)]
  have co: "coalesce_batch (wk_mode wk) [m1, m2] = [m2]" "coalesce_batch (wk_mode wk) [m1] = [m1]"
      "coalesce_batch (wk_mode wk) [m2] = [m2]"
    using key(1) wk(2) by (simp_all add: coalesce_batch_def)
  have turn: "run_turn wk envs accepts schema ms st' = ((None, True), fold (put_store schema)
       (batch_writes wk envs accepts (coalesce_batch (wk_mode wk) ms)) st')" if "ms \<in> {[m1, m2], [m1], [m2]}" for ms st'
  proof -
    have ms: "\<forall>m \<in> set ms. msg_error m = None \<and> key_ok m" "ms \<noteq> []" using that ok key(3,4) by auto
    then have real: "filter (\<lambda>m. msg_error m = None) ms = ms" by simp
    have "\<exists>m \<in> set ms. msg_error m = None" using ms by (cases ms) auto
    moreover from ms have "\<forall>m \<in> set ms. msg_error m = None \<longrightarrow> key_ok m" by blast
    ultimately show ?thesis using persist_all_sound [OF wk(1), of "coalesce_batch (wk_mode wk) ms" envs accepts schema st']
        coalesced_subset [of "wk_mode wk" ms] ms
      by (simp add: run_turn_def real subset_iff)
  qed
  have s1: "status_in (put_store schema w1 st) (write_key w2) = Some (PStr c)"
    using status_put [of "envs m1" k d1 w1 _ _ schema st old, OF msg(1) claim(1) dflt row] msg(3)
    by (simp add: status_after_def)
  have "status_in (put_store schema w2 (put_store schema w1 st)) (write_key w2) = Some (PStr c)"
    using status_put [of "envs m2" k d2 w2 _ _ schema "put_store schema w1 st", OF msg(2) claim(2) dflt s1] claim(3)
    by (simp add: status_after_def)
  moreover have "status_in (put_store schema w2 st) (write_key w2)
      = Some (status_after None (truthy (dget d2 ''kinematics'')) old)"
    by (rule status_put [where schema = schema, OF msg(2) claim(2) dflt]) (use row msg(3) in simp)
  ultimately show ?thesis
    by (simp add: turn co bw msg(3))
qed

section \<open>Witnesses\<close>

definition sample_loads :: "string \<Rightarrow> py res" where
  "sample_loads s =
     (if s = ''removal'' then Inr (PDict removal_message)
      else if s = ''seen'' then Inr (PDict seen_message) else Inl ValueError)"

definition telemetry_worker :: worker where
  "telemetry_worker = \<lparr>wk_mode = ''upsert'', wk_decode = decode_json sample_loads,
     wk_handler = handle_telemetry_latest, wk_custom = (\<lambda>_ _ _ st. (None, st))\<rparr>"

definition sample_message :: "string \<Rightarrow> message" where
  "sample_message s = \<lparr>msg_key = Some ''a'', msg_value = Some s, msg_error = None\<rparr>"

abbreviation removal_write :: pg_write where
  "removal_write \<equiv> written (handle_telemetry_latest sample_env ''a'' removal_message)"

abbreviation seen_write :: pg_write where
  "seen_write \<equiv> written (handle_telemetry_latest sample_env ''a'' seen_message)"

lemma sample_handled:
  "handle_telemetry_latest sample_env ''a'' removal_message = Inr (Wrote removal_write)"
  "handle_telemetry_latest sample_env ''a'' seen_message = Inr (Wrote seen_write)"
  "write_key removal_write = [PStr ''a'']" "write_key seen_write = [PStr ''a'']"
  "w_table seen_write = ''telemetry_latest_state''" "w_mode seen_write = ''upsert''"
  by code_simp+

lemma sample_decoded:
  "decode_json sample_loads (Some ''removal'') = Inr removal_message"
  "decode_json sample_loads (Some ''seen'') = Inr seen_message"
  by (simp_all add: decode_json_def sample_loads_def)

lemma sample_key: "message_key (sample_message s) = Inr ''a''"
  by (simp add: message_key_def sample_message_def)

lemma telemetry_worker_sound: "sound_worker telemetry_worker"
  using telemetry_handler_wf decode_json_error [of sample_loads]
  by (auto simp: sound_worker_def telemetry_worker_def sample_loads_def)

theorem coalescing_drops_claim_witness:
  "\<exists>st1. run_turn telemetry_worker (\<lambda>_. sample_env) (\<lambda>_. True) (\<lambda>_ _. PNone)
       [sample_message ''removal'', sample_message ''seen''] (\<lambda>_. [asset_row ''operational'']) = ((None, True), st1)
     \<and> status_in st1 [PStr ''a''] = Some (PStr ''operational'')"
proof -
  have row: "status_in (\<lambda>_. [asset_row ''operational'']) (write_key removal_write) = Some (PStr ''operational'')"
    unfolding sample_handled(3) asset_row_found by (simp add: asset_row_def)
  have wk: "wk_mode telemetry_worker = ''upsert''" "wk_handler telemetry_worker = handle_telemetry_latest"
      "wk_decode telemetry_worker (msg_value (sample_message ''removal'')) = Inr removal_message"
      "wk_decode telemetry_worker (msg_value (sample_message ''seen'')) = Inr seen_message"
    by (simp_all add: telemetry_worker_def sample_message_def sample_decoded)
  have "\<exists>st1 st2. run_turn telemetry_worker (\<lambda>_. sample_env) (\<lambda>_. True) (\<lambda>_ _. PNone)
       [sample_message ''removal'', sample_message ''seen''] (\<lambda>_. [asset_row ''operational'']) = ((None, True), st1)
    \<and> status_in st1 (write_key removal_write)
        = Some (status_after None (truthy (dget seen_message ''kinematics'')) (PStr ''operational''))
    \<and> snd (run_turn telemetry_worker (\<lambda>_. sample_env) (\<lambda>_. True) (\<lambda>_ _. PNone) [sample_message ''seen'']
        (snd (run_turn telemetry_worker (\<lambda>_. sample_env) (\<lambda>_. True) (\<lambda>_ _. PNone) [sample_message ''removal'']
           (\<lambda>_. [asset_row ''operational''])))) = st2
    \<and> status_in st2 (write_key removal_write) = Some (PStr ''removed'')"
  proof (rule coalescing_drops_claim [OF telemetry_worker_sound wk(1,2) _ sample_key _ _ wk(3,4) sample_handled(1,2) _ _ _
        removal_handled(2) seen_handled(2) _ _ row])
  qed (simp_all add: sample_handled(3,4), simp_all add: sample_message_def)
  then show ?thesis by (auto simp: sample_handled(3) status_after_def)
qed

text \<open>Two counts of one part: the second supersedes the first.\<close>

definition parts_of :: "string \<Rightarrow> dict" where
  "parts_of s = (if s = ''four'' then parts_message else dset parts_message ''on_hand'' (PInt 5))"

definition parts_worker :: worker where
  "parts_worker = \<lparr>wk_mode = ''upsert'', wk_decode = decode_json (\<lambda>s. Inr (PDict (parts_of s))),
     wk_handler = handle_parts_availability, wk_custom = (\<lambda>_ _ _ st. (None, st))\<rparr>"

lemma parts_handler_wf:
  "handle_parts_availability env key d = Inr (Wrote w) \<Longrightarrow> wf_write w
     \<and> w_table w = ''parts_availability'' \<and> w_key_columns w = [''site'', ''part_ref'']"
  using parts_contract [of env key d] by (simp add: writes_def contract_def)

lemma parts_worker_sound: "sound_worker parts_worker"
  using parts_handler_wf by (auto simp: sound_worker_def parts_worker_def decode_json_def split: option.splits)

lemma answered: "m = Inr (Wrote w) \<Longrightarrow> (case m of Inr (Wrote w) \<Rightarrow> Some w | _ \<Rightarrow> None) = Some w"
  by simp

text \<open>
  A message that does not decode leaves a good one with another key its effect; after a good one with the same key it
  hides it.
\<close>

theorem bad_messages_isolated_witness:
  "fst (run_turn telemetry_worker (\<lambda>_. sample_env) (\<lambda>_. True) (\<lambda>_ _. PNone)
      [(sample_message ''junk'')\<lparr>msg_key := Some ''b''\<rparr>, sample_message ''seen''] (\<lambda>_. [])) = (None, True)
   \<and> snd (run_turn telemetry_worker (\<lambda>_. sample_env) (\<lambda>_. True) (\<lambda>_ _. PNone)
      [(sample_message ''junk'')\<lparr>msg_key := Some ''b''\<rparr>, sample_message ''seen''] (\<lambda>_. []))
     = snd (run_turn telemetry_worker (\<lambda>_. sample_env) (\<lambda>_. True) (\<lambda>_ _. PNone) [sample_message ''seen''] (\<lambda>_. []))
   \<and> snd (run_turn telemetry_worker (\<lambda>_. sample_env) (\<lambda>_. True) (\<lambda>_ _. PNone)
      [sample_message ''seen'', sample_message ''junk''] (\<lambda>_. [])) = (\<lambda>_. [])"
proof -
  let ?other = "(sample_message ''junk'')\<lparr>msg_key := Some ''b''\<rparr>" and ?junk = "sample_message ''junk''"
    and ?seen = "sample_message ''seen''"
  let ?through = "goes_through telemetry_worker (\<lambda>_. sample_env) (\<lambda>_. True)"
  have dec: "decode_json sample_loads (Some ''junk'') = Inl DecodeError"
    by (simp add: decode_json_def sample_loads_def)
  have key: "message_key ?other = Inr ''b''" by code_simp
  have "message_write telemetry_worker sample_env ?seen = Some seen_write"
    using answered [OF sample_handled(2)]
    by (simp add: message_write_def sample_key) (simp add: telemetry_worker_def sample_message_def sample_decoded)
  moreover have "message_write telemetry_worker sample_env ?other = None" "message_write telemetry_worker sample_env ?junk = None"
    using dec by (simp_all add: message_write_def key sample_key) (simp_all add: telemetry_worker_def sample_message_def)
  ultimately have t: "\<not> ?through ?other" "\<not> ?through ?junk" "?through ?seen" by (simp_all add: goes_through_def)
  have f: "msg_error ?other = None" "msg_error ?junk = None" "msg_error ?seen = None"
    "msg_key ?other = Some ''b''" "msg_key ?junk = Some ''a''" "msg_key ?seen = Some ''a''"
    by (simp_all add: sample_message_def)
  have ok: "key_ok ?other" "key_ok ?junk" "key_ok ?seen" using key sample_key by (simp_all add: message_key_ok)
  have r: "[?other, ?seen] = filter (\<lambda>m. msg_error m = None) [?other, ?seen]"
    "[?seen, ?junk] = filter (\<lambda>m. msg_error m = None) [?seen, ?junk]" by (simp_all add: f)
  have "\<forall>m \<in> set [?other, ?seen]. msg_error m = None \<longrightarrow> key_ok m" "\<forall>m \<in> set [?seen, ?junk]. msg_error m = None \<longrightarrow> key_ok m"
    using ok by simp_all
  note b = bad_messages_isolated [OF telemetry_worker_sound this(1) r(1), of "\<lambda>_. sample_env" "\<lambda>_. True" "\<lambda>_ _. PNone" "\<lambda>_. []"]
    bad_messages_isolated [OF telemetry_worker_sound this(2) r(2), of "\<lambda>_. sample_env" "\<lambda>_. True" "\<lambda>_ _. PNone" "\<lambda>_. []"]
  have "filter ?through [?other, ?seen] = [?seen]" using t by simp
  with b(1) [THEN conjunct2, THEN conjunct1] have iso: "snd (run_turn telemetry_worker (\<lambda>_. sample_env) (\<lambda>_. True) (\<lambda>_ _. PNone)
      [?other, ?seen] (\<lambda>_. [])) = snd (run_turn telemetry_worker (\<lambda>_. sample_env) (\<lambda>_. True) (\<lambda>_ _. PNone) [?seen] (\<lambda>_. []))"
    by (simp add: f)
  have "wk_mode telemetry_worker = ''upsert'' \<and> [?seen, ?junk] = [?seen] @ ?junk # [] \<and> msg_key ?junk \<notin> msg_key ` set []
      \<and> \<not> ?through ?junk" using t(2) by (simp add: telemetry_worker_def)
  with b(2) [THEN conjunct2, THEN conjunct2] have "snd (run_turn telemetry_worker (\<lambda>_. sample_env) (\<lambda>_. True) (\<lambda>_ _. PNone)
      [?seen, ?junk] (\<lambda>_. [])) = snd (run_turn telemetry_worker (\<lambda>_. sample_env) (\<lambda>_. True) (\<lambda>_ _. PNone)
      (filter (\<lambda>n. msg_key n \<noteq> msg_key ?junk) [?seen, ?junk]) (\<lambda>_. []))" by blast
  also have "\<dots> = (\<lambda>_. [])" by (simp add: f(5,6) run_turn_def)
  finally show ?thesis using iso b(1) by simp
qed

theorem poison_key_stops_topic_witness:
  "fst (run_turn telemetry_worker (\<lambda>_. sample_env) (\<lambda>_. True) (\<lambda>_ _. PNone)
     [\<lparr>msg_key = Some [char_of (255::nat)], msg_value = Some ''seen'', msg_error = None\<rparr>] (\<lambda>_. [])) = (Some ValueError, False)"
  by (rule poison_key_stops_topic [OF telemetry_worker_sound,
        of "\<lparr>msg_key = Some [char_of (255::nat)], msg_value = Some ''seen'', msg_error = None\<rparr>"])
    (simp_all add: key_ok_def)

end
