(* ===== verification/Startup.thy ===== *)
theory Startup
  imports Retention Declared_Load Telemetry_Batches
begin

text \<open>
  \<open>main.main()\<close> up to the point where the projector runs: what it checks, in which order, with which exit
  code it gives up, and what it then runs. The environment is a record: the parsed configuration
  file, the variables, the declared load's file, and how the outside answers (the metrics server's
  start, the pool's connection, which retries until it succeeds or raises something else, the server's
  answer to the declared load). The Kafka client's constructor is taken to succeed. The distance
  formula, rounding, further strategies, JSON parser and protobuf stubs are its parameters.
\<close>

section \<open>The checks\<close>

record startup_env =
  su_config :: config_env
  su_parsed :: py
  su_km :: distance
  su_round2 :: "flt \<Rightarrow> flt"
  su_registered :: "(string \<times> (dict \<Rightarrow> strategy res)) list"
  su_loads :: "string \<Rightarrow> py res"
  su_stubs :: "string \<Rightarrow> (string \<Rightarrow> dict option) option"
  su_element_json :: "string option"
  su_metrics :: "exc option"
  su_dsn :: "string option"
  su_host :: "string option"
  su_connect :: "exc option"
  su_declared :: load_source
  su_declared_rejected :: bool
  su_buffer_monitor :: "string option"
  su_link_monitor :: "string option"

text \<open>The answer None is \<open>StoreNotConfigured\<close>; Some None leaves the connection to the PG variables.\<close>

definition store_dsn_from_env :: "string option \<Rightarrow> string option \<Rightarrow> string option option" where
  "store_dsn_from_env dsn host =
     (if dsn \<noteq> None \<and> dsn \<noteq> Some [] then Some dsn
      else if host \<noteq> None \<and> host \<noteq> Some [] then Some None
      else None)"

record worker_setup =
  ws_topic :: py
  ws_mode :: py
  ws_handler :: registered
  ws_decode :: "string option \<Rightarrow> dict res"

text \<open>A name that is no text is unknown, or not hashable.\<close>

definition named :: "exc \<Rightarrow> (string \<Rightarrow> 'a res) \<Rightarrow> py \<Rightarrow> 'a res" where
  "named unknown look v =
     (case v of PStr n \<Rightarrow> look n | PList _ \<Rightarrow> Inl TypeError | PDict _ \<Rightarrow> Inl TypeError | _ \<Rightarrow> Inl unknown)"

definition setup_worker ::
  "(string \<Rightarrow> py res) \<Rightarrow> (string \<Rightarrow> (string \<Rightarrow> dict option) option) \<Rightarrow> mapping \<Rightarrow> worker_setup res" where
  "setup_worker loads stubs m =
     rbind (named (KeyError []) get_handler (mp_handler m)) (\<lambda>h.
     rbind (named DecodeError (make_decoder loads stubs) (mp_decode_as m)) (\<lambda>dec.
       Inr \<lparr>ws_topic = mp_topic m, ws_mode = mp_mode m, ws_handler = h, ws_decode = dec\<rparr>))"

definition has_element_mapping :: "config \<Rightarrow> bool" where
  "has_element_mapping cfg \<longleftrightarrow> list_ex (\<lambda>m. mp_handler m = PStr element_telemetry) (cf_mappings cfg)"

definition startup_element :: "startup_env \<Rightarrow> config \<Rightarrow> element_config option res" where
  "startup_element su cfg =
     (if has_element_mapping cfg
      then rbind (parse_config (su_loads su) (su_element_json su)) (\<lambda>c. Inr (Some c)) else Inr None)"

section \<open>The tasks\<close>

datatype task =
    Consume worker_setup
  | Prune_Loop
  | Lag_Loop
  | Reporting_Sweep
  | Effector_Sweep
  | Munition_Track_Sweep
  | Edge_Buffer_Monitor
  | Link_Monitor

definition enabled :: "string \<Rightarrow> string option \<Rightarrow> bool" where
  "enabled if_unset v \<longleftrightarrow> lower (case v of Some s \<Rightarrow> s | None \<Rightarrow> if_unset) = ''true''"

definition start_monitor_tasks :: "string option \<Rightarrow> string option \<Rightarrow> task list" where
  "start_monitor_tasks buffer link =
     (if enabled ''true'' buffer then [Edge_Buffer_Monitor] else [])
     @ (if enabled ''false'' link then [Link_Monitor] else [])"

record running =
  ru_config :: config
  ru_resolver :: resolver
  ru_element :: "element_config option"
  ru_store :: "string option"
  ru_tasks :: "task list"

datatype start = Stopped exc | Exits nat | Running running

definition start_up :: "startup_env \<Rightarrow> declared_row list \<Rightarrow> start \<times> declared_row list" where
  "start_up su tbl =
     (case load_config (su_config su) (su_parsed su) of
        Inl e \<Rightarrow> (Stopped e, tbl)
      | Inr cfg \<Rightarrow>
          if cf_mappings cfg = [] then (Exits 1, tbl)
          else (case configure_from_config (su_km su) (su_round2 su) (su_registered su) (cf_edge_assignment cfg) of
        Inl e \<Rightarrow> (Stopped e, tbl)
      | Inr rs \<Rightarrow> (case startup_element su cfg of
        Inl e \<Rightarrow> (if e = ValueError then Exits 1 else Stopped e, tbl)
      | Inr el \<Rightarrow> (case su_metrics su of
        Some e \<Rightarrow> (Stopped e, tbl)
      | None \<Rightarrow> (case store_dsn_from_env (su_dsn su) (su_host su) of
        None \<Rightarrow> (Exits 2, tbl)
      | Some dsn \<Rightarrow> (case su_connect su of
        Some e \<Rightarrow> (Stopped e, tbl)
      | None \<Rightarrow> (case load_declared_load (su_declared su) (su_declared_rejected su) tbl of
        (Inl e, tbl1) \<Rightarrow> (if e = ConfigError then Exits 1 else Stopped e, tbl1)
      | (Inr _, tbl1) \<Rightarrow> (case rmap (setup_worker (su_loads su) (su_stubs su)) (cf_mappings cfg) of
        Inl e \<Rightarrow> (Stopped e, tbl1)
      | Inr ws \<Rightarrow>
          (Running \<lparr>ru_config = cfg, ru_resolver = rs, ru_element = el, ru_store = dsn,
             ru_tasks = map Consume ws @ [Prune_Loop, Lag_Loop, Reporting_Sweep, Effector_Sweep, Munition_Track_Sweep]
               @ start_monitor_tasks (su_buffer_monitor su) (su_link_monitor su)\<rparr>, tbl1)))))))))"

section \<open>What runs is checked\<close>

text \<open>What is consumed: a mapping's worker, with a sound decoder and handler unless the handler owns its I/O.\<close>

definition sound_setup :: "mapping \<Rightarrow> worker_setup \<Rightarrow> bool" where
  "sound_setup m w \<longleftrightarrow> ws_topic w = mp_topic m \<and> ws_mode w = mp_mode m
     \<and> (\<forall>h mode c. ws_handler w = Returns h \<and> ws_mode w = PStr mode \<and> mode \<noteq> ''custom'' \<longrightarrow>
          sound_worker \<lparr>wk_mode = mode, wk_decode = ws_decode w, wk_handler = h, wk_custom = c\<rparr>)
     \<and> (mp_handler m = PStr element_telemetry \<longrightarrow> ws_mode w = PStr ''custom'')"

fun consumed :: "task list \<Rightarrow> worker_setup list" where
  "consumed [] = []"
| "consumed (Consume w # ts) = w # consumed ts"
| "consumed (t # ts) = consumed ts"

lemma consumed_append [simp]: "consumed (ts @ us) = consumed ts @ consumed us"
  by (induction ts rule: consumed.induct) auto

lemma consumed_workers [simp]: "consumed (map Consume ws) = ws" "consumed (start_monitor_tasks b l) = []"
  by (induction ws) (auto simp: start_monitor_tasks_def)

lemma setup_sound:
  assumes "setup_worker loads stubs m = Inr w" "\<forall>s e. loads s = Inl e \<longrightarrow> e = ValueError"
    and "mp_handler m = PStr element_telemetry \<longrightarrow> mp_mode m = PStr ''custom''"
  shows "sound_setup m w"
proof -
  from assms(1) obtain n d where w: "get_handler n = Inr (ws_handler w)" "make_decoder loads stubs d = Inr (ws_decode w)"
    "ws_topic w = mp_topic m" "ws_mode w = mp_mode m"
    by (auto simp: setup_worker_def named_def res_simps split: py.splits)
  then show ?thesis
    using assms(3) make_decoder_error [OF w(2) assms(2)] registered_wf [of n]
    by (auto simp: sound_setup_def sound_worker_def)
qed

lemma list_all2_mono_in:
  "list_all2 P xs ys \<Longrightarrow> (\<And>x y. x \<in> set xs \<Longrightarrow> P x y \<Longrightarrow> Q x y) \<Longrightarrow> list_all2 Q xs ys"
  by (induction rule: list_all2_induct) auto

lemma rmap_all2: "rmap f xs = Inr ys \<Longrightarrow> list_all2 (\<lambda>x y. f x = Inr y) xs ys"
  by (induction xs arbitrary: ys) (auto simp: res_simps)

lemma loaded_elements:
  assumes "load_config ce parsed = Inr cfg" "m \<in> set (cf_mappings cfg)" "mp_handler m = PStr element_telemetry"
  shows "mp_mode m = PStr ''custom''"
proof -
  from assms(1) obtain override entries where "rmap (load_mapping override) entries = Inr (cf_mappings cfg)"
    by (auto simp: load_config_def res_simps split: py.splits)
  from rmap_set [OF this assms(2)] obtain v where "load_mapping override v = Inr m" by blast
  from checked_element [OF this assms(3)] show ?thesis by simp
qed

lemma running_cases:
  assumes "start_up su tbl = (Running ru, tbl1)"
  obtains ws n where "load_config (su_config su) (su_parsed su) = Inr (ru_config ru)" "cf_mappings (ru_config ru) \<noteq> []"
    "configure_from_config (su_km su) (su_round2 su) (su_registered su) (cf_edge_assignment (ru_config ru)) = Inr (ru_resolver ru)"
    "startup_element su (ru_config ru) = Inr (ru_element ru)"
    "store_dsn_from_env (su_dsn su) (su_host su) = Some (ru_store ru)"
    "load_declared_load (su_declared su) (su_declared_rejected su) tbl = (Inr n, tbl1)"
    "rmap (setup_worker (su_loads su) (su_stubs su)) (cf_mappings (ru_config ru)) = Inr ws"
    "consumed (ru_tasks ru) = ws"
  using assms
  by (auto simp: start_up_def split: sum.splits option.splits if_splits prod.splits)

lemma declared_load_ok:
  "is_ok (fst (load_declared_load src rejected tbl)) \<longleftrightarrow> \<not> rejected \<and> acceptable src"
  "load_declared_load src rejected tbl = (Inl e, tbl1) \<Longrightarrow> tbl1 = tbl"
  "load_declared_load src rejected tbl = (Inr n, tbl1) \<Longrightarrow> declared_rows src = Inr tbl1"
  using declared_rows_ok [of src]
  by (auto simp: load_declared_load_def replace_effector_declared_load_def split: sum.splits if_splits)

lemma rows_valid: "declared_rows src = Inr rows \<Longrightarrow> list_all valid_row rows"
  using flatten_entries [of _ rows]
  by (auto simp: declared_rows_def validate_and_flatten_def split: load_source.splits py.splits)

lemma rmap_ok: "is_ok (rmap f xs) \<longleftrightarrow> list_all (\<lambda>x. is_ok (f x)) xs"
proof (induction xs)
  case (Cons x xs)
  then show ?case by (cases "f x"; cases "rmap f xs") auto
qed simp

text \<open>The checks that stand between a start and a running projector.\<close>

definition startable :: "startup_env \<Rightarrow> bool" where
  "startable su \<longleftrightarrow>
     (case load_config (su_config su) (su_parsed su) of
        Inl _ \<Rightarrow> False
      | Inr cfg \<Rightarrow> cf_mappings cfg \<noteq> []
          \<and> is_ok (configure_from_config (su_km su) (su_round2 su) (su_registered su) (cf_edge_assignment cfg))
          \<and> is_ok (startup_element su cfg) \<and> su_metrics su = None
          \<and> store_dsn_from_env (su_dsn su) (su_host su) \<noteq> None \<and> su_connect su = None
          \<and> \<not> su_declared_rejected su \<and> acceptable (su_declared su)
          \<and> list_all (\<lambda>m. is_ok (setup_worker (su_loads su) (su_stubs su) m)) (cf_mappings cfg))"

definition is_running :: "start \<Rightarrow> bool" where
  "is_running st = (case st of Running _ \<Rightarrow> True | _ \<Rightarrow> False)"

lemma start_up_running: "is_running (fst (start_up su tbl)) \<longleftrightarrow> startable su"
  using declared_load_ok(1) [of "su_declared su" "su_declared_rejected su" tbl]
  unfolding startable_def rmap_ok [symmetric]
  by (auto simp: start_up_def is_running_def is_ok_def
      split: sum.splits option.splits prod.splits)

lemma start_up_table:
  assumes "start_up su tbl = (st, tbl1)"
  shows "tbl1 = tbl \<or> declared_rows (su_declared su) = Inr tbl1 \<and> (\<forall>n. st \<noteq> Exits n)"
  using assms declared_load_ok(2,3) [of "su_declared su" "su_declared_rejected su" tbl]
  by (fastforce simp: start_up_def split: sum.splits option.splits prod.splits if_splits)

lemma start_up_exits: "start_up su tbl = (Exits n, tbl1) \<Longrightarrow> n = 1 \<or> n = 2 \<and> store_dsn_from_env (su_dsn su) (su_host su) = None"
  by (auto simp: start_up_def split: sum.splits option.splits prod.splits if_splits)

text \<open>
  C27. Nothing runs unchecked. The projector runs exactly when every check passes: the configuration loads
  and has mappings, the edge assignment and, where an element mapping needs it, the element
  configuration are valid, the store is configured, the declared loads are acceptable, and every
  mapping names a registered handler and decoder. Then each mapping has one worker, sound unless its
  handler owns its I/O, the element mappings in mode custom; the element configuration is usable where it
  is needed; and the declared loads are those of the file. With an exit code the declared
  loads are as they were, and the code is 2 only for a store that is not configured.
\<close>

theorem startup_checked:
  assumes "start_up su tbl = (st, tbl1)" "\<forall>s e. su_loads su s = Inl e \<longrightarrow> e = ValueError"
  shows "(is_running st \<longleftrightarrow> startable su) \<and> (case st of
      Running ru \<Rightarrow>
        list_all2 sound_setup (cf_mappings (ru_config ru)) (consumed (ru_tasks ru)) \<and> consumed (ru_tasks ru) \<noteq> []
        \<and> (ru_element ru = None \<longleftrightarrow> \<not> has_element_mapping (ru_config ru)) \<and> (case ru_element ru of Some c \<Rightarrow> config_ok c | None \<Rightarrow> True)
        \<and> declared_rows (su_declared su) = Inr tbl1 \<and> list_all valid_row tbl1
    | Exits n \<Rightarrow> tbl1 = tbl \<and> (n = 1 \<or> n = 2 \<and> store_dsn_from_env (su_dsn su) (su_host su) = None)
    | Stopped _ \<Rightarrow> tbl1 = tbl \<or> declared_rows (su_declared su) = Inr tbl1)"
proof (cases st)
  case (Running ru)
  with assms(1) have "start_up su tbl = (Running ru, tbl1)" by simp
  then obtain ws n where r: "load_config (su_config su) (su_parsed su) = Inr (ru_config ru)" "cf_mappings (ru_config ru) \<noteq> []"
    "startup_element su (ru_config ru) = Inr (ru_element ru)"
    "load_declared_load (su_declared su) (su_declared_rejected su) tbl = (Inr n, tbl1)"
    "rmap (setup_worker (su_loads su) (su_stubs su)) (cf_mappings (ru_config ru)) = Inr ws" "consumed (ru_tasks ru) = ws"
    by (rule running_cases)
  have "list_all2 sound_setup (cf_mappings (ru_config ru)) ws"
    using rmap_all2 [OF r(5)] by (rule list_all2_mono_in) (use setup_sound [OF _ assms(2)] loaded_elements [OF r(1)] in blast)
  moreover from this have "ws \<noteq> []" using r(2) by auto
  moreover have "(ru_element ru = None \<longleftrightarrow> \<not> has_element_mapping (ru_config ru)) \<and> (case ru_element ru of Some c \<Rightarrow> config_ok c | None \<Rightarrow> True)"
    using r(3) parse_config_ok by (cases "ru_element ru") (auto simp: startup_element_def res_simps split: if_splits)
  moreover have "declared_rows (su_declared su) = Inr tbl1" using declared_load_ok(3) r(4) by blast
  moreover note rows_valid [OF this]
  ultimately show ?thesis using Running r(6) start_up_running [of su tbl] assms(1) by simp
next
  case (Exits n)
  with start_up_running [of su tbl] start_up_table [OF assms(1)] start_up_exits [of su tbl n tbl1] assms(1)
  show ?thesis by simp
next
  case (Stopped e)
  with start_up_running [of su tbl] start_up_table [OF assms(1)] assms(1) show ?thesis by auto
qed

section \<open>An example\<close>

definition startup_doc :: dict where
  "startup_doc =
     [(''deadbands'', PDict [(''array'', PDict [(''temp_c'', PInt 2), (''load_pct'', PInt 5)])]),
      (''bands'', PDict [(''health'', PDict
         [(''limits'', PList [PInt 30]), (''names'', PList [PStr ''red'', PStr ''green'']), (''hysteresis'', PInt 5)])]),
      (''heartbeat_s'', PInt 60)]"

definition startup_loads :: "string \<Rightarrow> py res" where
  "startup_loads s = (if s = ''{}'' then Inr (PDict startup_doc) else Inl ValueError)"

definition sample_startup :: "string option \<Rightarrow> startup_env" where
  "sample_startup element_json =
     \<lparr>su_config = sample_config_env None, su_parsed = sample_parsed, su_km = flat_km, su_round2 = id, su_registered = [],
      su_loads = startup_loads, su_stubs = (\<lambda>_. None), su_element_json = element_json, su_metrics = None,
      su_dsn = None, su_host = Some ''db'', su_connect = None, su_declared = NotSet, su_declared_rejected = False,
      su_buffer_monitor = None, su_link_monitor = None\<rparr>"

text \<open>The same environment starts with an element configuration and does not without.\<close>

theorem startup_checked_witness:
  "is_running (fst (start_up (sample_startup (Some ''{}'')) [])) \<and> \<not> is_running (fst (start_up (sample_startup None) []))"
proof -
  have loads: "\<forall>s e. su_loads (sample_startup j) s = Inl e \<longrightarrow> e = ValueError" for j
    by (simp add: sample_startup_def startup_loads_def)
  have "startable (sample_startup (Some ''{}''))" "\<not> startable (sample_startup None)" by code_simp+
  with startup_checked [OF surjective_pairing loads, THEN conjunct1] show ?thesis by blast
qed

end
