(* ===== verification/Asset_Life.thy ===== *)
theory Asset_Life
  imports Telemetry_Lifecycle Sweeps Prune
begin

text \<open>
  The life of an asset's row in \<open>telemetry_latest_state\<close>: everything that writes the table, namely telemetry messages,
  the staleness sweep and the DELETE of the retention, as the steps of one machine in any order and
  at any clock readings; what every reachable table satisfies, and which changes of the operational
  status can happen at all.
\<close>

section \<open>The steps\<close>

datatype life_event =
    Message (claimed: "string option") (shown: bool) "py list"
  | Stale_Sweep
  | Pruned

inductive life_step :: "row \<Rightarrow> life_event \<Rightarrow> table \<Rightarrow> table \<Rightarrow> bool" for dflt where
  Message: "handle_telemetry_latest env key decoded = Inr (Wrote w) \<Longrightarrow>
      telemetry_claim (or_empty (dget decoded ''operational_state'')) (or_empty (dget decoded ''provenance''))
        = Inr (claim, field) \<Longrightarrow>
      run_write dflt w t = Inr (t', n) \<Longrightarrow>
      life_step dflt (Message claim (truthy (dget decoded ''kinematics'')) (write_key w)) t t'"
| Stale_Sweep: "life_step dflt Stale_Sweep t (fst (sweep_reporting_staleness w now t))"
| Pruned: "tables lifecycle_table = t \<Longrightarrow>
      life_step dflt Pruned t (prune_older_than now hours_us lifecycle_table column True tables lifecycle_table)"

inductive life :: "row \<Rightarrow> table \<Rightarrow> life_event list \<Rightarrow> table \<Rightarrow> bool" for dflt where
  Start: "life dflt t [] t"
| Step: "life dflt t es t1 \<Longrightarrow> life_step dflt e t1 t2 \<Longrightarrow> life dflt t (e # es) t2"

section \<open>What every reachable table satisfies\<close>

definition statuses :: "py set" where
  "statuses = PStr ` {''operational'', ''destroyed'', ''deactivated'', ''removed''}"

definition asset_ok :: "row \<Rightarrow> bool" where
  "asset_ok r \<longleftrightarrow> r ''asset_id'' \<noteq> PNone \<and> r ''operational_status'' \<in> statuses
     \<and> r ''reporting_status'' \<in> PStr ` {''reporting'', ''not_reporting''}"

text \<open>The column defaults of the schema.\<close>

definition life_schema :: "row \<Rightarrow> bool" where
  "life_schema dflt \<longleftrightarrow> dflt ''operational_status'' = PStr ''operational''
     \<and> dflt ''reporting_status'' \<in> PStr ` {''reporting'', ''not_reporting''}"

lemma message_row:
  assumes "handle_telemetry_latest env key decoded = Inr (Wrote w)"
    and "telemetry_claim (or_empty (dget decoded ''operational_state'')) (or_empty (dget decoded ''provenance''))
       = Inr (claim, field)"
    and "merge_row dflt w old = Some r"
  shows "r ''operational_status'' = (case old of
        Some q \<Rightarrow> status_after claim (truthy (dget decoded ''kinematics'')) (q ''operational_status'')
      | None \<Rightarrow> (case claim of Some c \<Rightarrow> PStr c | None \<Rightarrow> dflt ''operational_status''))
    \<and> r ''reporting_status'' \<in> {PStr ''reporting'', (case old of Some q \<Rightarrow> q | None \<Rightarrow> dflt) ''reporting_status''}"
proof -
  let ?base = "case old of Some q \<Rightarrow> q | None \<Rightarrow> dflt"
  have "status_only_shape env key decoded w \<or> full_shape env key decoded w"
    using telemetry_shapes [of env key decoded] assms(1) by (simp add: writes_def)
  then have "(old = None \<longrightarrow> r ''operational_status'' = (case claim of Some c \<Rightarrow> PStr c | None \<Rightarrow> dflt ''operational_status''))
    \<and> r ''reporting_status'' \<in> {PStr ''reporting'', ?base ''reporting_status''}"
  proof
    assume "status_only_shape env key decoded w"
    then obtain asset_id origin rel c where
      w: "w = telemetry_status_only env asset_id origin rel c" and
      a: "truthy asset_id" "map fst origin = [''edge_id'', ''region_id'']" "label_columns rel" and
      c: "operational_status_from_op_state (or_empty (dget decoded ''operational_state'')) = Inr (Some c)"
      by (auto simp: status_only_shape_def)
    have "claim = Some c" using assms(2) c by (simp add: telemetry_claim_def)
    moreover have "r = overlay (w_row w) ?base"
      using assms(3) by (auto simp: merge_row_def w status_only_fields revived_def split: option.splits if_splits)
    ultimately show ?thesis
      using overlay_status_only [OF a, where env = env and c = c] by (simp add: w label_names_def)
  next
    assume "full_shape env key decoded w"
    then obtain asset_id origin rel asset prov op_state rv posture claim' field' where
      w: "w = telemetry_full (telemetry_full_row env asset_id origin rel asset (dget decoded ''kinematics'')
           (dget decoded ''sustainment'') (or_empty (dget decoded ''provenance'')) prov op_state rv posture)
         env claim' (dget decoded ''kinematics'')" and
      a: "map fst origin = [''edge_id'', ''region_id'']" "label_columns rel" and
      c: "telemetry_claim (or_empty (dget decoded ''operational_state'')) (or_empty (dget decoded ''provenance''))
         = Inr (claim', field')"
      by (auto simp: full_shape_def)
    have cl: "claim' = claim" using assms(2) c by simp
    have "r = overlay (w_row w) ?base \<or> (\<exists>q. old = Some q \<and> r = revived w q (overlay (w_row w) q))"
      using assms(3) by (auto simp: merge_row_def w full_fields(3) split: option.splits if_splits)
    moreover have "revived w q (overlay (w_row w) q) ''reporting_status'' = overlay (w_row w) q ''reporting_status''" for q
      by (simp add: revived_def w full_fields(5) telemetry_revive_def)
    ultimately show ?thesis
      using overlay_full_status [OF a] overlay_full_reporting(1) [OF a] by (auto simp: w cl split: option.splits)
  qed
  moreover have "r ''operational_status'' = status_after claim (truthy (dget decoded ''kinematics'')) (q ''operational_status'')"
    if "old = Some q" for q
    using status_of_merge [OF assms(1,2), of dflt q] assms(3) that by auto
  ultimately show ?thesis by (auto split: option.splits)
qed

lemma message_write_ok:
  "handle_telemetry_latest env key decoded = Inr (Wrote w) \<Longrightarrow> life_schema dflt \<Longrightarrow> ok_write dflt [''asset_id''] w"
  by (rule telemetry_ok_write) (simp_all add: life_schema_def status_defs)

lemma claim_status: "telemetry_claim os p = Inr (Some c, f) \<Longrightarrow> c \<in> {''destroyed'', ''deactivated'', ''removed''}"
  using telemetry_claim_terminal by (force simp: terminal_operational_statuses_def status_defs)

lemma message_asset_ok:
  assumes "handle_telemetry_latest env key decoded = Inr (Wrote w)"
    and "telemetry_claim (or_empty (dget decoded ''operational_state'')) (or_empty (dget decoded ''provenance''))
       = Inr (claim, field)"
    and "life_schema dflt" "\<forall>q. old = Some q \<longrightarrow> asset_ok q" "merge_row dflt w old = Some r" "row_hit w r"
  shows "asset_ok r"
proof -
  have ok: "ok_write dflt [''asset_id''] w" using message_write_ok [OF assms(1,3)] .
  then have "dget (w_row w) ''asset_id'' \<noteq> PNone" "r ''asset_id'' = dget (w_row w) ''asset_id''"
    using wf_writeD(4) [of w "''asset_id''"] assms(6) by (auto simp: ok_write_def row_hit_def write_key_def)
  with message_row [OF assms(1,2,5)] assms(3,4) claim_status [of _ _ _ field] assms(2) show ?thesis
    by (auto simp: asset_ok_def statuses_def life_schema_def status_after_def split: option.splits if_splits)
qed

lemma life_step_ok:
  assumes "life_step dflt e t t'" "life_schema dflt" "keyed_rows ''asset_id'' asset_ok t"
  shows "keyed_rows ''asset_id'' asset_ok t'"
  using assms(1)
proof cases
  case (Message env key decoded w claim field n)
  have ok: "ok_write dflt [''asset_id''] w" by (rule message_write_ok [OF Message(2) assms(2)])
  then have "t' = apply_write dflt w t" using Message(4) run_write_refines [of w dflt t] by (simp add: ok_write_def)
  with keyed_rows_write [OF ok assms(3)] message_asset_ok [OF Message(2,3) assms(2)] show ?thesis by simp
next
  case (Stale_Sweep w now)
  have "keyed_rows ''asset_id'' asset_ok (map (\<lambda>r. if staleness_guard w now r then staleness_act now r else r) t)"
    by (rule keyed_rows_map [OF assms(3)])
      (simp add: asset_ok_def staleness_act_def sweep_columns status_defs)
  with Stale_Sweep show ?thesis by (simp add: sweep_reporting_staleness_def sweep_rows_def)
next
  case (Pruned tables now hours_us column)
  with assms(3) show ?thesis by (auto simp: prune_older_than_def intro: keyed_rows_filter)
qed

text \<open>The row of one asset under a step.\<close>

lemma life_step_row:
  assumes "life_step dflt e t t'" "life_schema dflt" "keyed_rows ''asset_id'' asset_ok t"
    "lookup_row [''asset_id''] t [a] = Some r"
  shows "case lookup_row [''asset_id''] t' [a] of
      None \<Rightarrow> e = Pruned \<and> terminal_row r
    | Some r' \<Rightarrow> r' ''operational_status'' = r ''operational_status''
        \<or> (\<exists>c seen. e = Message (Some c) seen [a] \<and> r' ''operational_status'' = PStr c
            \<and> c \<in> {''destroyed'', ''deactivated'', ''removed''})
        \<or> e = Message None True [a] \<and> r ''operational_status'' = PStr ''deactivated''
            \<and> r' ''operational_status'' = PStr ''operational''"
  using assms(1)
proof cases
  case (Message env key decoded w claim field n)
  have ok: "ok_write dflt [''asset_id''] w" by (rule message_write_ok [OF Message(2) assms(2)])
  then have t': "t' = apply_write dflt w t" using Message(4) run_write_refines [of w dflt t] by (simp add: ok_write_def)
  show ?thesis
  proof (cases "write_key w = [a]")
    case True
    from telemetry_status_one_way [OF Message(2,3), of dflt t r] assms(2,4) True obtain r' where
      "lookup_row [''asset_id''] t' [a] = Some r'"
      "r' ''operational_status'' = status_after claim (truthy (dget decoded ''kinematics'')) (r ''operational_status'')"
      by (auto simp: t' life_schema_def status_defs)
    with True Message(1) claim_status [of _ _ _ field] Message(3) show ?thesis
      by (auto simp: status_after_def split: option.splits if_splits)
  next
    case False
    with assms(4) t' pg.lookup_other [OF ok, of "[a]" t] show ?thesis by simp
  qed
next
  case (Stale_Sweep w now)
  with assms(4) staleness_lookup [of "[''asset_id'']" w now t "[a]"] show ?thesis
    by (auto simp: sweep_columns staleness_act_frame)
next
  case (Pruned tables now hours_us column)
  let ?p = "\<lambda>r. \<not> prunable now hours_us lifecycle_table column True tables r"
  have "t' = filter ?p t" using Pruned by (simp add: prune_older_than_def)
  with lookup_filter_unique [OF assms(3,4), of ?p] Pruned(1) show ?thesis
    by (auto simp: prunable_def)
qed

lemma life_ok:
  "life dflt t es t' \<Longrightarrow> life_schema dflt \<Longrightarrow> keyed_rows ''asset_id'' asset_ok t \<Longrightarrow> keyed_rows ''asset_id'' asset_ok t'"
  by (induction rule: life.induct) (auto intro: life_step_ok)

lemma life_claims: "life dflt t es t' \<Longrightarrow> Message (Some c) seen k \<in> set es \<Longrightarrow> c \<in> {''destroyed'', ''deactivated'', ''removed''}"
proof (induction rule: life.induct)
  case (Step t es t1 e t2)
  from Step(2) have "e = Message (Some c) seen k \<Longrightarrow> c \<in> {''destroyed'', ''deactivated'', ''removed''}"
    by cases (blast dest: claim_status | simp)+
  with Step show ?case by auto
qed simp

section \<open>What can become of an asset\<close>

text \<open>A status that no step of a history leaves.\<close>

definition stays_in :: "py set \<Rightarrow> py \<Rightarrow> life_event \<Rightarrow> bool" where
  "stays_in S a e \<longleftrightarrow>
     (case e of
        Message (Some c) _ k \<Rightarrow> k = [a] \<longrightarrow> PStr c \<in> S
      | Message None _ _ \<Rightarrow> PStr ''deactivated'' \<notin> S
      | Stale_Sweep \<Rightarrow> True
      | Pruned \<Rightarrow> S \<inter> PStr ` {''destroyed'', ''deactivated'', ''removed''} = {})"

lemma life_stays:
  assumes "life dflt t es t'" "life_schema dflt" "keyed_rows ''asset_id'' asset_ok t" "\<forall>e\<in>set es. stays_in S a e"
    "lookup_row [''asset_id''] t [a] = Some r" "r ''operational_status'' \<in> S"
  shows "\<exists>r'. lookup_row [''asset_id''] t' [a] = Some r' \<and> r' ''operational_status'' \<in> S"
  using assms
proof (induction rule: life.induct)
  case (Step t es t1 e t2)
  then obtain r1 where r1: "lookup_row [''asset_id''] t1 [a] = Some r1" "r1 ''operational_status'' \<in> S"
    by (auto simp del: lookup_row_None)
  have "keyed_rows ''asset_id'' asset_ok t1" using life_ok Step by blast
  from life_step_row [OF Step(2,4) this r1(1)] r1(2) Step(6) show ?case
    by (auto simp: stays_in_def terminal_row_def terminal_operational_statuses_def status_defs
        split: option.splits)
qed simp

text \<open>
  C9. What an asset's record says of it is one-way. Take the table after any messages, staleness sweeps and
  prune statements in any order, and let any more of them follow. Each asset has one row, its
  operational status is one of the four and its reporting status one of the two. An operational
  asset that nothing claims to be gone keeps its row and stays operational, however long it is
  silent, whatever is pruned. A destroyed or removed asset stays so until a statement of the
  retention deletes its row: no message about its health, position or other claim brings it back,
  unless one claims that it was deactivated.
\<close>

theorem asset_life:
  assumes "life dflt [] before t" "life dflt t es t'" "life_schema dflt"
    and "lookup_row [''asset_id''] t [a] = Some r"
  shows "keyed_rows ''asset_id'' asset_ok t'
    \<and> (r ''operational_status'' = PStr ''operational'' \<and> (\<forall>c seen. Message (Some c) seen [a] \<notin> set es) \<longrightarrow>
        (\<exists>r'. lookup_row [''asset_id''] t' [a] = Some r' \<and> r' ''operational_status'' = PStr ''operational''))
    \<and> (r ''operational_status'' \<in> {PStr ''destroyed'', PStr ''removed''}
          \<and> (\<forall>seen. Message (Some ''deactivated'') seen [a] \<notin> set es) \<and> Pruned \<notin> set es \<longrightarrow>
        (\<exists>r'. lookup_row [''asset_id''] t' [a] = Some r' \<and> r' ''operational_status'' \<in> {PStr ''destroyed'', PStr ''removed''}))"
proof -
  have t: "keyed_rows ''asset_id'' asset_ok t"
    by (rule life_ok [OF assms(1,3)]) (simp add: keyed_rows_def)
  have "\<forall>e\<in>set es. stays_in {PStr ''operational''} a e" if "\<forall>c seen. Message (Some c) seen [a] \<notin> set es"
    using that by (auto simp: stays_in_def split: life_event.split option.split)
  moreover have "\<forall>e\<in>set es. stays_in {PStr ''destroyed'', PStr ''removed''} a e"
    if "\<forall>seen. Message (Some ''deactivated'') seen [a] \<notin> set es" "Pruned \<notin> set es"
  proof
    fix e
    assume e: "e \<in> set es"
    show "stays_in {PStr ''destroyed'', PStr ''removed''} a e"
    proof (cases e)
      case (Message claim seen k)
      with e that(1) life_claims [OF assms(2), of _ seen k] show ?thesis by (cases claim) (auto simp: stays_in_def)
    qed (use e that(2) in \<open>auto simp: stays_in_def\<close>)
  qed
  ultimately show ?thesis
    using life_ok [OF assms(2,3) t] life_stays [OF assms(2,3) t _ assms(4), of "{PStr ''operational''}"]
      life_stays [OF assms(2,3) t _ assms(4), of "{PStr ''destroyed'', PStr ''removed''}"] by auto
qed

section \<open>An example\<close>

definition life_defaults :: row where
  "life_defaults = (\<lambda>_. PNone)(''operational_status'' := PStr ''operational'', ''reporting_status'' := PStr ''reporting'')"

definition executed :: "pg_write \<Rightarrow> table \<Rightarrow> table" where
  "executed w t = (case run_write life_defaults w t of Inr (t', _) \<Rightarrow> t' | Inl _ \<Rightarrow> t)"

definition seen_table :: table where
  "seen_table = executed (written (handle_telemetry_latest sample_env [] seen_message)) []"

definition removed_table :: table where
  "removed_table = executed (written (handle_telemetry_latest sample_env [] removal_message)) seen_table"

lemma sample_steps:
  "life_step life_defaults (Message None True [PStr ''a'']) [] seen_table"
  "life_step life_defaults (Message (Some ''removed'') False [PStr ''a'']) seen_table removed_table"
  "life_step life_defaults (Message None True [PStr ''a'']) t
     (executed (written (handle_telemetry_latest sample_env [] seen_message)) t)"
proof -
  have run: "run_write life_defaults (written (handle_telemetry_latest sample_env [] m)) t
      = Inr (executed (written (handle_telemetry_latest sample_env [] m)) t,
             write_count (written (handle_telemetry_latest sample_env [] m)) t)"
    if "handle_telemetry_latest sample_env [] m = Inr (Wrote (written (handle_telemetry_latest sample_env [] m)))" for m t
    using run_write_refines [of "written (handle_telemetry_latest sample_env [] m)" life_defaults t]
      telemetry_wf [of sample_env "[]" m] that by (simp add: executed_def writes_def)
  show "life_step life_defaults (Message None True [PStr ''a'']) [] seen_table"
    using life_step.Message [OF seen_handled(1,2) run [OF seen_handled(1)]] seen_handled(3,4) by (simp add: seen_table_def)
  show "life_step life_defaults (Message (Some ''removed'') False [PStr ''a'']) seen_table removed_table"
    using life_step.Message [OF removal_handled(1,2) run [OF removal_handled(1)]] removal_handled(3,4) by (simp add: removed_table_def)
  show "life_step life_defaults (Message None True [PStr ''a'']) t
     (executed (written (handle_telemetry_latest sample_env [] seen_message)) t)"
    using life_step.Message [OF seen_handled(1,2) run [OF seen_handled(1)]] seen_handled(3,4) by simp
qed

text \<open>Seen, removed, silent, and seen again: it stays removed.\<close>

theorem asset_life_witness:
  "\<exists>r'. lookup_row [''asset_id''] (executed (written (handle_telemetry_latest sample_env [] seen_message))
       (fst (sweep_reporting_staleness 30 99000000 removed_table))) [PStr ''a''] = Some r'
     \<and> r' ''operational_status'' \<in> {PStr ''destroyed'', PStr ''removed''}"
proof -
  have before: "life life_defaults [] [Message (Some ''removed'') False [PStr ''a''], Message None True [PStr ''a'']] removed_table"
    by (rule Step [OF Step [OF Start sample_steps(1)] sample_steps(2)])
  have later: "life life_defaults removed_table [Message None True [PStr ''a''], Stale_Sweep]
      (executed (written (handle_telemetry_latest sample_env [] seen_message)) (fst (sweep_reporting_staleness 30 99000000 removed_table)))"
    by (rule Step [OF Step [OF Start life_step.Stale_Sweep] sample_steps(3)])
  have "life_schema life_defaults" by (simp add: life_schema_def life_defaults_def)
  moreover have "map_option (\<lambda>r. r ''operational_status'') (lookup_row [''asset_id''] removed_table [PStr ''a'']) = Some (PStr ''removed'')"
    by code_simp
  then obtain r where "lookup_row [''asset_id''] removed_table [PStr ''a''] = Some r" "r ''operational_status'' = PStr ''removed''"
    by (cases "lookup_row [''asset_id''] removed_table [PStr ''a'']") simp_all
  ultimately show ?thesis using asset_life [OF before later] by simp
qed

end
