(* ===== verification/Munitions.thy ===== *)
theory Munitions
  imports Terminal
begin

text \<open>
  The munition track table of \<open>persistence/postgres.py\<close>: the trail kept on a track
  (\<open>next_munition_trail\<close>, the column probe), \<open>upsert_munition_track\<close> with its insert race,
  \<open>join_munition_track_launcher\<close>, the launcher heal in both scopes, \<open>terminate_munition_track\<close>
  and the silence sweep.

  The store is the pair of tables these transactions read and write. What other transactions commit
  between the launch read and the INSERT of \<open>upsert_munition_track\<close> is an argument (\<open>rivals\<close>): a
  function on the store per turn of the loop. The row lock taken by SELECT ... FOR UPDATE is what
  makes the rest of a transaction one step. ORDER BY launched_at DESC puts a NULL first, and of
  several newest rows SQL may pick any; the model picks the first.
\<close>

section \<open>The trail\<close>

definition munition_trail_samples :: nat where
  "munition_trail_samples = 10"

definition trail_eps :: rat where
  "trail_eps = 1 / 1000000"

text \<open>
  \<open>abs(l - x) <= eps\<close> on floats: false when either side is infinite or NaN. The column is
  \<open>double precision[]\<close>, so its elements are floats.
\<close>

definition close_to :: "py \<Rightarrow> flt \<Rightarrow> bool" where
  "close_to l x = (case (l, x) of (PFloat (Fin a), Fin b) \<Rightarrow> \<bar>a - b\<bar> \<le> trail_eps | _ \<Rightarrow> False)"

definition last_n :: "nat \<Rightarrow> 'a list \<Rightarrow> 'a list" where
  "last_n n xs = drop (length xs - n) xs"

definition next_munition_trail :: "py list option \<Rightarrow> flt \<Rightarrow> flt \<Rightarrow> flt \<Rightarrow> py list" where
  "next_munition_trail prev x y z =
     (case prev of
        None \<Rightarrow> [PFloat x, PFloat y, PFloat z]
      | Some p \<Rightarrow>
          (if p = [] \<or> length p mod 3 \<noteq> 0 then [PFloat x, PFloat y, PFloat z]
           else if close_to (p ! (length p - 3)) x \<and> close_to (p ! (length p - 2)) y
                   \<and> close_to (p ! (length p - 1)) z then p
           else last_n (3 * (munition_trail_samples - 1)) p @ [PFloat x, PFloat y, PFloat z]))"

text \<open>The answer of the column probe: True is kept, False is believed for 300 seconds.\<close>

record trail_probe =
  tp_supported :: "bool option"
  tp_recheck_at :: rat

definition trail_probe_retry_s :: rat where
  "trail_probe_retry_s = 300"

definition munition_trail_supported :: "rat \<Rightarrow> bool \<Rightarrow> trail_probe \<Rightarrow> bool \<times> trail_probe" where
  "munition_trail_supported now found p =
     (if tp_supported p = Some True then (True, p)
      else if tp_supported p = Some False \<and> now < tp_recheck_at p then (False, p)
      else
        (let p1 = p\<lparr>tp_supported := Some found\<rparr> in
         if found then (True, p1)
         else (False, p1\<lparr>tp_recheck_at := now + trail_probe_retry_s\<rparr>)))"

section \<open>The store and its joins\<close>

record munition_store =
  ms_launches :: table
  ms_tracks :: table

text \<open>\<open>b\<close> sorts after \<open>a\<close> in \<open>ORDER BY launched_at DESC\<close>, NULLs first.\<close>

definition launched_later :: "row \<Rightarrow> row \<Rightarrow> bool" where
  "launched_later a b =
     (case (a ''launched_at'', b ''launched_at'') of
        (PNone, PNone) \<Rightarrow> False
      | (PNone, _) \<Rightarrow> True
      | (PTime s, PTime t) \<Rightarrow> t < s
      | _ \<Rightarrow> False)"

definition newest_launch :: "py \<Rightarrow> table \<Rightarrow> row option" where
  "newest_launch m launches =
     foldl (\<lambda>best r. case best of None \<Rightarrow> Some r
              | Some b \<Rightarrow> if launched_later r b then Some r else best)
       None (filter (\<lambda>r. r ''munition_asset_id'' = m \<and> m \<noteq> PNone) launches)"

definition coalesce :: "py \<Rightarrow> py \<Rightarrow> py" where
  "coalesce a b = (if a \<noteq> PNone then a else b)"

record launch_labels =
  ll_launcher :: py
  ll_event_urn :: py
  ll_edge_id :: py
  ll_region_id :: py
  ll_originator_nation :: py
  ll_releasable_to :: py

definition labels_of :: "row \<Rightarrow> launch_labels" where
  "labels_of l = \<lparr>ll_launcher = l ''launcher_asset_id'', ll_event_urn = l ''event_urn'',
     ll_edge_id = l ''edge_id'', ll_region_id = l ''region_id'',
     ll_originator_nation = l ''originator_nation'', ll_releasable_to = l ''releasable_to''\<rparr>"

definition label_track :: "launch_labels \<Rightarrow> int \<Rightarrow> row \<Rightarrow> row" where
  "label_track l now t = t(''launcher_asset_id'' := ll_launcher l, ''event_urn'' := ll_event_urn l,
     ''edge_id'' := coalesce (ll_edge_id l) (t ''edge_id''),
     ''region_id'' := coalesce (ll_region_id l) (t ''region_id''),
     ''originator_nation'' := ll_originator_nation l, ''releasable_to'' := ll_releasable_to l,
     ''updated_at'' := PTime now)"

definition join_munition_track_launcher ::
  "py \<Rightarrow> launch_labels \<Rightarrow> int \<Rightarrow> table \<Rightarrow> table \<times> nat" where
  "join_munition_track_launcher m l now tracks =
     sweep_rows (\<lambda>t. t ''munition_asset_id'' = m \<and> m \<noteq> PNone \<and> t ''launcher_asset_id'' = PNone)
       (label_track l now) tracks"

text \<open>The heal UPDATE; \<open>only\<close> is the munition of the scoped form.\<close>

definition heal_guard :: "py option \<Rightarrow> table \<Rightarrow> row \<Rightarrow> bool" where
  "heal_guard only launches t \<longleftrightarrow>
     t ''launcher_asset_id'' = PNone
     \<and> newest_launch (t ''munition_asset_id'') launches \<noteq> None
     \<and> (case only of None \<Rightarrow> True | Some m \<Rightarrow> t ''munition_asset_id'' = m)"

definition heal_act :: "table \<Rightarrow> int \<Rightarrow> row \<Rightarrow> row" where
  "heal_act launches now t =
     (case newest_launch (t ''munition_asset_id'') launches of
        None \<Rightarrow> t
      | Some l \<Rightarrow> label_track (labels_of l) now t)"

definition heal_tracks :: "py option \<Rightarrow> int \<Rightarrow> munition_store \<Rightarrow> munition_store \<times> nat" where
  "heal_tracks only now s =
     (let (t, n) = sweep_rows (heal_guard only (ms_launches s)) (heal_act (ms_launches s) now)
        (ms_tracks s)
      in (s\<lparr>ms_tracks := t\<rparr>, n))"

definition heal_one :: "py \<Rightarrow> int \<Rightarrow> munition_store \<Rightarrow> munition_store \<times> bool" where
  "heal_one m now s = (let (s', n) = heal_tracks (Some m) now s in (s', n > 0))"

definition heal_munition_track_launchers :: "int \<Rightarrow> munition_store \<Rightarrow> munition_store \<times> nat" where
  "heal_munition_track_launchers now s = heal_tracks None now s"

section \<open>upsert\<close>

record track_sample =
  ts_munition :: py
  ts_type :: py
  ts_x :: flt
  ts_y :: flt
  ts_z :: flt
  ts_time :: int
  ts_edge :: py
  ts_region :: py
  ts_now :: int

datatype track_outcome = Inserted | Advanced | Stale | AfterTerminal

definition launch_column :: "row option \<Rightarrow> string \<Rightarrow> py" where
  "launch_column l c = (case l of None \<Rightarrow> PNone | Some r \<Rightarrow> r c)"

definition insert_track :: "row \<Rightarrow> bool \<Rightarrow> track_sample \<Rightarrow> row option \<Rightarrow> row" where
  "insert_track dflt trail s l =
     overlay ([(''munition_asset_id'', ts_munition s),
         (''launcher_asset_id'', launch_column l ''launcher_asset_id''),
         (''event_urn'', launch_column l ''event_urn''),
         (''munition_type'', ts_type s),
         (''ecef_x'', PFloat (ts_x s)), (''ecef_y'', PFloat (ts_y s)), (''ecef_z'', PFloat (ts_z s)),
         (''first_seen_at'', PTime (ts_time s)), (''last_sample_at'', PTime (ts_time s)),
         (''last_heard_at'', PTime (ts_now s)),
         (''edge_id'', py_or (launch_column l ''edge_id'') (ts_edge s)),
         (''region_id'', py_or (launch_column l ''region_id'') (ts_region s)),
         (''originator_nation'', launch_column l ''originator_nation''),
         (''releasable_to'', launch_column l ''releasable_to''),
         (''updated_at'', PTime (ts_now s))]
       @ (if trail then [(''trail_ecef'', PList [PFloat (ts_x s), PFloat (ts_y s), PFloat (ts_z s)])]
          else [])) dflt"

definition trail_of :: "row \<Rightarrow> py list option" where
  "trail_of r = (case r ''trail_ecef'' of PList p \<Rightarrow> Some p | _ \<Rightarrow> None)"

definition advance_track :: "bool \<Rightarrow> track_sample \<Rightarrow> py list option \<Rightarrow> row \<Rightarrow> row" where
  "advance_track trail s prev r =
     (let r1 = r(''ecef_x'' := PFloat (ts_x s), ''ecef_y'' := PFloat (ts_y s),
           ''ecef_z'' := PFloat (ts_z s), ''last_sample_at'' := PTime (ts_time s),
           ''last_heard_at'' := PTime (ts_now s), ''updated_at'' := PTime (ts_now s))
      in if trail then r1(''trail_ecef'' := PList (next_munition_trail prev (ts_x s) (ts_y s) (ts_z s)))
         else r1)"

definition touch_track :: "track_sample \<Rightarrow> row \<Rightarrow> row" where
  "touch_track s r = r(''last_heard_at'' := PTime (ts_now s), ''updated_at'' := PTime (ts_now s))"

text \<open>The part after the loop, on the row \<open>r\<close> selected FOR UPDATE.\<close>

definition heal_if :: "bool \<Rightarrow> track_sample \<Rightarrow> munition_store \<Rightarrow> munition_store \<times> bool" where
  "heal_if unlabelled s st =
     (if unlabelled then heal_one (ts_munition s) (ts_now s) st else (st, False))"

definition write_existing ::
  "bool \<Rightarrow> track_sample \<Rightarrow> row \<Rightarrow> munition_store \<Rightarrow> ((track_outcome \<times> bool) \<times> munition_store) res" where
  "write_existing trail s r st =
     (let unlabelled = (r ''launcher_asset_id'' = PNone);
          set_track = (\<lambda>f. st\<lparr>ms_tracks :=
             update_where ''munition_asset_id'' (ts_munition s) f (ms_tracks st)\<rparr>)
      in
      if r ''terminal_state'' \<noteq> PNone then
        (let (st', j) = heal_if unlabelled s st in Inr ((AfterTerminal, j), st'))
      else
        (case r ''last_sample_at'' of
           PTime seen \<Rightarrow>
             (if seen < ts_time s then
                (let (st', j) = heal_if unlabelled s (set_track (advance_track trail s (trail_of r)))
                 in Inr ((Advanced, j), st'))
              else
                (let (st', j) = heal_if unlabelled s (set_track (touch_track s))
                 in Inr ((Stale, j), st')))
         | _ \<Rightarrow> Inl TypeError))"

fun upsert_loop ::
  "row \<Rightarrow> bool \<Rightarrow> track_sample \<Rightarrow> (munition_store \<Rightarrow> munition_store) list \<Rightarrow> munition_store
     \<Rightarrow> ((track_outcome \<times> bool) \<times> munition_store) res" where
  "upsert_loop dflt trail s [] st = Inr ((Stale, False), st)"
| "upsert_loop dflt trail s (rival # rs) st =
     (case select_one ''munition_asset_id'' (ts_munition s) (ms_tracks st) of
        Some r \<Rightarrow> write_existing trail s r st
      | None \<Rightarrow>
          (let l = newest_launch (ts_munition s) (ms_launches st);
               st1 = rival st
           in if row_exists ''munition_asset_id'' (ts_munition s) (ms_tracks st1)
              then upsert_loop dflt trail s rs st1
              else Inr ((Inserted, l \<noteq> None),
                 st1\<lparr>ms_tracks := ms_tracks st1 @ [insert_track dflt trail s l]\<rparr>)))"

definition upsert_munition_track ::
  "row \<Rightarrow> bool \<Rightarrow> track_sample \<Rightarrow> (munition_store \<Rightarrow> munition_store)
     \<Rightarrow> (munition_store \<Rightarrow> munition_store) \<Rightarrow> munition_store
     \<Rightarrow> ((track_outcome \<times> bool) \<times> munition_store) res" where
  "upsert_munition_track dflt trail s rival1 rival2 st =
     upsert_loop dflt trail s [rival1, rival2] st"

section \<open>terminate and the silence sweep\<close>

datatype terminate_outcome = Terminated | LateTerminated | AlreadyTerminal | Skipped

definition terminate_munition_track ::
  "py \<Rightarrow> py \<Rightarrow> detonation \<Rightarrow> munition_store \<Rightarrow> terminate_outcome \<times> munition_store" where
  "terminate_munition_track m event_urn d st =
     (let key = py_or m (launch_column (select_one ''event_urn'' event_urn (ms_launches st))
                          ''munition_asset_id'')
      in
      if \<not> truthy key then (Skipped, st)
      else
        (case select_one ''munition_asset_id'' key (ms_tracks st) of
           None \<Rightarrow> (Skipped, st)
         | Some r \<Rightarrow>
             (let st1 = fst (heal_one key (d_now d) st);
                  old_state = r ''terminal_state''
              in
              if old_state \<noteq> PNone \<and> old_state \<noteq> PStr ''silent'' then (AlreadyTerminal, st1)
              else
                (let late = (old_state = PStr ''silent'') in
                 (if late then LateTerminated else Terminated,
                  st1\<lparr>ms_tracks := update_where ''munition_asset_id'' key (close_row d late)
                     (ms_tracks st1)\<rparr>)))))"

definition silence_guard :: "rat \<Rightarrow> int \<Rightarrow> row \<Rightarrow> bool" where
  "silence_guard silence_s now r \<longleftrightarrow>
     r ''terminal_state'' = PNone \<and> older_than (r ''last_heard_at'') now silence_s"

definition silence_act :: "int \<Rightarrow> row \<Rightarrow> row" where
  "silence_act now r = r(''terminal_state'' := PStr ''silent'',
     ''terminated_at'' := PTime now, ''updated_at'' := PTime now)"

definition sweep_munition_track_silence :: "rat \<Rightarrow> int \<Rightarrow> table \<Rightarrow> table \<times> nat" where
  "sweep_munition_track_silence silence_s now tracks =
     sweep_rows (silence_guard silence_s now) (silence_act now) tracks"

text \<open>
  \<open>munition_track_sweep.sweep_pass\<close>: the silence sweep, then the heal, each with its own clock
  reading; \<open>ok1\<close> and \<open>ok2\<close> tell whether the store answered, a failure being logged and passed over.
\<close>

definition sweep_pass :: "rat \<Rightarrow> bool \<Rightarrow> int \<Rightarrow> bool \<Rightarrow> int \<Rightarrow> munition_store \<Rightarrow> munition_store" where
  "sweep_pass silence_s ok1 now1 ok2 now2 st =
     (let st1 = (if ok1 then st\<lparr>ms_tracks := fst (sweep_munition_track_silence silence_s now1 (ms_tracks st))\<rparr>
                 else st)
      in if ok2 then fst (heal_munition_track_launchers now2 st1) else st1)"

section \<open>What the trail keeps\<close>

type_synonym point = "flt \<times> flt \<times> flt"

definition near :: "point \<Rightarrow> point \<Rightarrow> bool" where
  "near p q \<longleftrightarrow> (case (p, q) of ((a, b, c), (x, y, z)) \<Rightarrow>
     close_to (PFloat a) x \<and> close_to (PFloat b) y \<and> close_to (PFloat c) z)"

fun flat :: "point list \<Rightarrow> py list" where
  "flat [] = []"
| "flat ((a, b, c) # ts) = PFloat a # PFloat b # PFloat c # flat ts"

text \<open>A point is kept when it is not near the last one kept.\<close>

definition keep_point :: "point list \<Rightarrow> point \<Rightarrow> point list" where
  "keep_point ts p = (if ts \<noteq> [] \<and> near (last ts) p then ts else ts @ [p])"

definition kept :: "point list \<Rightarrow> point list" where
  "kept ps = foldl keep_point [] ps"

lemma flat_append [simp]: "flat (ts @ us) = flat ts @ flat us"
  by (induction ts rule: flat.induct) auto

lemma length_flat [simp]: "length (flat ts) = 3 * length ts"
  by (induction ts rule: flat.induct) auto

lemma flat_Nil_iff [simp]: "flat ts = [] \<longleftrightarrow> ts = []"
  by (cases ts) auto

lemma drop_flat: "drop (3 * n) (flat ts) = flat (drop n ts)"
proof (induction ts arbitrary: n rule: flat.induct)
  case (2 a b c ts)
  have "drop (3 * Suc m) (PFloat a # PFloat b # PFloat c # flat ts) = drop (3 * m) (flat ts)" for m
    by (simp add: numeral_3_eq_3)
  with 2 show ?case by (cases n) simp_all
qed simp

lemma last_n_flat: "last_n (3 * n) (flat ts) = flat (last_n n ts)"
  using drop_flat [of "length ts - n" ts] by (simp add: last_n_def diff_mult_distrib2)

lemma next_trail_flat:
  "next_munition_trail (Some (flat ts)) x y z
     = flat (if ts \<noteq> [] \<and> near (last ts) (x, y, z) then ts
             else last_n (munition_trail_samples - 1) ts @ [(x, y, z)])"
proof (cases ts rule: rev_cases)
  case Nil
  then show ?thesis by (simp add: next_munition_trail_def last_n_def)
next
  case (snoc us p)
  obtain a b c where p: "p = (a, b, c)" by (cases p) auto
  have at: "flat ts ! (length (flat ts) - 3) = PFloat a" "flat ts ! (length (flat ts) - 2) = PFloat b"
      "flat ts ! (length (flat ts) - 1) = PFloat c"
    by (simp_all add: snoc p nth_append)
  have "last_n (3 * (munition_trail_samples - 1)) (flat ts) = flat (last_n (munition_trail_samples - 1) ts)"
    by (rule last_n_flat)
  with at show ?thesis
    using snoc p unfolding next_munition_trail_def near_def
    by (simp add: snoc p)
qed

lemma last_n_rev: "last_n n xs = rev (take n (rev xs))"
  by (simp add: last_n_def take_rev)

lemma last_n_append: "0 < n \<Longrightarrow> last_n n (xs @ [x]) = last_n (n - 1) (last_n n xs) @ [x]"
  by (cases n) (simp_all add: last_n_rev min_def)

lemma last_n_last: "0 < n \<Longrightarrow> xs \<noteq> [] \<Longrightarrow> last_n n xs \<noteq> [] \<and> last (last_n n xs) = last xs"
proof -
  assume "0 < n" "xs \<noteq> []"
  then have "length xs - n < length xs" by (cases xs) auto
  then show ?thesis by (simp add: last_n_def)
qed

lemma trail_step:
  "next_munition_trail (Some (flat (last_n 10 ts))) x y z = flat (last_n 10 (keep_point ts (x, y, z)))"
proof (cases "ts = []")
  case True
  then show ?thesis by (simp add: next_munition_trail_def keep_point_def last_n_def)
next
  case False
  with last_n_last [of 10 ts] last_n_append [of 10 ts "(x, y, z)"] show ?thesis
    by (simp add: next_trail_flat keep_point_def munition_trail_samples_def del: flat_append)
qed

lemma kept_snoc: "kept (ps @ [p]) = keep_point (kept ps) p"
  by (simp add: kept_def)

lemma kept_nonempty: "ps \<noteq> [] \<Longrightarrow> kept ps \<noteq> []"
  by (cases ps rule: rev_cases) (simp_all add: kept_snoc keep_point_def)

definition add_point :: "py list option \<Rightarrow> point \<Rightarrow> py list option" where
  "add_point prev p = (case p of (x, y, z) \<Rightarrow> Some (next_munition_trail prev x y z))"

lemma trail_after_points: "ps \<noteq> [] \<Longrightarrow> foldl add_point None ps = Some (flat (last_n 10 (kept ps)))"
proof (induction ps rule: rev_induct)
  case (snoc p ps)
  obtain x y z where p: "p = (x, y, z)" by (cases p) auto
  show ?case
  proof (cases "ps = []")
    case True
    then show ?thesis
      by (simp add: p add_point_def next_munition_trail_def kept_def keep_point_def last_n_def)
  next
    case False
    with snoc.IH show ?thesis by (simp add: p add_point_def trail_step kept_snoc)
  qed
qed simp

lemma keep_point_adjacent:
  assumes "successively (\<lambda>p q. \<not> near p q) ts"
  shows "successively (\<lambda>p q. \<not> near p q) (keep_point ts p)"
  using assms by (auto simp: keep_point_def successively_append_iff)

lemma kept_adjacent: "successively (\<lambda>p q. \<not> near p q) (kept ps)"
  by (induction ps rule: rev_induct)
    (simp_all add: kept_snoc keep_point_adjacent, simp add: kept_def)

lemma successively_drop: "successively P xs \<Longrightarrow> successively P (drop n xs)"
  by (metis append_take_drop_id successively_append_iff)

lemma near_refl: "p = (Fin a, Fin b, Fin c) \<Longrightarrow> near p p"
  by (simp add: near_def close_to_def trail_eps_def)

lemma kept_last:
  assumes "ps \<noteq> []" "last ps = (Fin a, Fin b, Fin c)"
  shows "near (last (kept ps)) (last ps)"
proof (cases ps rule: rev_cases)
  case (snoc qs p)
  with assms(2) show ?thesis
    by (auto simp: kept_snoc keep_point_def near_refl)
qed (use assms in simp)

text \<open>
  After any non-empty run of samples the trail is exactly the last ten points kept, flattened
  oldest first, where a point is kept when it is not within a millionth per axis of the last point
  kept. So the trail always has between one and ten whole triples, no two neighbouring points that
  a spline could not tell apart, and ends within that tolerance of the newest finite sample.
\<close>

lemma trail_of_points:
  assumes "ps \<noteq> []"
  shows "foldl add_point None ps = Some (flat (last_n 10 (kept ps)))
    \<and> 1 \<le> length (last_n 10 (kept ps)) \<and> length (last_n 10 (kept ps)) \<le> 10
    \<and> successively (\<lambda>p q. \<not> near p q) (last_n 10 (kept ps))
    \<and> (\<forall>a b c. last ps = (Fin a, Fin b, Fin c) \<longrightarrow> near (last (last_n 10 (kept ps))) (last ps))"
proof -
  have ne: "kept ps \<noteq> []" by (rule kept_nonempty [OF assms])
  then have "1 \<le> length (last_n 10 (kept ps))"
    by (cases "kept ps") (simp_all add: last_n_def)
  moreover have "successively (\<lambda>p q. \<not> near p q) (last_n 10 (kept ps))"
    unfolding last_n_def by (rule successively_drop [OF kept_adjacent])
  ultimately show ?thesis
    using trail_after_points [OF assms] last_n_last [of 10 "kept ps"] ne kept_last [OF assms]
    by (simp add: last_n_def)
qed

end
