(* ===== verification/Munition_History.thy ===== *)
theory Munition_History
  imports Munitions
begin

text \<open>
  What happens to one munition's track under the operations of \<open>Munitions\<close>: the silence sweep and
  the launcher heal as interpretations of \<open>sweep\<close>, the track as an interpretation of
  \<open>terminal_machine\<close>, the insert race, and the properties of whole histories of calls.
\<close>

section \<open>The two sweeps and the terminal machine\<close>

interpretation silence: sweep "silence_guard w" silence_act for w
  by unfold_locales (simp add: silence_guard_def silence_act_def)

definition expire_track :: "rat \<Rightarrow> int \<Rightarrow> row \<Rightarrow> row" where
  "expire_track w now r = (if silence_guard w now r then silence_act now r else r)"

interpretation track: terminal_machine "phase_of ''silent''" "settle_row ''silent''"
    "expire_track w" real_detonation for w
proof unfold_locales
  show "phase_of ''silent'' r = Final \<Longrightarrow> settle_row ''silent'' d r = r" for r d
    by (simp add: settle_row_def)
  show "real_detonation d \<Longrightarrow> phase_of ''silent'' r \<noteq> Final \<Longrightarrow>
      phase_of ''silent'' (settle_row ''silent'' d r) = Final" for r d
    by (rule settle_row_phase) simp_all
  show "phase_of ''silent'' r \<noteq> InFlight \<Longrightarrow> expire_track w now r = r" for r now
    by (simp add: phase_of_iff expire_track_def silence_guard_def)
  show "phase_of ''silent'' r = InFlight \<Longrightarrow> phase_of ''silent'' (expire_track w now r) \<noteq> Final"
    for r now
    by (simp add: phase_of_iff expire_track_def silence_act_def)
qed

text \<open>
  A heal gives every track it touches a launcher, so it touches it once, where launch rows name
  their launcher: \<open>_handle_fire\<close> refuses a Fire without one.
\<close>

definition named_launches :: "table \<Rightarrow> bool" where
  "named_launches launches \<longleftrightarrow> (\<forall>l \<in> set launches. l ''launcher_asset_id'' \<noteq> PNone)"

lemma newest_launch_in:
  "newest_launch m launches = Some l \<Longrightarrow> l \<in> set launches \<and> l ''munition_asset_id'' = m \<and> m \<noteq> PNone"
proof -
  let ?f = "\<lambda>best r. case best of None \<Rightarrow> Some r
              | Some b \<Rightarrow> if launched_later r b then Some r else best"
  have gen: "foldl ?f best rs = Some l \<Longrightarrow> best = Some l \<or> l \<in> set rs" for best rs
  proof (induction rs arbitrary: best)
    case (Cons r rs)
    have "?f best r = best \<or> ?f best r = Some r" by (cases best) simp_all
    with Cons.IH [of "?f best r"] Cons.prems show ?case by auto
  qed simp
  assume "newest_launch m launches = Some l"
  from gen [OF this [unfolded newest_launch_def]] show ?thesis by simp
qed

lemma newest_launch_None:
  "newest_launch m launches = None \<longleftrightarrow> (\<forall>l \<in> set launches. l ''munition_asset_id'' \<noteq> m) \<or> m = PNone"
proof -
  let ?f = "\<lambda>best r. case best of None \<Rightarrow> Some r
              | Some b \<Rightarrow> if launched_later r b then Some r else best"
  have gen: "foldl ?f best rs = None \<longleftrightarrow> best = None \<and> rs = []" for best rs
    by (induction rs arbitrary: best) (auto split: option.splits)
  show ?thesis unfolding newest_launch_def gen by (auto simp: filter_empty_conv)
qed

text \<open>No launch of the munition is later than the one the join takes.\<close>

lemma launched_later_trans:
  "\<not> launched_later a b \<Longrightarrow> launched_later c b \<Longrightarrow> \<not> launched_later a c"
  by (auto simp: launched_later_def split: py.splits)

lemma launched_later_irrefl [simp]: "\<not> launched_later a a"
  by (simp add: launched_later_def split: py.splits)

definition timed_launches :: "table \<Rightarrow> bool" where
  "timed_launches launches \<longleftrightarrow> (\<forall>l \<in> set launches. \<exists>t. l ''launched_at'' = PTime t)"

lemma newest_launch_max:
  assumes "newest_launch m launches = Some l" "timed_launches launches"
    "l' \<in> set launches" "l' ''munition_asset_id'' = m"
  shows "\<not> launched_later l' l"
proof -
  let ?f = "\<lambda>best r. case best of None \<Rightarrow> Some r
              | Some b \<Rightarrow> if launched_later r b then Some r else best"
  let ?timed = "\<lambda>r. \<exists>t. r ''launched_at'' = PTime t"
  have gen: "foldl ?f best rs = Some l \<Longrightarrow> \<forall>r \<in> set rs. ?timed r \<Longrightarrow> (\<forall>b. best = Some b \<longrightarrow> ?timed b)
      \<Longrightarrow> (\<forall>r \<in> set rs. \<not> launched_later r l) \<and> (\<forall>b. best = Some b \<longrightarrow> \<not> launched_later b l)" for best rs
  proof (induction rs arbitrary: best)
    case (Cons r rs)
    have "\<forall>b. ?f best r = Some b \<longrightarrow> ?timed b"
      using Cons.prems by (auto split: option.splits if_splits)
    with Cons have rest: "\<forall>r \<in> set rs. \<not> launched_later r l"
        and b: "\<forall>b. ?f best r = Some b \<longrightarrow> \<not> launched_later b l"
      by auto
    have "?timed l"
    proof -
      have "foldl ?f best rs = Some l \<Longrightarrow> \<forall>r \<in> set rs. ?timed r \<Longrightarrow> (\<forall>b. best = Some b \<longrightarrow> ?timed b)
          \<Longrightarrow> ?timed l" for best rs
        by (induction rs arbitrary: best) (auto split: option.splits if_splits)
      from this [of best "r # rs"] Cons.prems show ?thesis by simp
    qed
    then show ?case
      using rest b Cons.prems
      by (cases best) (auto simp: launched_later_def split: if_splits)
  qed simp
  from assms have "m \<noteq> PNone" using newest_launch_in by blast
  with assms gen [of None "filter (\<lambda>r. r ''munition_asset_id'' = m \<and> m \<noteq> PNone) launches"] show ?thesis
    unfolding newest_launch_def timed_launches_def by auto
qed

interpretation heal: sweep "\<lambda>now. heal_guard only (filter (\<lambda>l. l ''launcher_asset_id'' \<noteq> PNone) launches)"
    "\<lambda>now. heal_act (filter (\<lambda>l. l ''launcher_asset_id'' \<noteq> PNone) launches) now" for only launches
proof
  let ?L = "filter (\<lambda>l. l ''launcher_asset_id'' \<noteq> PNone) launches"
  fix now later r
  assume g: "heal_guard only ?L r"
  then obtain l where l: "newest_launch (r ''munition_asset_id'') ?L = Some l"
    by (auto simp: heal_guard_def)
  with newest_launch_in [OF l] show "\<not> heal_guard only ?L (heal_act ?L now r)"
    by (auto simp: heal_guard_def heal_act_def label_track_def labels_of_def)
qed

section \<open>One track under one operation\<close>

abbreviation (input) track_of :: "munition_store \<Rightarrow> py \<Rightarrow> row option" where
  "track_of st m \<equiv> lookup_row [''munition_asset_id''] (ms_tracks st) [m]"

definition heal_row :: "py option \<Rightarrow> table \<Rightarrow> int \<Rightarrow> row \<Rightarrow> row" where
  "heal_row only launches now r = (if heal_guard only launches r then heal_act launches now r else r)"

definition verdict :: "row \<Rightarrow> py \<times> py \<times> py \<times> py" where
  "verdict r = (r ''terminal_state'', r ''detonation_result'', r ''terminated_at'', r ''late_terminal'')"

definition motion :: "row \<Rightarrow> py list" where
  "motion r = map r [''ecef_x'', ''ecef_y'', ''ecef_z'', ''first_seen_at'', ''last_sample_at'',
     ''last_heard_at'', ''trail_ecef'', ''munition_type'']"

lemma label_track_keeps:
  "label_track l now r ''munition_asset_id'' = r ''munition_asset_id''"
  "verdict (label_track l now r) = verdict r"
  "motion (label_track l now r) = motion r"
  by (simp_all add: label_track_def verdict_def motion_def)

lemma heal_row_keeps:
  "heal_row only launches now r ''munition_asset_id'' = r ''munition_asset_id''"
  "verdict (heal_row only launches now r) = verdict r"
  "motion (heal_row only launches now r) = motion r"
  by (simp_all add: heal_row_def heal_act_def label_track_keeps split: option.split)

lemma heal_tracks_row:
  "track_of (fst (heal_tracks only now st)) m
     = map_option (heal_row only (ms_launches st) now) (track_of st m)"
proof -
  have "lookup_row [''munition_asset_id'']
      (map (heal_row only (ms_launches st) now) (ms_tracks st)) [m]
      = map_option (heal_row only (ms_launches st) now) (track_of st m)"
    by (rule lookup_row_map) (simp add: heal_row_keeps)
  then show ?thesis
    by (simp add: heal_tracks_def sweep_rows_def heal_row_def [abs_def])
qed

lemma heal_one_row:
  "track_of (fst (heal_one k now st)) m
     = map_option (heal_row (Some k) (ms_launches st) now) (track_of st m)"
  using heal_tracks_row [of "Some k" now st m] by (simp add: heal_one_def case_prod_beta)

lemma heal_launches [simp]:
  "ms_launches (fst (heal_tracks only now st)) = ms_launches st"
  "ms_launches (fst (heal_one k now st)) = ms_launches st"
  by (simp_all add: heal_tracks_def heal_one_def case_prod_beta)

lemma track_has_key: "track_of st m = Some r \<Longrightarrow> r ''munition_asset_id'' = m"
  using lookup_row_SomeD [of "[''munition_asset_id'']" "ms_tracks st" "[m]" r] by simp

lemma heal_row_other: "r ''munition_asset_id'' \<noteq> k \<Longrightarrow> heal_row (Some k) launches now r = r"
  by (simp add: heal_row_def heal_guard_def)

lemma heal_row_labelled: "r ''launcher_asset_id'' \<noteq> PNone \<Longrightarrow> heal_row only launches now r = r"
  by (simp add: heal_row_def heal_guard_def)

text \<open>The heal of \<open>upsert_munition_track\<close>, on the row of its own munition and on the others.\<close>

lemma heal_if_row:
  "track_of (fst (heal_if u s st)) m
     = map_option (if u then heal_row (Some (ts_munition s)) (ms_launches st) (ts_now s) else id)
         (track_of st m)"
  by (cases "track_of st m") (simp_all add: heal_if_def heal_one_row)

definition write_row :: "bool \<Rightarrow> track_sample \<Rightarrow> row \<Rightarrow> row" where
  "write_row trail s r =
     (if r ''terminal_state'' \<noteq> PNone then r
      else case r ''last_sample_at'' of
        PTime seen \<Rightarrow> if seen < ts_time s then advance_track trail s (trail_of r) r else touch_track s r
      | _ \<Rightarrow> r)"

lemma write_row_keeps:
  "write_row trail s r ''munition_asset_id'' = r ''munition_asset_id''"
  "write_row trail s r ''launcher_asset_id'' = r ''launcher_asset_id''"
  "verdict (write_row trail s r) = verdict r"
  by (simp_all add: write_row_def advance_track_def touch_track_def verdict_def Let_def split: py.split)

lemma update_track:
  assumes "\<And>r. f r ''munition_asset_id'' = r ''munition_asset_id''" "k \<noteq> PNone"
  shows "lookup_row [''munition_asset_id''] (update_where ''munition_asset_id'' k f t) [m]
    = (if m = k then map_option f (lookup_row [''munition_asset_id''] t [m])
       else lookup_row [''munition_asset_id''] t [m])"
  by (rule lookup_update_where) (use assms in auto)

text \<open>
  A write on an existing track, as its effect on every row: the sample on its own track, then the
  labels of the newest launch when the track had no launcher.
\<close>

definition write_and_heal :: "bool \<Rightarrow> track_sample \<Rightarrow> table \<Rightarrow> row \<Rightarrow> row" where
  "write_and_heal trail s launches r =
     (if r ''launcher_asset_id'' = PNone
      then heal_row (Some (ts_munition s)) launches (ts_now s) (write_row trail s r)
      else write_row trail s r)"

lemma write_existing_row:
  assumes found: "track_of st (ts_munition s) = Some r" and key: "ts_munition s \<noteq> PNone"
    and ok: "write_existing trail s r st = Inr (out, st')"
  shows "ms_launches st' = ms_launches st
    \<and> track_of st' m = (if m = ts_munition s then Some (write_and_heal trail s (ms_launches st) r)
                        else track_of st m)"
proof -
  have adv: "advance_track trail s p q ''munition_asset_id'' = q ''munition_asset_id''" for p q
    by (simp add: advance_track_def Let_def)
  have tch: "touch_track s q ''munition_asset_id'' = q ''munition_asset_id''" for q
    by (simp add: touch_track_def)
  have other: "map_option (heal_row (Some (ts_munition s)) L n) (track_of st m) = track_of st m"
    if "m \<noteq> ts_munition s" for L n
    using that track_has_key [of st m] by (cases "track_of st m") (auto intro: heal_row_other)
  have launches: "ms_launches (fst (heal_if u s st2)) = ms_launches st2" for u st2
    by (simp add: heal_if_def)
  show ?thesis
  proof (cases "r ''terminal_state'' = PNone")
    case False
    then have st': "st' = fst (heal_if (r ''launcher_asset_id'' = PNone) s st)"
      using ok by (auto simp: write_existing_def Let_def case_prod_beta)
    show ?thesis
      using found False other
      by (auto simp: st' launches heal_if_row write_and_heal_def write_row_def option.map_id)
  next
    case True
    then obtain seen where seen: "r ''last_sample_at'' = PTime seen"
      using ok by (cases "r ''last_sample_at''") (auto simp: write_existing_def Let_def)
    define f where "f = (if seen < ts_time s then advance_track trail s (trail_of r) else touch_track s)"
    have f: "f q ''munition_asset_id'' = q ''munition_asset_id''" for q
      by (simp add: f_def adv tch)
    have fr: "f r = write_row trail s r" using True seen by (simp add: f_def write_row_def)
    define st1 where "st1 = st\<lparr>ms_tracks := update_where ''munition_asset_id'' (ts_munition s) f (ms_tracks st)\<rparr>"
    have st': "st' = fst (heal_if (r ''launcher_asset_id'' = PNone) s st1)"
      using ok True seen by (auto simp: write_existing_def Let_def case_prod_beta f_def st1_def split: if_splits)
    have row1: "track_of st1 m = (if m = ts_munition s then Some (write_row trail s r) else track_of st m)"
      using update_track [of f "ts_munition s" "ms_tracks st" m] f key found fr by (auto simp: st1_def)
    have l1: "ms_launches st1 = ms_launches st" by (simp add: st1_def)
    show ?thesis
      using row1 l1 other by (auto simp: st' launches heal_if_row write_and_heal_def option.map_id)
  qed
qed

section \<open>The insert race\<close>

lemma row_exists_track: "m \<noteq> PNone \<Longrightarrow> row_exists ''munition_asset_id'' m t
    \<longleftrightarrow> lookup_row [''munition_asset_id''] t [m] \<noteq> None"
  by (auto simp: row_exists_def lookup_row_None list_ex_iff)

lemma upsert_loop_found:
  "track_of st (ts_munition s) = Some r \<Longrightarrow> ts_munition s \<noteq> PNone \<Longrightarrow>
     upsert_loop dflt trail s (rival # rs) st = write_existing trail s r st"
  by (simp add: select_one_lookup)

text \<open>
  C34. The insert race of \<open>upsert_munition_track\<close> is harmless and its loop needs no third turn:
  whatever other transactions commit between its launch read and its INSERT, the call writes the
  track found at the start, or the one a rival inserted exactly as if it had run alone after that
  rival, or inserts its own; it never falls through to the answer after the loop.
\<close>

theorem upsert_race:
  assumes "ts_munition s \<noteq> PNone"
  shows "upsert_munition_track dflt trail s rival1 rival2 st =
    (case lookup_row [''munition_asset_id''] (ms_tracks st) [ts_munition s] of
       Some r \<Rightarrow> write_existing trail s r st
     | None \<Rightarrow>
         (if lookup_row [''munition_asset_id''] (ms_tracks (rival1 st)) [ts_munition s] \<noteq> None
          then upsert_munition_track dflt trail s id id (rival1 st)
          else let l = newest_launch (ts_munition s) (ms_launches st) in
            Inr ((Inserted, l \<noteq> None),
              (rival1 st)\<lparr>ms_tracks := ms_tracks (rival1 st) @ [insert_track dflt trail s l]\<rparr>)))"
proof (cases "track_of st (ts_munition s)")
  case None
  show ?thesis
  proof (cases "track_of (rival1 st) (ts_munition s)")
    case (Some r)
    then show ?thesis
      using None assms upsert_loop_found [OF Some assms]
      by (simp add: upsert_munition_track_def select_one_lookup row_exists_track)
  qed (use None assms in \<open>simp add: upsert_munition_track_def select_one_lookup row_exists_track Let_def\<close>)
next
  case (Some r)
  then show ?thesis
    by (simp add: upsert_munition_track_def select_one_lookup assms)
qed

text \<open>With nothing in between, as a function of the row found.\<close>

lemma insert_track_key: "insert_track dflt trail s l ''munition_asset_id'' = ts_munition s"
  by (simp add: insert_track_def)

lemma upsert_alone:
  assumes key: "ts_munition s \<noteq> PNone"
    and ok: "upsert_munition_track dflt trail s id id st = Inr (out, st')"
  shows "ms_launches st' = ms_launches st
    \<and> track_of st' m =
       (if m = ts_munition s
        then Some (case track_of st m of
            Some r \<Rightarrow> write_and_heal trail s (ms_launches st) r
          | None \<Rightarrow> insert_track dflt trail s (newest_launch m (ms_launches st)))
        else track_of st m)"
proof (cases "track_of st (ts_munition s)")
  case None
  have st': "st' = st\<lparr>ms_tracks := ms_tracks st @
      [insert_track dflt trail s (newest_launch (ts_munition s) (ms_launches st))]\<rparr>"
    using ok None key by (auto simp: upsert_munition_track_def select_one_lookup row_exists_track Let_def)
  show ?thesis
    using None
    by (auto simp: st' lookup_row_append lookup_row_Cons insert_track_key split: option.split)
next
  case (Some r)
  with ok key have w: "write_existing trail s r st = Inr (out, st')"
    by (simp add: upsert_munition_track_def select_one_lookup)
  show ?thesis using write_existing_row [OF Some key w, of m] Some by auto
qed

section \<open>Histories\<close>

datatype track_call =
    Sample track_sample
  | Detonated py py detonation
  | Silence int
  | Heal int
  | Join py launch_labels int
  | Launches "table \<Rightarrow> table"

primrec run_track_call ::
  "row \<Rightarrow> bool \<Rightarrow> rat \<Rightarrow> track_call \<Rightarrow> munition_store \<Rightarrow> munition_store" where
  "run_track_call dflt trail w (Sample s) st =
     (case upsert_munition_track dflt trail s id id st of Inr (_, st') \<Rightarrow> st' | Inl _ \<Rightarrow> st)"
| "run_track_call dflt trail w (Detonated m e d) st = snd (terminate_munition_track m e d st)"
| "run_track_call dflt trail w (Silence now) st =
     st\<lparr>ms_tracks := fst (sweep_munition_track_silence w now (ms_tracks st))\<rparr>"
| "run_track_call dflt trail w (Heal now) st = fst (heal_munition_track_launchers now st)"
| "run_track_call dflt trail w (Join m l now) st =
     st\<lparr>ms_tracks := fst (join_munition_track_launcher m l now (ms_tracks st))\<rparr>"
| "run_track_call dflt trail w (Launches f) st = st\<lparr>ms_launches := f (ms_launches st)\<rparr>"

lemma join_row:
  "lookup_row [''munition_asset_id''] (fst (join_munition_track_launcher k l now t)) [m]
     = map_option (\<lambda>r. if r ''munition_asset_id'' = k \<and> k \<noteq> PNone \<and> r ''launcher_asset_id'' = PNone
                       then label_track l now r else r)
         (lookup_row [''munition_asset_id''] t [m])"
  unfolding join_munition_track_launcher_def sweep_rows_def fst_conv
  by (rule lookup_row_map) (simp add: label_track_keeps)

lemma silence_row:
  "lookup_row [''munition_asset_id''] (fst (sweep_munition_track_silence w now t)) [m]
     = map_option (expire_track w now) (lookup_row [''munition_asset_id''] t [m])"
  unfolding sweep_munition_track_silence_def sweep_rows_def fst_conv expire_track_def
  by (rule lookup_row_map) (simp add: silence_act_def)

definition track_key :: "py \<Rightarrow> py \<Rightarrow> munition_store \<Rightarrow> py" where
  "track_key m e st = py_or m (launch_column (select_one ''event_urn'' e (ms_launches st)) ''munition_asset_id'')"

lemma terminate_row:
  assumes "m = track_key m0 e st" "truthy m"
  shows "track_of (snd (terminate_munition_track m0 e d st)) k
    = (if k = m then map_option (\<lambda>r. settle_row ''silent'' d (heal_row (Some m) (ms_launches st) (d_now d) r))
         (track_of st k)
       else track_of st k)"
proof -
  have m: "m \<noteq> PNone" using assms(2) by auto
  have other: "map_option (heal_row (Some m) L n) (track_of st k) = track_of st k" if "k \<noteq> m" for L n
    using that track_has_key [of st k] by (cases "track_of st k") (auto intro: heal_row_other)
  show ?thesis
  proof (cases "track_of st m")
    case None
    then show ?thesis using assms m by (simp add: terminate_munition_track_def track_key_def [symmetric] select_one_lookup)
  next
    case (Some r)
    define st1 where "st1 = fst (heal_one m (d_now d) st)"
    have row1: "track_of st1 k' = map_option (heal_row (Some m) (ms_launches st) (d_now d)) (track_of st k')" for k'
      by (simp add: st1_def heal_one_row)
    have upd: "lookup_row [''munition_asset_id''] (update_where ''munition_asset_id'' m (close_row d l) (ms_tracks st1)) [k']
        = (if k' = m then map_option (close_row d l) (track_of st1 k') else track_of st1 k')" for l k'
      by (rule update_track) (simp_all add: close_row_frame m)
    have phase: "phase_of ''silent'' (heal_row (Some m) (ms_launches st) (d_now d) r) = phase_of ''silent'' r"
      using heal_row_keeps(2) [of "Some m" "ms_launches st" "d_now d" r] by (simp add: phase_of_def verdict_def)
    have "ms_tracks (snd (terminate_munition_track m0 e d st))
        = (if phase_of ''silent'' r = Final then ms_tracks st1
           else update_where ''munition_asset_id'' m (close_row d (phase_of ''silent'' r = Provisional))
             (ms_tracks st1))"
      using Some assms m
      by (simp add: terminate_munition_track_def track_key_def [symmetric] select_one_lookup Let_def phase_of_def st1_def)
    then show ?thesis
      using Some other row1 upd phase by (cases "k = m") (simp_all add: settle_row_def)
  qed
qed

lemma terminate_skip: "\<not> truthy (track_key m0 e st) \<Longrightarrow> snd (terminate_munition_track m0 e d st) = st"
  by (simp add: terminate_munition_track_def track_key_def Let_def)

lemma phase_of_verdict: "verdict r = verdict q \<Longrightarrow> phase_of p r = phase_of p q"
  by (simp add: verdict_def phase_of_def)

lemma final_sample:
  assumes row: "track_of st m = Some r" "phase_of ''silent'' r = Final"
  shows "\<exists>r'. track_of (run_track_call dflt trail w (Sample s) st) m = Some r' \<and> verdict r' = verdict r"
proof -
  show ?thesis
  proof (cases "upsert_munition_track dflt trail s id id st")
    case (Inl e)
    with row show ?thesis by simp
  next
    case (Inr res)
    obtain out st' where res: "res = (out, st')" by (cases res)
    show ?thesis
    proof (cases "ts_munition s = PNone")
      case True
      then have "select_one ''munition_asset_id'' (ts_munition s) t = None" for t
        by (simp add: select_one_def find_None_iff)
      moreover have "\<not> row_exists ''munition_asset_id'' (ts_munition s) t" for t
        using True by (simp add: row_exists_def list_ex_iff)
      ultimately have "ms_tracks st' = ms_tracks st @
          [insert_track dflt trail s (newest_launch (ts_munition s) (ms_launches st))]"
        using Inr res by (auto simp: upsert_munition_track_def Let_def)
      with Inr res row show ?thesis by (simp add: lookup_row_append)
    next
      case False
      from upsert_alone [OF False, of dflt trail st out st' m] Inr res row
      have "track_of st' m = Some (if m = ts_munition s then write_and_heal trail s (ms_launches st) r else r)"
        by auto
      moreover have "verdict (write_and_heal trail s (ms_launches st) r) = verdict r"
        by (simp add: write_and_heal_def heal_row_keeps write_row_keeps)
      ultimately show ?thesis using Inr res by (auto split: if_splits)
    qed
  qed
qed

text \<open>No call changes the verdict of a track that has one.\<close>

lemma final_call:
  assumes row: "track_of st m = Some r" "phase_of ''silent'' r = Final"
  shows "\<exists>r'. track_of (run_track_call dflt trail w c st) m = Some r' \<and> verdict r' = verdict r"
proof (cases c)
  case (Sample s)
  with final_sample [OF row] show ?thesis by simp
next
  case (Detonated m0 e d)
  show ?thesis
  proof (cases "truthy (track_key m0 e st)")
    case True
    have "phase_of ''silent'' (heal_row only L n r) = Final" for only L n
      using row(2) phase_of_verdict [OF heal_row_keeps(2)] by simp
    then have "settle_row ''silent'' d (heal_row only L n r) = heal_row only L n r" for only L n
      by (rule track.settle_final)
    with terminate_row [OF refl True, of d m] Detonated row show ?thesis
      by (cases "m = track_key m0 e st") (simp_all add: heal_row_keeps)
  qed (use Detonated row in \<open>simp add: terminate_skip\<close>)
next
  case (Silence now)
  with row show ?thesis by (simp add: silence_row track.expire_closed)
next
  case (Heal now)
  with row show ?thesis by (simp add: heal_munition_track_launchers_def heal_tracks_row heal_row_keeps)
next
  case (Join k l now)
  with row show ?thesis by (auto simp: join_row label_track_keeps)
next
  case (Launches f)
  with row show ?thesis by simp
qed

lemma final_calls:
  "track_of st m = Some r \<Longrightarrow> phase_of ''silent'' r = Final \<Longrightarrow>
     \<exists>r'. track_of (fold (run_track_call dflt trail w) cs st) m = Some r' \<and> verdict r' = verdict r"
proof (induction cs arbitrary: st r)
  case (Cons c cs)
  obtain r1 where r1: "track_of (run_track_call dflt trail w c st) m = Some r1" "verdict r1 = verdict r"
    using final_call [OF Cons.prems] by blast
  have "phase_of ''silent'' r1 = Final" using phase_of_verdict [OF r1(2)] Cons.prems(2) by simp
  with Cons.IH [OF r1(1)] r1(2) show ?case by simp
qed simp

text \<open>
  C31. A detonation decides its munition's track for good: on a track still in flight or marked
  silent it writes its state, result and time, with late_terminal true exactly when the silence
  sweep had been there first, and no later call of any kind (samples, silence and heal passes,
  joins by late Fires, further detonations, changes to the launch table) changes any of the four
  columns again.
\<close>

theorem track_verdict_final:
  assumes row: "lookup_row [''munition_asset_id''] (ms_tracks st) [m] = Some r"
    and key: "m = track_key m0 e st" "truthy m"
    and unsettled: "r ''terminal_state'' = PNone \<or> r ''terminal_state'' = PStr ''silent''"
    and real: "real_detonation d"
  shows "\<exists>r'. lookup_row [''munition_asset_id'']
      (ms_tracks (fold (run_track_call dflt trail w) (Detonated m0 e d # later) st)) [m] = Some r'
    \<and> verdict r' = (PStr (d_state d), PInt (d_result d), d_terminated_at d,
                    PBool (r ''terminal_state'' = PStr ''silent''))"
proof -
  let ?h = "heal_row (Some m) (ms_launches st) (d_now d) r"
  let ?q = "settle_row ''silent'' d ?h"
  have ts: "?h ''terminal_state'' = r ''terminal_state''"
    using heal_row_keeps(2) [of "Some m" "ms_launches st" "d_now d" r] by (simp add: verdict_def)
  have q: "?q = close_row d (r ''terminal_state'' = PStr ''silent'') ?h"
    using unsettled by (auto simp: settle_row_def phase_of_def ts)
  have look: "track_of (run_track_call dflt trail w (Detonated m0 e d) st) m = Some ?q"
    using terminate_row [OF key, of d m] row by simp
  have "phase_of ''silent'' ?q = Final"
    unfolding q by (rule close_row_phase [OF real]) simp
  from final_calls [OF look this, of dflt trail w later] show ?thesis
    unfolding q by (auto simp: verdict_def close_row_def)
qed

section \<open>A track in flight follows its newest sample\<close>

definition point_of :: "track_sample \<Rightarrow> point" where
  "point_of s = (ts_x s, ts_y s, ts_z s)"

text \<open>The samples strictly newer than every one before them.\<close>

definition apply_sample :: "track_sample list \<Rightarrow> track_sample \<Rightarrow> track_sample list" where
  "apply_sample acc x = (if acc = [] \<or> ts_time (last acc) < ts_time x then acc @ [x] else acc)"

definition applied :: "track_sample list \<Rightarrow> track_sample list" where
  "applied ss = foldl apply_sample [] ss"

lemma applied_snoc: "applied (ss @ [x]) = apply_sample (applied ss) x"
  by (simp add: applied_def)

lemma applied_nonempty: "ss \<noteq> [] \<Longrightarrow> applied ss \<noteq> []"
  by (cases ss rule: rev_cases) (simp_all add: applied_snoc apply_sample_def)

lemma applied_max: "s \<in> set ss \<Longrightarrow> ts_time s \<le> ts_time (last (applied ss))"
proof (induction ss rule: rev_induct)
  case (snoc x ss)
  show ?case
  proof (cases "ss = []")
    case True
    with snoc.prems show ?thesis by (simp add: applied_def apply_sample_def)
  next
    case False
    with applied_nonempty [OF False] snoc show ?thesis
      by (auto simp: applied_snoc apply_sample_def)
  qed
qed simp

definition follows :: "bool \<Rightarrow> track_sample list \<Rightarrow> row \<Rightarrow> bool" where
  "follows trail ss r \<longleftrightarrow> r ''terminal_state'' = PNone
     \<and> (let b = last (applied ss) in
          r ''ecef_x'' = PFloat (ts_x b) \<and> r ''ecef_y'' = PFloat (ts_y b)
          \<and> r ''ecef_z'' = PFloat (ts_z b) \<and> r ''last_sample_at'' = PTime (ts_time b))
     \<and> r ''first_seen_at'' = PTime (ts_time (hd ss))
     \<and> r ''last_heard_at'' = PTime (ts_now (last ss))
     \<and> (trail \<longrightarrow> r ''trail_ecef'' = PList (flat (last_n 10 (kept (map point_of (applied ss))))))"

lemma follows_heal: "follows trail ss (heal_row only L n r) = follows trail ss r"
  using heal_row_keeps(2,3) [of only L n r]
  by (simp add: follows_def verdict_def motion_def)

lemma follows_insert:
  "dflt ''terminal_state'' = PNone \<Longrightarrow> follows trail [x] (insert_track dflt trail x l)"
  by (auto simp: follows_def insert_track_def applied_def apply_sample_def Let_def kept_def keep_point_def
      last_n_def point_of_def)

lemma follows_write:
  assumes r: "follows trail ss r" and ne: "ss \<noteq> []"
  shows "follows trail (ss @ [x]) (write_row trail x r)"
proof -
  let ?b = "last (applied ss)"
  have seen: "r ''last_sample_at'' = PTime (ts_time ?b)" and live: "r ''terminal_state'' = PNone"
    using r by (simp_all add: follows_def Let_def)
  show ?thesis
  proof (cases "ts_time ?b < ts_time x")
    case True
    then have ap: "applied (ss @ [x]) = applied ss @ [x]" by (simp add: applied_snoc apply_sample_def)
    have w: "write_row trail x r = advance_track trail x (trail_of r) r"
      using True seen live by (simp add: write_row_def)
    have tr: "next_munition_trail (trail_of r) (ts_x x) (ts_y x) (ts_z x)
        = flat (last_n 10 (kept (map point_of (applied ss @ [x]))))" if trail
      using r that
      by (simp add: follows_def trail_of_def trail_step kept_snoc point_of_def)
    show ?thesis
      using r ne tr unfolding w follows_def ap
      by (simp add: advance_track_def Let_def)
  next
    case False
    with applied_nonempty [OF ne] have ap: "applied (ss @ [x]) = applied ss"
      by (simp add: applied_snoc apply_sample_def)
    have w: "write_row trail x r = touch_track x r"
      using False seen live by (simp add: write_row_def)
    show ?thesis
      using r ne unfolding w follows_def ap by (simp add: touch_track_def Let_def)
  qed
qed

lemma follows_write_and_heal:
  "follows trail ss r \<Longrightarrow> ss \<noteq> [] \<Longrightarrow> follows trail (ss @ [x]) (write_and_heal trail x L r)"
  by (simp add: write_and_heal_def follows_heal follows_write)

lemma upsert_live:
  assumes "m \<noteq> PNone" "ts_munition s = m" "\<forall>r. track_of st m = Some r \<longrightarrow> follows trail ss r"
  shows "\<exists>out st'. upsert_munition_track dflt trail s id id st = Inr (out, st')"
proof (cases "track_of st m")
  case None
  with assms(1,2) show ?thesis
    by (simp add: upsert_munition_track_def select_one_lookup row_exists_track Let_def)
next
  case (Some r)
  with assms(3) have "r ''terminal_state'' = PNone" "\<exists>t. r ''last_sample_at'' = PTime t"
    by (auto simp: follows_def Let_def)
  with Some assms(1,2) show ?thesis
    by (auto simp: upsert_munition_track_def select_one_lookup write_existing_def Let_def case_prod_beta)
qed

text \<open>
  C32. A track fed any non-empty run of samples, in any order of their times, stands where its
  newest sample puts it (of equally new ones, where the first does), was heard when the last one
  arrived, was first seen at the first one, and carries the trail of exactly the samples that
  advanced it; late and repeated samples move neither the position nor the trail.
\<close>

theorem track_newest_sample:
  assumes "m \<noteq> PNone" "lookup_row [''munition_asset_id''] (ms_tracks st) [m] = None"
    and "ss \<noteq> []" "\<forall>s \<in> set ss. ts_munition s = m" "dflt ''terminal_state'' = PNone"
  shows "\<exists>r. lookup_row [''munition_asset_id'']
        (ms_tracks (fold (run_track_call dflt trail w) (map Sample ss) st)) [m] = Some r
      \<and> follows trail ss r \<and> (\<forall>s \<in> set ss. ts_time s \<le> ts_time (last (applied ss)))"
proof -
  have "\<exists>r. track_of (fold (run_track_call dflt trail w) (map Sample ss) st) m = Some r \<and> follows trail ss r"
    using assms(3,4)
  proof (induction ss rule: rev_induct)
    case (snoc x ss)
    let ?st = "fold (run_track_call dflt trail w) (map Sample ss) st"
    have x: "ts_munition x = m" using snoc.prems by simp
    show ?case
    proof (cases "ss = []")
      case True
      obtain out st' where up: "upsert_munition_track dflt trail x id id st = Inr (out, st')"
        using upsert_live [OF assms(1) x, of st trail "[]" dflt] assms(2) by auto
      have "track_of st' m = Some (insert_track dflt trail x (newest_launch m (ms_launches st)))"
        using upsert_alone [OF _ up, of m] assms(1,2) x by simp
      with True up show ?thesis by (simp add: follows_insert assms(5))
    next
      case False
      then obtain r where r: "track_of ?st m = Some r" "follows trail ss r" using snoc by auto
      obtain out st' where up: "upsert_munition_track dflt trail x id id ?st = Inr (out, st')"
        using upsert_live [OF assms(1) x, of ?st trail ss dflt] r by auto
      have "track_of st' m = Some (write_and_heal trail x (ms_launches ?st) r)"
        using upsert_alone [OF _ up, of m] assms(1) x r by simp
      with up r False show ?thesis by (simp add: follows_write_and_heal)
    qed
  qed simp
  then show ?thesis using applied_max by blast
qed

section \<open>A track gets the labels of its launch\<close>

lemma heal_row_labels:
  assumes "newest_launch (r ''munition_asset_id'') L = Some l"
    "case only of None \<Rightarrow> True | Some k \<Rightarrow> r ''munition_asset_id'' = k"
  shows "heal_row only L n r = (if r ''launcher_asset_id'' = PNone then label_track (labels_of l) n r else r)"
  using assms by (simp add: heal_row_def heal_guard_def heal_act_def)

text \<open>
  C33. However the Fire and the first sample raced, a track without a launcher takes the labels of
  the newest launch naming its munition on the very next write of the track, whether it advances
  it, is stale, or finds it terminal, and likewise on the next heal pass; it is labelled exactly as the
  Fire's own back-fill would have labelled it, no launch of the munition is later than the one
  chosen, and a track that has its launcher is never given another by any of the three.
\<close>

theorem labels_converge:
  assumes row: "lookup_row [''munition_asset_id''] (ms_tracks st) [m] = Some r"
    and key: "m \<noteq> PNone" "ts_munition s = m"
    and launch: "newest_launch m (ms_launches st) = Some l" and timed: "timed_launches (ms_launches st)"
    and up: "upsert_munition_track dflt trail s id id st = Inr (out, st')"
  shows "lookup_row [''munition_asset_id''] (ms_tracks st') [m]
      = Some (if r ''launcher_asset_id'' = PNone
              then label_track (labels_of l) (ts_now s) (write_row trail s r) else write_row trail s r)
    \<and> lookup_row [''munition_asset_id''] (ms_tracks (fst (heal_munition_track_launchers now st))) [m]
      = lookup_row [''munition_asset_id'']
          (fst (join_munition_track_launcher m (labels_of l) now (ms_tracks st))) [m]
    \<and> (\<forall>l' \<in> set (ms_launches st). l' ''munition_asset_id'' = m \<longrightarrow> \<not> launched_later l' l)"
proof -
  have rm: "r ''munition_asset_id'' = m" using row by (rule track_has_key)
  have "track_of st' m = Some (write_and_heal trail s (ms_launches st) r)"
    using upsert_alone [OF _ up, of m] key row by simp
  moreover have "write_and_heal trail s (ms_launches st) r = (if r ''launcher_asset_id'' = PNone
      then label_track (labels_of l) (ts_now s) (write_row trail s r) else write_row trail s r)"
    using launch rm key
    by (simp add: write_and_heal_def heal_row_labels [where l = l] write_row_keeps)
  moreover have "track_of (fst (heal_munition_track_launchers now st)) m
      = lookup_row [''munition_asset_id'']
          (fst (join_munition_track_launcher m (labels_of l) now (ms_tracks st))) [m]"
    using launch rm key row
    by (simp add: heal_munition_track_launchers_def heal_tracks_row join_row heal_row_labels [where l = l])
  ultimately show ?thesis
    using newest_launch_max [OF launch timed] by auto
qed

text \<open>
  Silence is judged on the arrival clock alone: a track in flight is marked silent by a pass
  exactly when its last sample arrived more than the window before the pass, whatever the sample
  times say, and one pass reports each track it marks once and a repeated pass marks none.
\<close>

lemma silence_by_arrival:
  assumes row: "lookup_row [''munition_asset_id''] t [m] = Some r" and live: "follows trail ss r"
  shows "lookup_row [''munition_asset_id''] (fst (sweep_munition_track_silence w now t)) [m]
      = Some (if ts_now (last ss) < now - interval_us w then silence_act now r else r)
    \<and> sweep_munition_track_silence w now (fst (sweep_munition_track_silence w now t))
        = (fst (sweep_munition_track_silence w now t), 0)
    \<and> length (fst (sweep_munition_track_silence w now t)) = length t"
proof -
  have "silence_guard w now r \<longleftrightarrow> ts_now (last ss) < now - interval_us w"
    using live by (simp add: silence_guard_def follows_def Let_def)
  with row have "lookup_row [''munition_asset_id''] (fst (sweep_munition_track_silence w now t)) [m]
      = Some (if ts_now (last ss) < now - interval_us w then silence_act now r else r)"
    by (simp add: silence_row expire_track_def)
  then show ?thesis
    using silence.same_clock [of w now t] silence.keeps_rows [of w now t]
    by (simp only: sweep_munition_track_silence_def)
qed

section \<open>Witnesses\<close>

definition sample_at :: "int \<Rightarrow> int \<Rightarrow> rat \<Rightarrow> track_sample" where
  "sample_at t now x = \<lparr>ts_munition = PStr ''m'', ts_type = PStr ''2.0.0.0.0.0.0'', ts_x = Fin x,
     ts_y = Fin 0, ts_z = Fin 0, ts_time = t, ts_edge = PStr ''e'', ts_region = PStr ''r'', ts_now = now\<rparr>"

definition no_row :: row where
  "no_row = (\<lambda>_. PNone)"

definition a_launch :: row where
  "a_launch = no_row(''munition_asset_id'' := PStr ''m'', ''launcher_asset_id'' := PStr ''L'',
     ''launched_at'' := PTime 0, ''event_urn'' := PStr ''u'')"

definition a_track :: row where
  "a_track = no_row(''munition_asset_id'' := PStr ''m'', ''last_sample_at'' := PTime 5,
     ''last_heard_at'' := PTime 6)"

definition one_track :: munition_store where
  "one_track = \<lparr>ms_launches = [a_launch], ms_tracks = [a_track]\<rparr>"

lemmas track_samples = sample_at_def no_row_def a_launch_def a_track_def one_track_def

lemma a_track_found: "lookup_row [''munition_asset_id''] (ms_tracks one_track) [PStr ''m''] = Some a_track"
  by (simp add: track_samples lookup_row_Cons)

theorem upsert_race_witness:
  "upsert_munition_track no_row True (sample_at 7 8 1) (\<lambda>st. st\<lparr>ms_tracks := [a_track]\<rparr>) id
       \<lparr>ms_launches = [], ms_tracks = []\<rparr>
     = upsert_munition_track no_row True (sample_at 7 8 1) id id \<lparr>ms_launches = [], ms_tracks = [a_track]\<rparr>"
proof -
  have "ts_munition (sample_at 7 8 1) \<noteq> PNone" by (simp add: sample_at_def)
  from upsert_race [OF this, of no_row True "\<lambda>st. st\<lparr>ms_tracks := [a_track]\<rparr>" id
      "\<lparr>ms_launches = [], ms_tracks = []\<rparr>"]
  show ?thesis by (simp add: lookup_row_Cons) (simp add: track_samples)
qed

theorem track_verdict_final_witness:
  "\<exists>r'. lookup_row [''munition_asset_id''] (ms_tracks (fold (run_track_call no_row True 12)
       (Detonated (PStr ''m'') (PStr ''u'') hit_report # [Silence 99000000, Heal 100]) one_track)) [PStr ''m''] = Some r'
     \<and> verdict r' = (PStr ''entity_impact'', PInt 1, PTime 9, PBool False)"
proof -
  have "PStr ''m'' = track_key (PStr ''m'') (PStr ''u'') one_track" by (simp add: track_key_def)
  moreover have "a_track ''terminal_state'' = PNone" by (simp add: track_samples)
  ultimately show ?thesis
    using track_verdict_final [OF a_track_found, where ?m0.0 = "PStr ''m''" and e = "PStr ''u''"
        and d = hit_report and dflt = no_row and trail = True and w = 12
        and later = "[Silence 99000000, Heal 100]"] hit_report_real
    by (simp add: hit_report_def)
qed

theorem track_newest_sample_witness:
  "\<exists>r. lookup_row [''munition_asset_id''] (ms_tracks (fold (run_track_call no_row True 12)
       (map Sample [sample_at 10 20 1, sample_at 30 31 3, sample_at 20 32 2])
       \<lparr>ms_launches = [], ms_tracks = []\<rparr>)) [PStr ''m''] = Some r
     \<and> r ''ecef_x'' = PFloat (Fin 3) \<and> r ''last_heard_at'' = PTime 32"
proof -
  let ?ss = "[sample_at 10 20 1, sample_at 30 31 3, sample_at 20 32 2]"
  let ?run = "fold (run_track_call no_row True 12) (map Sample ?ss) \<lparr>ms_launches = [], ms_tracks = []\<rparr>"
  have all: "\<forall>s \<in> set ?ss. ts_munition s = PStr ''m''" "no_row ''terminal_state'' = PNone"
    by (simp_all add: sample_at_def no_row_def)
  have newest: "last (applied ?ss) = sample_at 30 31 3"
    by (simp add: applied_def apply_sample_def sample_at_def)
  obtain r where r: "lookup_row [''munition_asset_id''] (ms_tracks ?run) [PStr ''m''] = Some r"
    and f: "follows True ?ss r"
  proof -
    have none: "lookup_row [''munition_asset_id''] (ms_tracks \<lparr>ms_launches = [], ms_tracks = []\<rparr>)
        [PStr ''m''] = None" by simp
    have ne: "PStr ''m'' \<noteq> PNone" "?ss \<noteq> []" by simp_all
    show ?thesis
      using track_newest_sample [of "PStr ''m''" _ ?ss no_row True 12, OF ne(1) none ne(2) all] that
      by blast
  qed
  have "r ''ecef_x'' = PFloat (Fin 3) \<and> r ''last_heard_at'' = PTime 32"
    using f unfolding follows_def newest Let_def by (simp add: sample_at_def)
  with r show ?thesis by blast
qed

theorem labels_converge_witness:
  "\<exists>out st'. upsert_munition_track no_row True (sample_at 7 8 1) id id one_track = Inr (out, st')
     \<and> map_option (\<lambda>r. r ''launcher_asset_id'')
         (lookup_row [''munition_asset_id''] (ms_tracks st') [PStr ''m'']) = Some (PStr ''L'')"
proof -
  let ?s = "sample_at 7 8 1"
  have l: "newest_launch (PStr ''m'') (ms_launches one_track) = Some a_launch"
    by (simp add: newest_launch_def track_samples)
  have t: "timed_launches (ms_launches one_track)" by (simp add: timed_launches_def track_samples)
  have m: "ts_munition ?s = PStr ''m''" by (simp add: sample_at_def)
  obtain out st' where up: "upsert_munition_track no_row True ?s id id one_track = Inr (out, st')"
    by (cases "upsert_munition_track no_row True ?s id id one_track")
      (auto simp: upsert_munition_track_def select_one_def write_existing_def Let_def track_samples
        case_prod_beta)
  from labels_converge [OF a_track_found _ m l t up]
  have "map_option (\<lambda>r. r ''launcher_asset_id'')
      (lookup_row [''munition_asset_id''] (ms_tracks st') [PStr ''m'']) = Some (PStr ''L'')"
    by (simp add: a_track_def no_row_def label_track_def labels_of_def a_launch_def)
  with up show ?thesis by blast
qed

end
