(* ===== verification/Custom_Handlers.thy ===== *)
theory Custom_Handlers
  imports Munition_History Delivery
begin

text \<open>
  The two handlers of mode custom that keep the engagement tables: \<open>handlers/effector_launch.py\<close>
  (Fire, Detonation, ResupplyReceived) and \<open>handlers/munition_track.py\<close>. They take the pool and do
  their own reads and writes, so they run in a small state monad: the state is the store and the
  notes (the counters incremented and the rows refused, in order), and a raise keeps what was done
  before it.

  A \<open>tier\<close> holds what one projector instance brings to a message: its environment, the column
  defaults of its schema, the writes its server accepts, whether the trail column exists, the
  commits of rival instances that fall between the select and the insert of a track, and the
  readings of \<open>now_utc()\<close> in the order the code takes them.
\<close>

section \<open>State, effects and their composition\<close>

datatype effect = Counted string string | Refusal string string

record custom_state =
  cs_store :: store
  cs_notes :: "effect list"

type_synonym 'a io = "custom_state \<Rightarrow> 'a res \<times> custom_state"

definition io_return :: "'a \<Rightarrow> 'a io" where
  "io_return a s = (Inr a, s)"

definition io_bind :: "'a io \<Rightarrow> ('a \<Rightarrow> 'b io) \<Rightarrow> 'b io" where
  "io_bind m f s = (case m s of (Inl e, s') \<Rightarrow> (Inl e, s') | (Inr a, s') \<Rightarrow> f a s')"

definition io_lift :: "'a res \<Rightarrow> 'a io" where
  "io_lift r s = (r, s)"

definition io_note :: "effect \<Rightarrow> unit io" where
  "io_note n s = (Inr (), s\<lparr>cs_notes := cs_notes s @ [n]\<rparr>)"

definition io_read :: "(store \<Rightarrow> 'a) \<Rightarrow> 'a io" where
  "io_read f s = (Inr (f (cs_store s)), s)"

definition io_update :: "(store \<Rightarrow> 'a \<times> store) \<Rightarrow> 'a io" where
  "io_update f s = (let (a, st) = f (cs_store s) in (Inr a, s\<lparr>cs_store := st\<rparr>))"

definition io_try_update :: "(store \<Rightarrow> ('a \<times> store) res) \<Rightarrow> 'a io" where
  "io_try_update f s =
     (case f (cs_store s) of Inl e \<Rightarrow> (Inl e, s) | Inr (a, st) \<Rightarrow> (Inr a, s\<lparr>cs_store := st\<rparr>))"

lemmas io_defs = io_return_def io_bind_def io_lift_def io_note_def io_read_def io_update_def io_try_update_def

record tier =
  ti_env :: env
  ti_schema :: "string \<Rightarrow> row"
  ti_accepts :: "pg_write \<Rightarrow> bool"
  ti_trail :: bool
  ti_rival1 :: "munition_store \<Rightarrow> munition_store"
  ti_rival2 :: "munition_store \<Rightarrow> munition_store"
  ti_now1 :: int
  ti_now2 :: int
  ti_now3 :: int

definition pool_execute :: "tier \<Rightarrow> pg_write \<Rightarrow> nat io" where
  "pool_execute ti w = io_try_update (store_write (ti_accepts ti) (ti_schema ti) w)"

text \<open>The two tables the track operations of the pool work on.\<close>

definition munition_view :: "store \<Rightarrow> munition_store" where
  "munition_view st = \<lparr>ms_launches = st ''effector_launch'', ms_tracks = st ''munition_track''\<rparr>"

definition put_view :: "munition_store \<Rightarrow> store \<Rightarrow> store" where
  "put_view v st = st(''effector_launch'' := ms_launches v, ''munition_track'' := ms_tracks v)"

section \<open>Fire\<close>

definition admitted :: "py \<Rightarrow> store \<Rightarrow> bool" where
  "admitted launcher st = row_exists ''asset_id'' launcher (st ''telemetry_latest_state'')"

definition launch_row :: "tier \<Rightarrow> dict \<Rightarrow> dict res" where
  "launch_row ti decoded =
     (let env = ti_env ti; prov = or_empty (dget decoded ''provenance'') in
      rbind (munition_type_key (dget decoded ''munition_type'')) (\<lambda>mt.
      rbind (py_int (dget_or decoded ''quantity'' (PInt 0))) (\<lambda>quantity.
      rbind (resolve_provenance_from_dict env prov) (\<lambda>origin.
      rbind (releasability_from prov) (\<lambda>rel.
        Inr ([(''event_urn'', dget decoded ''event_urn''),
              (''launcher_asset_id'', dget decoded ''launcher_urn''),
              (''munition_asset_id'', dget decoded ''munition_urn''),
              (''munition_type'', PStr mt),
              (''quantity'', PInt quantity),
              (''target_asset_id'', dget decoded ''target_urn''),
              (''launched_at'', py_or (parse_timestamp env (dget decoded ''ingest_timestamp'')) (PTime (ti_now1 ti)))]
             @ origin @ rel))))))"

definition launch_write :: "dict \<Rightarrow> pg_write" where
  "launch_write row = \<lparr>w_table = ''effector_launch'', w_mode = ''append'', w_key_columns = [''event_urn''],
     w_row = row, w_jsonb_columns = [], w_revive = None\<rparr>"

text \<open>\<open>pool.join_munition_track_launcher\<close> with the labels of the row just built.\<close>

definition join_from_row :: "tier \<Rightarrow> dict \<Rightarrow> nat io" where
  "join_from_row ti row = io_update (\<lambda>st.
     let (tracks, n) = join_munition_track_launcher (dget row ''munition_asset_id'')
           \<lparr>ll_launcher = dget row ''launcher_asset_id'', ll_event_urn = dget row ''event_urn'',
            ll_edge_id = dget row ''edge_id'', ll_region_id = dget row ''region_id'',
            ll_originator_nation = dget row ''originator_nation'',
            ll_releasable_to = dget row ''releasable_to''\<rparr>
           (ti_now2 ti) (st ''munition_track'')
     in (n, st(''munition_track'' := tracks)))"

definition handle_fire :: "tier \<Rightarrow> dict \<Rightarrow> unit io" where
  "handle_fire ti decoded =
     (if \<not> truthy (dget decoded ''event_urn'') \<or> \<not> truthy (dget decoded ''launcher_urn'')
      then io_note (Refusal ''effector_launch'' ''missing_key'')
      else
        io_bind (io_read (admitted (dget decoded ''launcher_urn''))) (\<lambda>ok.
        if \<not> ok then io_note (Counted ''effector_refused'' ''unknown_launcher'')
        else
          io_bind (io_lift (launch_row ti decoded)) (\<lambda>row.
          io_bind (pool_execute ti (launch_write row)) (\<lambda>_.
          if \<not> truthy (dget row ''munition_asset_id'') then io_return ()
          else
            io_bind (join_from_row ti row) (\<lambda>joined.
            if joined = 0 then io_return () else io_note (Counted ''munition_track_joined'' ''fire''))))))"

section \<open>Detonation\<close>

definition note_outcome :: "detonation_outcome \<Rightarrow> unit io" where
  "note_outcome x =
     (case x of
        NoFire \<Rightarrow> io_note (Counted ''effector_refused'' ''no_fire'')
      | Conflicting \<Rightarrow> io_note (Counted ''effector_refused'' ''conflicting_detonation'')
      | Replayed \<Rightarrow> io_note (Counted ''effector_replayed'' [])
      | Late \<Rightarrow> io_note (Counted ''effector_late_terminal'' [])
      | Updated \<Rightarrow> io_return ())"

definition detonation_of :: "tier \<Rightarrow> dict \<Rightarrow> detonation res" where
  "detonation_of ti decoded =
     rbind (terminal_state_for (dget decoded ''detonation_result'')) (\<lambda>state.
     rbind (py_int (py_or (dget_or decoded ''detonation_result'' (PInt 0)) (PInt 0))) (\<lambda>result.
       Inr \<lparr>d_state = state, d_result = result,
            d_terminated_at = py_or (parse_timestamp (ti_env ti) (dget decoded ''ingest_timestamp'')) (PTime (ti_now1 ti)),
            d_now = ti_now2 ti\<rparr>))"

definition apply_detonation :: "py \<Rightarrow> detonation \<Rightarrow> detonation_outcome io" where
  "apply_detonation event_urn d = io_update (\<lambda>st.
     let ((x, _), t) = apply_effector_detonation event_urn d (st ''effector_launch'')
     in (x, st(''effector_launch'' := t)))"

definition terminate_track :: "py \<Rightarrow> py \<Rightarrow> detonation \<Rightarrow> terminate_outcome io" where
  "terminate_track m event_urn d = io_update (\<lambda>st.
     let (x, v) = terminate_munition_track m event_urn d (munition_view st) in (x, put_view v st))"

definition handle_detonation :: "tier \<Rightarrow> dict \<Rightarrow> unit io" where
  "handle_detonation ti decoded =
     (let event_urn = dget decoded ''event_urn'' in
      if \<not> truthy event_urn then io_note (Refusal ''effector_launch'' ''missing_key'')
      else
        io_bind (io_lift (detonation_of ti decoded)) (\<lambda>d.
        io_bind (apply_detonation event_urn d) (\<lambda>x.
        io_bind (note_outcome x) (\<lambda>_.
        io_bind (terminate_track (dget decoded ''munition_urn'') event_urn (d\<lparr>d_now := ti_now3 ti\<rparr>)) (\<lambda>track.
        if track = Terminated \<or> track = LateTerminated
        then io_note (Counted ''munition_track_terminal'' (d_state d)) else io_return ())))))"

section \<open>Resupply\<close>

text \<open>
  The quantity of a supply line: a whole float counts, a bool, a fraction or a negative number does
  not.
\<close>

definition supply_quantity :: "py \<Rightarrow> int option" where
  "supply_quantity line =
     (case line of
        PDict l \<Rightarrow>
          (case dget l ''quantity'' of
             PInt i \<Rightarrow> (if i < 0 then None else Some i)
           | PFloat (Fin q) \<Rightarrow> (if q = of_int \<lfloor>q\<rfloor> \<and> 0 \<le> q then Some \<lfloor>q\<rfloor> else None)
           | _ \<Rightarrow> None)
      | _ \<Rightarrow> None)"

definition line_munition :: "py \<Rightarrow> string res" where
  "line_munition line = (case line of PDict l \<Rightarrow> munition_type_key (dget l ''munition_type'') | _ \<Rightarrow> Inl AttributeError)"

fun supply_totals :: "py list \<Rightarrow> (string \<times> int) list \<Rightarrow> (string \<times> int) list io" where
  "supply_totals [] totals = io_return totals"
| "supply_totals (line # supplies) totals =
     (case supply_quantity line of
        None \<Rightarrow> io_bind (io_note (Refusal ''effector_resupply'' ''bad_quantity'')) (\<lambda>_. supply_totals supplies totals)
      | Some qty \<Rightarrow>
          io_bind (io_lift (line_munition line)) (\<lambda>mt.
            supply_totals supplies (dset totals mt ((case map_of totals mt of None \<Rightarrow> 0 | Some n \<Rightarrow> n) + qty))))"

definition resupply_row :: "tier \<Rightarrow> dict \<Rightarrow> py \<Rightarrow> string \<Rightarrow> int \<Rightarrow> dict res" where
  "resupply_row ti decoded received_at mt qty =
     (let prov = or_empty (dget decoded ''provenance'') in
      rbind (resolve_provenance_from_dict (ti_env ti) prov) (\<lambda>origin.
      rbind (releasability_from prov) (\<lambda>rel.
        Inr ([(''event_urn'', dget decoded ''event_urn''),
              (''launcher_asset_id'', dget decoded ''launcher_urn''),
              (''supplier_asset_id'', dget decoded ''supplier_urn''),
              (''munition_type'', PStr mt),
              (''quantity'', PInt qty),
              (''received_at'', received_at)] @ origin @ rel))))"

definition resupply_write :: "dict \<Rightarrow> pg_write" where
  "resupply_write row = \<lparr>w_table = ''effector_resupply'', w_mode = ''append'',
     w_key_columns = [''event_urn'', ''munition_type''], w_row = row, w_jsonb_columns = [], w_revive = None\<rparr>"

fun write_supplies :: "tier \<Rightarrow> dict \<Rightarrow> py \<Rightarrow> (string \<times> int) list \<Rightarrow> unit io" where
  "write_supplies ti decoded received_at [] = io_return ()"
| "write_supplies ti decoded received_at ((mt, qty) # totals) =
     io_bind (io_lift (resupply_row ti decoded received_at mt qty)) (\<lambda>row.
     io_bind (pool_execute ti (resupply_write row)) (\<lambda>_.
     io_bind (io_note (Counted ''effector_resupply_rows'' [])) (\<lambda>_.
       write_supplies ti decoded received_at totals)))"

definition handle_resupply :: "tier \<Rightarrow> dict \<Rightarrow> unit io" where
  "handle_resupply ti decoded =
     (if \<not> truthy (dget decoded ''event_urn'') \<or> \<not> truthy (dget decoded ''launcher_urn'')
      then io_note (Refusal ''effector_resupply'' ''missing_key'')
      else
        io_bind (io_read (admitted (dget decoded ''launcher_urn''))) (\<lambda>ok.
        if \<not> ok then io_note (Counted ''effector_refused'' ''unknown_launcher'')
        else
          (case dget decoded ''supplies'' of
             PList supplies \<Rightarrow>
               (if supplies = [] then io_note (Refusal ''effector_resupply'' ''no_supplies'')
                else
                  io_bind (supply_totals supplies []) (\<lambda>totals.
                    write_supplies ti decoded
                      (py_or (parse_timestamp (ti_env ti) (dget decoded ''ingest_timestamp'')) (PTime (ti_now1 ti)))
                      totals))
           | _ \<Rightarrow> io_note (Refusal ''effector_resupply'' ''no_supplies''))))"

definition handle_effector_launch :: "tier \<Rightarrow> string \<Rightarrow> dict \<Rightarrow> unit io" where
  "handle_effector_launch ti key decoded =
     (let pdu_type = dget decoded ''pdu_type'' in
      if pdu_type = PStr ''fire'' then handle_fire ti decoded
      else if pdu_type = PStr ''detonation'' then handle_detonation ti decoded
      else if pdu_type = PStr ''resupply_received'' then
        io_bind (io_note (Counted ''effector_resupply_seen'' [])) (\<lambda>_. handle_resupply ti decoded)
      else io_note (Refusal ''effector_launch'' ''unknown_pdu_type''))"

section \<open>Munition tracks\<close>

definition refuse_track :: "string \<Rightarrow> unit io" where
  "refuse_track reason =
     io_bind (io_note (Counted ''munition_track_refused'' reason)) (\<lambda>_. io_note (Refusal ''munition_track'' reason))"

definition ecef :: "py \<Rightarrow> (flt \<times> flt \<times> flt) option res" where
  "ecef loc =
     (case loc of
        PDict l \<Rightarrow>
          (case rmap (\<lambda>c. rbind (dindex l c) py_float) [''x'', ''y'', ''z''] of
             Inr [x, y, z] \<Rightarrow> Inr (if NaN \<in> {x, y, z} then None else Some (x, y, z))
           | Inr _ \<Rightarrow> Inr None
           | Inl (KeyError _) \<Rightarrow> Inr None
           | Inl e \<Rightarrow> (if e = TypeError \<or> e = ValueError then Inr None else Inl e))
      | _ \<Rightarrow> Inr None)"

definition outcome_label :: "track_outcome \<Rightarrow> string" where
  "outcome_label x = (case x of Inserted \<Rightarrow> ''inserted'' | Advanced \<Rightarrow> ''updated'' | Stale \<Rightarrow> ''stale''
     | AfterTerminal \<Rightarrow> ''after_terminal'')"

definition handle_munition_track :: "tier \<Rightarrow> string \<Rightarrow> dict \<Rightarrow> unit io" where
  "handle_munition_track ti key decoded =
     (let urn = dget decoded ''munition_urn'' in
      if \<not> truthy urn then refuse_track ''no_munition_urn''
      else
        io_bind (io_lift (ecef (dget decoded ''location_ecef''))) (\<lambda>loc.
        case loc of None \<Rightarrow> refuse_track ''no_location''
        | Some (x, y, z) \<Rightarrow>
            (case parse_timestamp (ti_env ti) (dget decoded ''sample_time'') of
               PTime t \<Rightarrow>
                 io_bind (io_lift (resolve_provenance_from_dict (ti_env ti) (or_empty (dget decoded ''provenance'')))) (\<lambda>labels.
                 io_bind (io_lift (munition_type_key (dget decoded ''munition_type''))) (\<lambda>mt.
                 io_bind (io_try_update (\<lambda>st.
                   rbind (upsert_munition_track (ti_schema ti ''munition_track'') (ti_trail ti)
                       \<lparr>ts_munition = urn, ts_type = PStr mt, ts_x = x, ts_y = y, ts_z = z, ts_time = t,
                        ts_edge = dget labels ''edge_id'', ts_region = dget labels ''region_id'', ts_now = ti_now1 ti\<rparr>
                       (ti_rival1 ti) (ti_rival2 ti) (munition_view st))
                     (\<lambda>(x, v). Inr (x, put_view v st)))) (\<lambda>(out, joined).
                 io_bind (io_note (Counted ''munition_track_upserts'' (outcome_label out))) (\<lambda>_.
                 if joined then io_note (Counted ''munition_track_joined'' ''track'') else io_return ()))))
             | _ \<Rightarrow> refuse_track ''bad_sample_time'')))"

text \<open>As the consumer calls them: the exception raised, if any, and the store.\<close>

definition run_custom :: "(string \<Rightarrow> dict \<Rightarrow> unit io) \<Rightarrow> string \<Rightarrow> dict \<Rightarrow> store \<Rightarrow> exc option \<times> store" where
  "run_custom h key decoded st =
     (case h key decoded \<lparr>cs_store = st, cs_notes = []\<rparr> of
        (Inl e, s) \<Rightarrow> (Some e, cs_store s)
      | (Inr _, s) \<Rightarrow> (None, cs_store s))"

end
