(* ===== verification/Engagement.thy ===== *)
theory Engagement
  imports Custom_Handlers
begin

text \<open>
  What the engagement tables promise, whichever handler, timer or rival instance writes them: the
  invariant \<open>engagement_ok\<close> and its preservation; Fires, Detonations and resupplies on every branch;
  the agreement of launch and track; and that the Fire and the first sample of a munition commute.
\<close>

section \<open>The invariant of the two tables\<close>

definition result_states :: "py set" where
  "result_states = PStr ` {''entity_impact'', ''ground_impact'', ''detonated'', ''dud'', ''other''}"

definition launch_ok :: "row \<Rightarrow> bool" where
  "launch_ok r \<longleftrightarrow> r ''event_urn'' \<noteq> PNone \<and> r ''launcher_asset_id'' \<noteq> PNone
     \<and> r ''terminal_state'' \<in> insert PNone (insert (PStr ''unresolved'') result_states)"

definition track_ok :: "row \<Rightarrow> bool" where
  "track_ok r \<longleftrightarrow> r ''munition_asset_id'' \<noteq> PNone
     \<and> r ''terminal_state'' \<in> insert PNone (insert (PStr ''silent'') result_states)"

definition engagement_ok :: "munition_store \<Rightarrow> bool" where
  "engagement_ok v \<longleftrightarrow> keyed_rows ''event_urn'' launch_ok (ms_launches v)
     \<and> keyed_rows ''munition_asset_id'' track_ok (ms_tracks v)"

lemma keyed_rows_where:
  assumes "keyed_rows k P t" "\<And>r. P r \<Longrightarrow> P (f r) \<and> f r k = r k"
  shows "keyed_rows k P (update_where c v f t)" "keyed_rows k P (fst (sweep_rows g f t))"
  unfolding update_where_def sweep_rows_def fst_conv
  by (rule keyed_rows_map [OF assms(1)], use assms(2) in simp)+

text \<open>A detonation carries a state of the result vocabulary.\<close>

lemma real_states: "PStr (terminal_state_of_code c) \<in> result_states"
  using terminal_state_of_code_vocabulary [of c] by (auto simp: result_states_def)

lemma other_state: "PStr ''other'' \<in> result_states"
  by (simp add: result_states_def)

definition proper_detonation :: "detonation \<Rightarrow> bool" where
  "proper_detonation d \<longleftrightarrow> PStr (d_state d) \<in> result_states"

lemma proper_real: "proper_detonation d \<Longrightarrow> real_detonation d"
  by (auto simp: proper_detonation_def real_detonation_def result_states_def)

lemma detonation_of_proper: "detonation_of ti m = Inr d \<Longrightarrow> proper_detonation d"
  by (auto simp: detonation_of_def terminal_state_for_def res_simps proper_detonation_def real_states other_state
      split: sum.splits if_splits)

lemma close_row_ok:
  "proper_detonation d \<Longrightarrow> launch_ok r \<Longrightarrow> launch_ok (close_row d l r) \<and> close_row d l r ''event_urn'' = r ''event_urn''"
  "proper_detonation d \<Longrightarrow> track_ok r \<Longrightarrow>
     track_ok (close_row d l r) \<and> close_row d l r ''munition_asset_id'' = r ''munition_asset_id''"
  by (simp_all add: launch_ok_def track_ok_def close_row_def proper_detonation_def)

lemma label_track_ok:
  "track_ok r \<Longrightarrow> track_ok (label_track l now r) \<and> label_track l now r ''munition_asset_id'' = r ''munition_asset_id''"
  by (simp add: track_ok_def label_track_def)

lemma heal_ok: "engagement_ok v \<Longrightarrow> engagement_ok (fst (heal_tracks only now v))"
proof -
  assume v: "engagement_ok v"
  have "keyed_rows ''munition_asset_id'' track_ok
      (fst (sweep_rows (heal_guard only (ms_launches v)) (heal_act (ms_launches v) now) (ms_tracks v)))"
    by (rule keyed_rows_where(2)) (use v label_track_ok in \<open>auto simp: engagement_ok_def heal_act_def split: option.split\<close>)
  with v show ?thesis by (simp add: engagement_ok_def heal_tracks_def split_def Let_def)
qed

lemma heal_one_ok: "engagement_ok v \<Longrightarrow> engagement_ok (fst (heal_one m now v))"
  using heal_ok [of v "Some m" now] by (simp add: heal_one_def split_def Let_def)

lemma heal_if_ok: "engagement_ok v \<Longrightarrow> engagement_ok (fst (heal_if b s v))"
  by (simp add: heal_if_def heal_one_ok)

lemma detonation_ok:
  "engagement_ok v \<Longrightarrow> proper_detonation d \<Longrightarrow>
     engagement_ok (v\<lparr>ms_launches := snd (apply_effector_detonation e d (ms_launches v))\<rparr>)"
  using close_row_ok(1) [of d]
  by (auto simp: apply_effector_detonation_def engagement_ok_def Let_def intro!: keyed_rows_where split: option.split)

lemma terminate_ok:
  assumes "engagement_ok v" "proper_detonation d"
  shows "engagement_ok (snd (terminate_munition_track m e d v))"
proof -
  have "engagement_ok (v'\<lparr>ms_tracks := update_where ''munition_asset_id'' k (close_row d l) (ms_tracks v')\<rparr>)"
    if "engagement_ok v'" for v' k l
    using that close_row_ok(2) [OF assms(2)] by (auto simp: engagement_ok_def intro!: keyed_rows_where)
  then show ?thesis
    using assms(1) heal_one_ok
    by (simp add: terminate_munition_track_def Let_def split: option.split)
qed

lemma write_existing_ok:
  assumes "engagement_ok v" "write_existing trail s r v = Inr (out, v')"
  shows "engagement_ok v'"
proof -
  have "engagement_ok (v\<lparr>ms_tracks := update_where ''munition_asset_id'' k f (ms_tracks v)\<rparr>)"
    if "\<And>r. track_ok r \<Longrightarrow> track_ok (f r) \<and> f r ''munition_asset_id'' = r ''munition_asset_id''" for k f
    using assms(1) that by (auto simp: engagement_ok_def intro!: keyed_rows_where)
  moreover have "track_ok r \<Longrightarrow> track_ok (advance_track trail s p r)
      \<and> advance_track trail s p r ''munition_asset_id'' = r ''munition_asset_id''" for r p
    by (simp add: advance_track_def track_ok_def Let_def)
  moreover have "track_ok r \<Longrightarrow> track_ok (touch_track s r) \<and> touch_track s r ''munition_asset_id'' = r ''munition_asset_id''" for r
    by (simp add: touch_track_def track_ok_def)
  ultimately have w: "engagement_ok (v\<lparr>ms_tracks := update_where ''munition_asset_id'' k (advance_track trail s p) (ms_tracks v)\<rparr>)"
      "engagement_ok (v\<lparr>ms_tracks := update_where ''munition_asset_id'' k (touch_track s) (ms_tracks v)\<rparr>)" for k p
    by blast+
  show ?thesis
  proof (cases "r ''terminal_state'' = PNone")
    case False
    with assms heal_if_ok [OF assms(1)] show ?thesis by (auto simp: write_existing_def Let_def split_def)
  next
    case True
    with assms(2) obtain seen where "r ''last_sample_at'' = PTime seen"
      by (auto simp: write_existing_def Let_def split: py.splits)
    with True assms(2) heal_if_ok [OF w(1)] heal_if_ok [OF w(2)] show ?thesis
      by (auto simp: write_existing_def Let_def split_def split: if_splits)
  qed
qed

text \<open>What the tier must bring: column defaults without a verdict, and rivals that keep the invariant.\<close>

definition tier_ok :: "tier \<Rightarrow> bool" where
  "tier_ok ti \<longleftrightarrow> ti_schema ti ''effector_launch'' ''terminal_state'' = PNone
     \<and> ti_schema ti ''munition_track'' ''terminal_state'' = PNone
     \<and> (\<forall>v. engagement_ok v \<longrightarrow> engagement_ok (ti_rival1 ti v) \<and> engagement_ok (ti_rival2 ti v))"

lemma insert_track_ok:
  "dflt ''terminal_state'' = PNone \<Longrightarrow> ts_munition s \<noteq> PNone \<Longrightarrow> track_ok (insert_track dflt trail s l)"
  by (simp add: track_ok_def insert_track_def overlay_def)

lemma upsert_loop_ok:
  assumes "engagement_ok v" "upsert_loop dflt trail s rivals v = Inr (out, v')"
    and "\<forall>f \<in> set rivals. \<forall>v. engagement_ok v \<longrightarrow> engagement_ok (f v)"
    and "dflt ''terminal_state'' = PNone" "ts_munition s \<noteq> PNone"
  shows "engagement_ok v'"
  using assms(1,2,3)
proof (induction rivals arbitrary: v)
  case (Cons f rivals)
  show ?case
  proof (cases "select_one ''munition_asset_id'' (ts_munition s) (ms_tracks v)")
    case (Some r)
    with Cons.prems show ?thesis using write_existing_ok [of v trail s r out v'] by simp
  next
    case None
    have f: "engagement_ok (f v)" using Cons.prems by auto
    show ?thesis
    proof (cases "row_exists ''munition_asset_id'' (ts_munition s) (ms_tracks (f v))")
      case True
      with None Cons f show ?thesis by (auto simp: Let_def)
    next
      case False
      then have "ts_munition s \<notin> (\<lambda>r. r ''munition_asset_id'') ` set (ms_tracks (f v))"
        using assms(5) by (auto simp: row_exists_def list_ex_iff)
      with None Cons.prems(2) False f show ?thesis
        by (auto simp: Let_def engagement_ok_def insert_track_key
            intro!: keyed_rows_snoc insert_track_ok assms(4,5))
    qed
  qed
qed simp

lemma view_simps [simp]:
  "munition_view (put_view v st) = v" "ms_launches (munition_view st) = st ''effector_launch''"
  "ms_tracks (munition_view st) = st ''munition_track''"
  "munition_view (st(''effector_launch'' := l)) = (munition_view st)\<lparr>ms_launches := l\<rparr>"
  "munition_view (st(''munition_track'' := t)) = (munition_view st)\<lparr>ms_tracks := t\<rparr>"
  "munition_view (st(''effector_resupply'' := x)) = munition_view st"
  by (simp_all add: munition_view_def put_view_def)

section \<open>The launch row of a Fire\<close>

lemma launch_row_shape:
  assumes "launch_row ti m = Inr row"
  obtains mt q origin rel where "row =
      [(''event_urn'', dget m ''event_urn''), (''launcher_asset_id'', dget m ''launcher_urn''),
       (''munition_asset_id'', dget m ''munition_urn''), (''munition_type'', PStr mt), (''quantity'', PInt q),
       (''target_asset_id'', dget m ''target_urn''),
       (''launched_at'', py_or (parse_timestamp (ti_env ti) (dget m ''ingest_timestamp'')) (PTime (ti_now1 ti)))]
      @ origin @ rel"
    "munition_type_key (dget m ''munition_type'') = Inr mt"
    "resolve_provenance_from_dict (ti_env ti) (or_empty (dget m ''provenance'')) = Inr origin"
    "releasability_from (or_empty (dget m ''provenance'')) = Inr rel"
    "map fst origin = [''edge_id'', ''region_id'']" "label_columns rel"
proof -
  from assms obtain mt q origin rel where r: "munition_type_key (dget m ''munition_type'') = Inr mt"
    "resolve_provenance_from_dict (ti_env ti) (or_empty (dget m ''provenance'')) = Inr origin"
    "releasability_from (or_empty (dget m ''provenance'')) = Inr rel"
    and row: "row = [(''event_urn'', dget m ''event_urn''), (''launcher_asset_id'', dget m ''launcher_urn''),
       (''munition_asset_id'', dget m ''munition_urn''), (''munition_type'', PStr mt), (''quantity'', PInt q),
       (''target_asset_id'', dget m ''target_urn''),
       (''launched_at'', py_or (parse_timestamp (ti_env ti) (dget m ''ingest_timestamp'')) (PTime (ti_now1 ti)))]
      @ origin @ rel"
    by (auto simp: launch_row_def Let_def res_simps)
  have "label_columns rel" using releasability_columns [OF r(3)] by (simp add: label_columns_def)
  with row r resolve_provenance_columns(1) [OF r(2)] show ?thesis by (rule that)
qed

lemma launch_write_wf:
  assumes row: "launch_row ti m = Inr row" and ids: "dget m ''event_urn'' \<noteq> PNone"
  shows "ok_write dflt [''event_urn''] (launch_write row)"
proof -
  from row obtain mt q origin rel where r: "row =
      [(''event_urn'', dget m ''event_urn''), (''launcher_asset_id'', dget m ''launcher_urn''),
       (''munition_asset_id'', dget m ''munition_urn''), (''munition_type'', PStr mt), (''quantity'', PInt q),
       (''target_asset_id'', dget m ''target_urn''),
       (''launched_at'', py_or (parse_timestamp (ti_env ti) (dget m ''ingest_timestamp'')) (PTime (ti_now1 ti)))]
      @ origin @ rel" "map fst origin = [''edge_id'', ''region_id'']" "label_columns rel"
    by (rule launch_row_shape)
  have "wf_write (launch_write row)"
    by (rule wf_plain) (use r(2,3) ids in \<open>auto simp: launch_write_def r(1) label_columns_def
        simp flip: set_map\<close>)
  then show ?thesis by (simp add: ok_write_def launch_write_def)
qed

section \<open>Every writer keeps the invariant\<close>

text \<open>\<open>keeps P m\<close>: running \<open>m\<close> never loses the store property \<open>P\<close>, raised or returned.\<close>

definition keeps :: "(store \<Rightarrow> bool) \<Rightarrow> 'a io \<Rightarrow> bool" where
  "keeps P m \<longleftrightarrow> (\<forall>s. P (cs_store s) \<longrightarrow> P (cs_store (snd (m s))))"

lemma keeps_bind: "keeps P m \<Longrightarrow> (\<And>a. keeps P (f a)) \<Longrightarrow> keeps P (io_bind m f)"
  by (auto simp: keeps_def io_bind_def split: prod.split sum.split)

lemma keeps_lift: "(\<And>a. r = Inr a \<Longrightarrow> keeps P (f a)) \<Longrightarrow> keeps P (io_bind (io_lift r) f)"
  by (auto simp: keeps_def io_bind_def io_lift_def split: sum.split)

lemma keeps_read: "(\<And>a. keeps P (f a)) \<Longrightarrow> keeps P (io_bind (io_read g) f)"
  by (auto simp: keeps_def io_bind_def io_read_def)

lemma keeps_ends: "keeps P (io_return a)" "keeps P (io_note n)"
  by (simp_all add: keeps_def io_return_def io_note_def)

lemma keeps_update: "(\<And>st. P st \<Longrightarrow> P (snd (g st))) \<Longrightarrow> keeps P (io_update g)"
  by (simp add: keeps_def io_update_def split_def Let_def)

lemma keeps_try: "(\<And>st a st'. P st \<Longrightarrow> g st = Inr (a, st') \<Longrightarrow> P st') \<Longrightarrow> keeps P (io_try_update g)"
  by (auto simp: keeps_def io_try_update_def split: sum.split prod.split)

lemma keeps_if: "(b \<Longrightarrow> keeps P x) \<Longrightarrow> (\<not> b \<Longrightarrow> keeps P y) \<Longrightarrow> keeps P (if b then x else y)"
  by simp

lemmas keeps_intros = keeps_if keeps_lift keeps_read keeps_ends keeps_bind

lemma apply_append:
  "w_mode w = ''append'' \<Longrightarrow>
     apply_write dflt w t = (if list_ex (row_hit w) t then t else t @ [overlay (w_row w) dflt])"
  by (simp add: apply_write_def merge_row_def cong: if_cong)

abbreviation engaged :: "store \<Rightarrow> bool" where
  "engaged st \<equiv> engagement_ok (munition_view st)"

lemma launch_write_keeps:
  assumes "tier_ok ti" "launch_row ti m = Inr row" "truthy (dget m ''event_urn'')" "truthy (dget m ''launcher_urn'')"
  shows "keeps engaged (pool_execute ti (launch_write row))"
  unfolding pool_execute_def
proof (rule keeps_try)
  fix st a st'
  assume st: "engaged st" and w: "store_write (ti_accepts ti) (ti_schema ti) (launch_write row) st = Inr (a, st')"
  from assms(2) obtain mt q origin rel where r: "row =
      [(''event_urn'', dget m ''event_urn''), (''launcher_asset_id'', dget m ''launcher_urn''),
       (''munition_asset_id'', dget m ''munition_urn''), (''munition_type'', PStr mt), (''quantity'', PInt q),
       (''target_asset_id'', dget m ''target_urn''),
       (''launched_at'', py_or (parse_timestamp (ti_env ti) (dget m ''ingest_timestamp'')) (PTime (ti_now1 ti)))]
      @ origin @ rel" "map fst origin = [''edge_id'', ''region_id'']" "label_columns rel"
    by (rule launch_row_shape)
  have cols: "''terminal_state'' \<notin> fst ` set row"
    using r(2,3) by (auto simp: r(1) label_columns_def simp flip: set_map)
  have ids: "dget m ''event_urn'' \<noteq> PNone" "dget m ''launcher_urn'' \<noteq> PNone" using assms(3,4) by auto
  have "wf_write (launch_write row)" using launch_write_wf [OF assms(2) ids(1)] by (simp add: ok_write_def)
  with w have st': "st' = put_store (ti_schema ti) (launch_write row) st"
    by (simp add: store_write_wf split: if_splits)
  let ?new = "overlay row (ti_schema ti ''effector_launch'')"
  have ev: "?new ''event_urn'' = dget m ''event_urn''" "?new ''launcher_asset_id'' = dget m ''launcher_urn''"
    by (simp_all add: r(1))
  have "?new ''terminal_state'' = PNone"
    using assms(1) cols by (simp add: tier_ok_def overlay_notin)
  with ev ids have new: "launch_ok ?new" by (simp add: launch_ok_def)
  have hit: "row_hit (launch_write row) x \<longleftrightarrow> x ''event_urn'' = dget m ''event_urn''" for x
    by (simp add: row_hit_def write_key_def launch_write_def r(1))
  show "engaged st'"
    using st new ev(1)
    by (auto simp: st' put_store_def launch_write_def apply_append engagement_ok_def list_ex_iff
        hit [unfolded launch_write_def] intro!: keyed_rows_snoc)
qed

lemma fire_keeps: "tier_ok ti \<Longrightarrow> keeps engaged (handle_fire ti m)"
  unfolding handle_fire_def
proof (intro keeps_intros, goal_cases)
  case (1 ok row)
  then show ?case by (intro launch_write_keeps) auto
next
  case (2 ok row n)
  show ?case
    unfolding join_from_row_def join_munition_track_launcher_def
    by (rule keeps_update)
      (auto simp: split_def Let_def engagement_ok_def intro!: keyed_rows_where dest: label_track_ok)
qed

lemma note_outcome_keeps: "keeps P (note_outcome x)"
  by (cases x) (simp_all add: note_outcome_def keeps_ends)

lemma detonation_keeps: "keeps engaged (handle_detonation ti m)"
  unfolding handle_detonation_def Let_def
proof (intro keeps_intros note_outcome_keeps, goal_cases)
  case (1 d)
  then show ?case
    unfolding apply_detonation_def
    using detonation_ok [of "munition_view _" d "dget m ''event_urn''"] detonation_of_proper [of ti m d]
    by (intro keeps_update) (simp add: split_def Let_def)
next
  case (2 d x u)
  then show ?case
    unfolding terminate_track_def
    by (intro keeps_update)
      (auto simp: split_def Let_def proper_detonation_def intro!: terminate_ok dest!: detonation_of_proper)
qed

lemma store_write_elsewhere:
  assumes "store_write accepts schema w st = Inr (n, st')" "w_table w \<notin> {''effector_launch'', ''munition_track''}"
  shows "munition_view st' = munition_view st"
  using assms by (auto simp: store_write_def munition_view_def res_simps split: if_splits)

lemma resupply_keeps: "keeps engaged (handle_resupply ti m)"
proof -
  have totals: "keeps P (supply_totals lines acc)" for lines acc and P :: "store \<Rightarrow> bool"
    by (induction lines acc rule: supply_totals.induct) (auto intro!: keeps_intros split: option.split)
  have rows: "keeps engaged (write_supplies ti m t acc)" for t acc
  proof (induction ti m t acc rule: write_supplies.induct)
    case (2 ti m t mt qty acc)
    show ?case
      unfolding write_supplies.simps
    proof (intro keeps_intros, goal_cases)
      case (1 row)
      show ?case unfolding pool_execute_def
        by (rule keeps_try) (auto simp: resupply_write_def dest!: store_write_elsewhere)
    qed (rule 2)
  qed (simp add: keeps_ends)
  show ?thesis
    unfolding handle_resupply_def
    by (intro keeps_intros) (auto intro!: keeps_intros totals rows split: py.split)
qed

lemma effector_keeps: "tier_ok ti \<Longrightarrow> keeps engaged (handle_effector_launch ti key m)"
  unfolding handle_effector_launch_def Let_def
  by (intro keeps_intros fire_keeps detonation_keeps resupply_keeps)

lemma track_keeps: "tier_ok ti \<Longrightarrow> keeps engaged (handle_munition_track ti key m)"
proof -
  assume ti: "tier_ok ti"
  have refuse: "keeps P (refuse_track r)" for r and P :: "store \<Rightarrow> bool"
    unfolding refuse_track_def by (intro keeps_intros)
  have upsert: "keeps engaged (io_try_update (\<lambda>st. rbind (upsert_munition_track (ti_schema ti ''munition_track'')
      (ti_trail ti) sample (ti_rival1 ti) (ti_rival2 ti) (munition_view st)) (\<lambda>(x, v). Inr (x, put_view v st))))"
    if "ts_munition sample \<noteq> PNone" for sample
  proof (rule keeps_try)
    fix st a st'
    assume st: "engaged st" and "rbind (upsert_munition_track (ti_schema ti ''munition_track'') (ti_trail ti) sample
      (ti_rival1 ti) (ti_rival2 ti) (munition_view st)) (\<lambda>(x, v). Inr (x, put_view v st)) = Inr (a, st')"
    then obtain v where v: "st' = put_view v st" "upsert_loop (ti_schema ti ''munition_track'') (ti_trail ti) sample
        [ti_rival1 ti, ti_rival2 ti] (munition_view st) = Inr (a, v)"
      by (auto simp: rbind_eq_Inr upsert_munition_track_def simp del: upsert_loop.simps)
    have "engagement_ok v"
      by (rule upsert_loop_ok [OF st v(2)]) (use that ti in \<open>auto simp: tier_ok_def\<close>)
    with v(1) show "engaged st'" by simp
  qed
  show ?thesis
    unfolding handle_munition_track_def Let_def
  proof (intro keeps_if keeps_lift refuse, goal_cases)
    case (1 loc)
    show ?case
    proof (cases "\<exists>x y z t. loc = Some (x, y, z) \<and> parse_timestamp (ti_env ti) (dget m ''sample_time'') = PTime t")
      case True
      then obtain x y z t where e: "loc = Some (x, y, z)" "parse_timestamp (ti_env ti) (dget m ''sample_time'') = PTime t"
        by blast
      have ends: "keeps P (if j then io_note n else io_return u)" for j n u and P :: "store \<Rightarrow> bool"
        by (intro keeps_intros)
      show ?thesis
        unfolding e option.case prod.case py.case
        by (intro keeps_lift keeps_bind upsert) (use 1 in \<open>auto intro!: keeps_bind ends keeps_ends\<close>)
    next
      case False
      then show ?thesis
        using refuse by (cases loc; cases "parse_timestamp (ti_env ti) (dget m ''sample_time'')") auto
    qed
  qed
qed

lemma run_custom_keeps: "(\<And>key m. keeps P (h key m)) \<Longrightarrow> P st \<Longrightarrow> P (snd (run_custom h key m st))"
  by (auto simp: keeps_def run_custom_def split: prod.split sum.split) (metis custom_state.select_convs(1) snd_conv)+

text \<open>
  The events of a deployment that touch the engagement tables: a message of either topic at some
  tier, a pass of the launch timeout, a pass of the track sweep.
\<close>

datatype engagement_event =
    Effector_Message tier string dict
  | Track_Message tier string dict
  | Launch_Timeouts rat int
  | Track_Sweep rat bool int bool int

fun run_engagement :: "engagement_event \<Rightarrow> store \<Rightarrow> store" where
  "run_engagement (Effector_Message ti key m) st = snd (run_custom (handle_effector_launch ti) key m st)"
| "run_engagement (Track_Message ti key m) st = snd (run_custom (handle_munition_track ti) key m st)"
| "run_engagement (Launch_Timeouts w now) st =
     st(''effector_launch'' := fst (sweep_effector_timeouts w now (st ''effector_launch'')))"
| "run_engagement (Track_Sweep w ok1 now1 ok2 now2) st =
     put_view (sweep_pass w ok1 now1 ok2 now2 (munition_view st)) st"

fun event_ok :: "engagement_event \<Rightarrow> bool" where
  "event_ok (Effector_Message ti key m) = tier_ok ti"
| "event_ok (Track_Message ti key m) = tier_ok ti"
| "event_ok _ = True"

lemma engagement_event_keeps:
  assumes "event_ok e" "engaged st"
  shows "engaged (run_engagement e st)"
proof (cases e)
  case (Effector_Message ti key m)
  with assms run_custom_keeps [of engaged "handle_effector_launch ti" st] effector_keeps [of ti] show ?thesis by simp
next
  case (Track_Message ti key m)
  with assms run_custom_keeps [of engaged "handle_munition_track ti" st] track_keeps [of ti] show ?thesis by simp
next
  case (Launch_Timeouts w now)
  have "keyed_rows ''event_urn'' launch_ok (fst (sweep_effector_timeouts w now (st ''effector_launch'')))"
    unfolding sweep_effector_timeouts_def
    by (rule keyed_rows_where(2)) (use assms(2) in \<open>auto simp: engagement_ok_def launch_ok_def effector_act_def\<close>)
  with assms(2) Launch_Timeouts show ?thesis by (simp add: engagement_ok_def)
next
  case (Track_Sweep w ok1 now1 ok2 now2)
  have "engagement_ok (v\<lparr>ms_tracks := fst (sweep_munition_track_silence w now1 (ms_tracks v))\<rparr>)"
    if "engagement_ok v" for v
    unfolding sweep_munition_track_silence_def engagement_ok_def
    by (auto intro!: keyed_rows_where(2)) (use that in \<open>auto simp: engagement_ok_def track_ok_def silence_act_def\<close>)
  from this [of "munition_view st"] assms(2) Track_Sweep heal_ok show ?thesis
    by (simp add: sweep_pass_def heal_munition_track_launchers_def Let_def)
qed

text \<open>
  The engagement tables stay well formed. Through any sequence of Fires, Detonations,
  resupplies, track samples, timer passes and heals, of any tiers, with whatever exceptions and rival
  commits in between: event_urn and munition_asset_id stay unique and present, every launch
  row keeps a launcher, and a terminal state is always none, the timer's own word, or one of the
  five results of the DIS vocabulary.
\<close>

lemma engagement_invariant:
  assumes "engaged st" "list_all event_ok es"
  shows "engaged (fold run_engagement es st)"
  using assms by (induction es arbitrary: st) (auto intro: engagement_event_keeps)

section \<open>Detonations\<close>

lemma track_key_close:
  assumes "e \<noteq> PNone"
  shows "track_key m e (v\<lparr>ms_launches := snd (apply_effector_detonation e d (ms_launches v))\<rparr>) = track_key m e v"
proof -
  have "launch_column (lookup_row [''event_urn''] (snd (apply_effector_detonation e d (ms_launches v))) [e]) ''munition_asset_id''
      = launch_column (lookup_row [''event_urn''] (ms_launches v) [e]) ''munition_asset_id''"
    unfolding detonation_row [OF assms]
    by (cases "lookup_row [''event_urn''] (ms_launches v) [e]")
      (simp_all add: launch_column_def settle_row_def close_row_def)
  with assms show ?thesis by (simp add: track_key_def select_one_lookup)
qed

text \<open>A detonation that reads is applied to the launch, then to the track.\<close>

lemma detonation_run:
  assumes "dget m ''pdu_type'' = PStr ''detonation''" "truthy (dget m ''event_urn'')" "detonation_of ti m = Inr d"
  defines "e \<equiv> dget m ''event_urn''"
  shows "run_custom (handle_effector_launch ti) key m st
    = (None, put_view (snd (terminate_munition_track (dget m ''munition_urn'') e (d\<lparr>d_now := ti_now3 ti\<rparr>)
        ((munition_view st)\<lparr>ms_launches := snd (apply_effector_detonation e d (st ''effector_launch''))\<rparr>)))
       (st(''effector_launch'' := snd (apply_effector_detonation e d (st ''effector_launch'')))))"
proof -
  have noted: "\<exists>ns. note_outcome x s = (Inr (), s\<lparr>cs_notes := ns\<rparr>)" for x s
    by (cases x) (auto simp: note_outcome_def io_defs intro: exI [of _ "cs_notes s"])
  let ?t = "apply_effector_detonation e d (st ''effector_launch'')"
  obtain ns where n: "note_outcome (fst (fst ?t)) \<lparr>cs_store = st(''effector_launch'' := snd ?t), cs_notes = []\<rparr>
      = (Inr (), \<lparr>cs_store = st(''effector_launch'' := snd ?t), cs_notes = ns\<rparr>)"
    using noted [of "fst (fst ?t)" "\<lparr>cs_store = st(''effector_launch'' := snd ?t), cs_notes = []\<rparr>"] by auto
  have "apply_detonation e d \<lparr>cs_store = st, cs_notes = []\<rparr>
      = (Inr (fst (fst ?t)), \<lparr>cs_store = st(''effector_launch'' := snd ?t), cs_notes = []\<rparr>)"
    by (simp add: apply_detonation_def io_update_def split_def Let_def)
  with n assms(1,2,3) show ?thesis
    by (simp add: run_custom_def handle_effector_launch_def handle_detonation_def Let_def e_def [symmetric]
        io_bind_def io_lift_def terminate_track_def io_update_def split_def)
      (simp add: io_note_def io_return_def)
qed

text \<open>
  C6. One detonation closes the launch and the track with one verdict. When the launch row of the
  event and the track of its munition (named by the record, or else by the launch row) are both
  undecided, one message leaves both with the same result, code and time, each marked late exactly
  where its own timer had spoken first.
\<close>

theorem detonation_closes_both:
  assumes msg: "dget m ''pdu_type'' = PStr ''detonation''" "truthy (dget m ''event_urn'')" "detonation_of ti m = Inr d"
    and launch: "lookup_row [''event_urn''] (st ''effector_launch'') [dget m ''event_urn''] = Some r"
      "r ''terminal_state'' = PNone \<or> r ''terminal_state'' = PStr ''unresolved''"
    and track: "k = track_key (dget m ''munition_urn'') (dget m ''event_urn'') (munition_view st)" "truthy k"
      "lookup_row [''munition_asset_id''] (st ''munition_track'') [k] = Some q"
      "q ''terminal_state'' = PNone \<or> q ''terminal_state'' = PStr ''silent''"
  shows "\<exists>st' r' q'. run_custom (handle_effector_launch ti) key m st = (None, st')
    \<and> lookup_row [''event_urn''] (st' ''effector_launch'') [dget m ''event_urn''] = Some r'
    \<and> lookup_row [''munition_asset_id''] (st' ''munition_track'') [k] = Some q'
    \<and> verdict r' = (PStr (d_state d), PInt (d_result d), d_terminated_at d, PBool (r ''terminal_state'' = PStr ''unresolved''))
    \<and> verdict q' = (PStr (d_state d), PInt (d_result d), d_terminated_at d, PBool (q ''terminal_state'' = PStr ''silent''))"
proof -
  let ?e = "dget m ''event_urn''" and ?d3 = "d\<lparr>d_now := ti_now3 ti\<rparr>"
  let ?v = "(munition_view st)\<lparr>ms_launches := snd (apply_effector_detonation ?e d (st ''effector_launch''))\<rparr>"
  have e: "?e \<noteq> PNone" using msg(2) by auto
  have k: "k = track_key (dget m ''munition_urn'') ?e ?v"
    using track_key_close [OF e, where v = "munition_view st" and d = d] track(1) by simp
  let ?r = "settle_row ''unresolved'' d r"
  let ?h = "heal_row (Some k) (ms_launches ?v) (ti_now3 ti) q"
  let ?q = "settle_row ''silent'' ?d3 ?h"
  have r: "lookup_row [''event_urn''] (ms_launches ?v) [?e] = Some ?r"
    using detonation_row [OF e, of d "st ''effector_launch''" ?e] launch(1) by simp
  have "track_of (snd (terminate_munition_track (dget m ''munition_urn'') ?e ?d3 ?v)) k = Some ?q"
    using terminate_row [OF k track(2), of ?d3 k] track(3) by simp
  moreover have "ms_launches (snd (terminate_munition_track (dget m ''munition_urn'') ?e ?d3 ?v)) = ms_launches ?v"
    by (simp add: terminate_munition_track_def Let_def heal_launches split: option.split)
  moreover have "verdict ?r = (PStr (d_state d), PInt (d_result d), d_terminated_at d, PBool (r ''terminal_state'' = PStr ''unresolved''))"
    using launch(2) by (auto simp: settle_row_def phase_of_def verdict_def close_row_def)
  moreover have "?h ''terminal_state'' = q ''terminal_state''"
    using heal_row_keeps(2) [of "Some k" "ms_launches ?v" "ti_now3 ti" q] by (simp add: verdict_def)
  then have "verdict ?q = (PStr (d_state d), PInt (d_result d), d_terminated_at d, PBool (q ''terminal_state'' = PStr ''silent''))"
    using track(4) by (auto simp: settle_row_def phase_of_def verdict_def close_row_def)
  ultimately show ?thesis
    unfolding detonation_run [OF msg] using r by (simp add: put_view_def)
qed

text \<open>
  A result code that is no number loses the detonation. \<open>terminal_state_for\<close> reads such a code as
  other, but the handler then converts it a second time and raises: neither the launch nor the
  track is closed, and the record is passed over.
\<close>

lemma unreadable_result_drops_detonation:
  assumes "dget m ''pdu_type'' = PStr ''detonation''" "truthy (dget m ''event_urn'')"
    and "truthy (dget m ''detonation_result'')" "py_int (dget m ''detonation_result'') = Inl e" "e \<in> {TypeError, ValueError}"
  shows "terminal_state_for (dget m ''detonation_result'') = Inr ''other''
    \<and> run_custom (handle_effector_launch ti) key m st = (Some e, st)"
proof -
  have "dget_or m ''detonation_result'' (PInt 0) = dget m ''detonation_result''"
    using assms(3) by (cases "map_of m ''detonation_result''") (auto simp: dget_def dget_or_def)
  moreover have "py_or (dget m ''detonation_result'') (PInt 0) = dget m ''detonation_result''"
    using assms(3) by (simp add: py_or_truthy)
  ultimately have "detonation_of ti m = Inl e"
    using assms(4,5) by (auto simp: detonation_of_def terminal_state_for_def)
  with assms show ?thesis
    by (auto simp: terminal_state_for_def run_custom_def handle_effector_launch_def handle_detonation_def Let_def io_defs)
qed

section \<open>Fires and samples\<close>

definition joined_labels :: "dict \<Rightarrow> launch_labels" where
  "joined_labels row = \<lparr>ll_launcher = dget row ''launcher_asset_id'', ll_event_urn = dget row ''event_urn'',
     ll_edge_id = dget row ''edge_id'', ll_region_id = dget row ''region_id'',
     ll_originator_nation = dget row ''originator_nation'', ll_releasable_to = dget row ''releasable_to''\<rparr>"

definition fire_ok :: "tier \<Rightarrow> dict \<Rightarrow> dict \<Rightarrow> store \<Rightarrow> bool" where
  "fire_ok ti m row st \<longleftrightarrow> dget m ''pdu_type'' = PStr ''fire''
     \<and> truthy (dget m ''event_urn'') \<and> truthy (dget m ''launcher_urn'') \<and> admitted (dget m ''launcher_urn'') st
     \<and> launch_row ti m = Inr row \<and> ti_accepts ti (launch_write row)"

text \<open>An admitted Fire appends its row, then labels the track of its munition that has no launcher.\<close>

lemma fire_run:
  assumes "fire_ok ti m row st"
  shows "run_custom (handle_effector_launch ti) key m st
    = (None, (st(''effector_launch'' := apply_write (ti_schema ti ''effector_launch'') (launch_write row) (st ''effector_launch'')))
        (''munition_track'' := if truthy (dget m ''munition_urn'')
            then fst (join_munition_track_launcher (dget m ''munition_urn'') (joined_labels row) (ti_now2 ti) (st ''munition_track''))
            else st ''munition_track''))"
proof -
  have row: "launch_row ti m = Inr row" and e: "dget m ''event_urn'' \<noteq> PNone" using assms by (auto simp: fire_ok_def)
  from row have u: "dget row ''munition_asset_id'' = dget m ''munition_urn''" by (rule launch_row_shape) simp
  have "wf_write (launch_write row)" using launch_write_wf [OF row e] by (simp add: ok_write_def)
  then have x: "pool_execute ti (launch_write row) \<lparr>cs_store = st, cs_notes = ns\<rparr>
      = (Inr (write_count (launch_write row) (st ''effector_launch'')),
         \<lparr>cs_store = st(''effector_launch'' := apply_write (ti_schema ti ''effector_launch'') (launch_write row) (st ''effector_launch'')),
          cs_notes = ns\<rparr>)" for ns
    using assms
    by (simp add: pool_execute_def io_try_update_def store_write_wf fire_ok_def put_store_def)
      (simp add: launch_write_def)
  have j: "join_from_row ti row s
      = (let p = join_munition_track_launcher (dget m ''munition_urn'') (joined_labels row) (ti_now2 ti) (cs_store s ''munition_track'')
         in (Inr (snd p), s\<lparr>cs_store := (cs_store s)(''munition_track'' := fst p)\<rparr>))" for s
    by (simp add: join_from_row_def io_update_def split_def Let_def joined_labels_def u)
  show ?thesis
    using assms
    by (simp add: run_custom_def handle_effector_launch_def handle_fire_def fire_ok_def io_bind_def io_read_def io_lift_def
        Let_def x u j)
      (simp add: io_note_def io_return_def fun_upd_idem)
qed

definition sample_ok :: "tier \<Rightarrow> dict \<Rightarrow> track_sample \<Rightarrow> bool" where
  "sample_ok ti m s \<longleftrightarrow>
     truthy (dget m ''munition_urn'') \<and> ts_munition s = dget m ''munition_urn''
     \<and> ecef (dget m ''location_ecef'') = Inr (Some (ts_x s, ts_y s, ts_z s))
     \<and> parse_timestamp (ti_env ti) (dget m ''sample_time'') = PTime (ts_time s)
     \<and> resolve_provenance_from_dict (ti_env ti) (or_empty (dget m ''provenance''))
         = Inr [(''edge_id'', ts_edge s), (''region_id'', ts_region s)]
     \<and> rbind (munition_type_key (dget m ''munition_type'')) (\<lambda>mt. Inr (PStr mt)) = Inr (ts_type s)
     \<and> ts_now s = ti_now1 ti \<and> ti_rival1 ti = id \<and> ti_rival2 ti = id"

lemma sample_run:
  assumes "sample_ok ti m s"
    and "upsert_munition_track (ti_schema ti ''munition_track'') (ti_trail ti) s id id (munition_view st) = Inr (out, v)"
  shows "run_custom (handle_munition_track ti) key m st = (None, put_view v st)"
proof -
  from assms(1) obtain mt where mt: "munition_type_key (dget m ''munition_type'') = Inr mt" "ts_type s = PStr mt"
    by (auto simp: sample_ok_def res_simps)
  have s: "\<lparr>ts_munition = dget m ''munition_urn'', ts_type = ts_type s, ts_x = ts_x s, ts_y = ts_y s, ts_z = ts_z s,
      ts_time = ts_time s, ts_edge = ts_edge s, ts_region = ts_region s, ts_now = ti_now1 ti\<rparr> = s"
    using assms(1) mt by (simp add: sample_ok_def)
  show ?thesis
    using assms mt(1)
    by (simp add: run_custom_def handle_munition_track_def sample_ok_def Let_def io_bind_def io_lift_def io_try_update_def
        s split_def)
      (simp add: io_note_def io_return_def)
qed

lemma launch_write_key: "launch_row ti m = Inr row \<Longrightarrow> write_key (launch_write row) = [dget m ''event_urn'']"
  by (erule launch_row_shape) (simp add: write_key_def launch_write_def)

lemma fire_launches:
  assumes "fire_ok ti m row st"
  shows "lookup_row [''event_urn''] (apply_write dflt (launch_write row) (st ''effector_launch'')) [k]
    = (if k = dget m ''event_urn''
       then Some (case lookup_row [''event_urn''] (st ''effector_launch'') [k] of
                    Some r \<Rightarrow> r | None \<Rightarrow> overlay row dflt)
       else lookup_row [''event_urn''] (st ''effector_launch'') [k])"
proof -
  have row: "launch_row ti m = Inr row" and e: "dget m ''event_urn'' \<noteq> PNone" using assms by (auto simp: fire_ok_def)
  from pg.lookup_put [OF launch_write_wf [OF row e], of dflt "st ''effector_launch''" "[k]"] show ?thesis
    by (simp add: launch_write_key [OF row]) (auto simp: merge_row_def launch_write_def split: option.split)
qed

text \<open>
  C8. A launch is recorded once, and only for a known launcher. A Fire whose launcher has no
  telemetry row changes no table and is counted as refused; an admitted Fire whose row builds and is
  accepted adds exactly its own row, and where a row of that event exists already (a replay, or the
  other tier's copy) leaves it as it is.
\<close>

theorem fire_admission:
  assumes "dget m ''pdu_type'' = PStr ''fire''" "truthy (dget m ''event_urn'')" "truthy (dget m ''launcher_urn'')"
  shows "(\<not> admitted (dget m ''launcher_urn'') st \<longrightarrow>
       handle_effector_launch ti key m \<lparr>cs_store = st, cs_notes = []\<rparr>
         = (Inr (), \<lparr>cs_store = st, cs_notes = [Counted ''effector_refused'' ''unknown_launcher'']\<rparr>))
    \<and> (fire_ok ti m row st \<longrightarrow>
       (\<exists>st'. run_custom (handle_effector_launch ti) key m st = (None, st')
         \<and> lookup_row [''event_urn''] (st' ''effector_launch'') [k]
            = (if k = dget m ''event_urn''
               then Some (case lookup_row [''event_urn''] (st ''effector_launch'') [k] of
                    Some r \<Rightarrow> r | None \<Rightarrow> overlay row (ti_schema ti ''effector_launch''))
               else lookup_row [''event_urn''] (st ''effector_launch'') [k])))"
proof -
  have "\<not> admitted (dget m ''launcher_urn'') st \<Longrightarrow>
       handle_effector_launch ti key m \<lparr>cs_store = st, cs_notes = []\<rparr>
         = (Inr (), \<lparr>cs_store = st, cs_notes = [Counted ''effector_refused'' ''unknown_launcher'']\<rparr>)"
    using assms by (simp add: handle_effector_launch_def handle_fire_def io_bind_def io_read_def io_note_def Let_def)
  then show ?thesis
    using fire_launches [of ti m row st "ti_schema ti ''effector_launch''" k]
      fire_run [of ti m row st key] by simp
qed

text \<open>The launch row of a Fire, as the track's labels see it.\<close>

lemma fire_row_column:
  assumes "launch_row ti m = Inr row" "c \<in> fst ` set row \<or> dflt c = PNone"
  shows "overlay row dflt c = dget row c"
  using assms(2) by (cases "c \<in> fst ` set row") (auto simp: overlay_in overlay_notin dget_notin)

lemma resolved_truthy:
  assumes "resolve_provenance_from_dict env p = Inr d" "e_edge_id env \<noteq> []" "e_region_id env \<noteq> []"
  shows "truthy (dget d ''edge_id'')" "truthy (dget d ''region_id'')"
  using assms by (auto simp: resolve_provenance_from_dict_def res_simps py_or_def)

text \<open>The first sample of a munition, and a Fire that finds no track of it.\<close>

lemma first_sample_run:
  assumes "sample_ok ts m s" "lookup_row [''munition_asset_id''] (st ''munition_track'') [ts_munition s] = None"
  shows "run_custom (handle_munition_track ts) key m st
    = (None, st(''munition_track'' := st ''munition_track'' @
        [insert_track (ti_schema ts ''munition_track'') (ti_trail ts) s
          (newest_launch (ts_munition s) (st ''effector_launch''))]))"
proof -
  have "ts_munition s \<noteq> PNone" using assms(1) by (auto simp: sample_ok_def)
  then have "upsert_munition_track (ti_schema ts ''munition_track'') (ti_trail ts) s id id (munition_view st)
      = Inr ((Inserted, newest_launch (ts_munition s) (st ''effector_launch'') \<noteq> None),
         (munition_view st)\<lparr>ms_tracks := st ''munition_track'' @ [insert_track (ti_schema ts ''munition_track'') (ti_trail ts) s
           (newest_launch (ts_munition s) (st ''effector_launch''))]\<rparr>)"
    using assms(2) by (simp add: upsert_munition_track_def select_one_lookup row_exists_track Let_def)
  from sample_run [OF assms(1) this, of key] show ?thesis by (simp add: put_view_def munition_view_def)
qed

lemma join_nothing:
  "lookup_row [''munition_asset_id''] t [u] = None \<Longrightarrow> fst (join_munition_track_launcher u l now t) = t"
  unfolding join_munition_track_launcher_def sweep_rows_def fst_conv
  by (auto simp: lookup_row_None intro!: map_idI)

lemma fire_appends:
  assumes "launch_row tf m = Inr row" "lookup_row [''event_urn''] ls [dget m ''event_urn''] = None"
  shows "apply_write dflt (launch_write row) ls = ls @ [overlay row dflt]"
proof -
  have "row_hit (launch_write row) x \<longleftrightarrow> x ''event_urn'' = dget m ''event_urn''" for x
    using launch_write_key [OF assms(1)] by (simp add: row_hit_def) (simp add: launch_write_def)
  then have "\<not> list_ex (row_hit (launch_write row)) ls" using assms(2) by (auto simp: lookup_row_None list_ex_iff)
  then show ?thesis using apply_append [of "launch_write row" dflt ls] by (simp add: launch_write_def)
qed

lemma fire_row_labels:
  assumes "launch_row tf m = Inr row" "e_edge_id (ti_env tf) \<noteq> []" "e_region_id (ti_env tf) \<noteq> []"
    and "dflt ''originator_nation'' = PNone" "dflt ''releasable_to'' = PNone"
  shows "labels_of (overlay row dflt) = joined_labels row"
    "overlay row dflt ''munition_asset_id'' = dget m ''munition_urn''"
    "truthy (dget row ''edge_id'')" "truthy (dget row ''region_id'')"
    "dget row ''launcher_asset_id'' = dget m ''launcher_urn''"
proof -
  from assms(1) obtain mt q origin rel where r: "row =
      [(''event_urn'', dget m ''event_urn''), (''launcher_asset_id'', dget m ''launcher_urn''),
       (''munition_asset_id'', dget m ''munition_urn''), (''munition_type'', PStr mt), (''quantity'', PInt q),
       (''target_asset_id'', dget m ''target_urn''),
       (''launched_at'', py_or (parse_timestamp (ti_env tf) (dget m ''ingest_timestamp'')) (PTime (ti_now1 tf)))]
      @ origin @ rel"
      "resolve_provenance_from_dict (ti_env tf) (or_empty (dget m ''provenance'')) = Inr origin"
      "map fst origin = [''edge_id'', ''region_id'']"
    by (rule launch_row_shape)
  have or_cols: "fst ` set origin = {''edge_id'', ''region_id''}"
    using r(3) by (metis image_set list.set(1) list.simps(15))
  then have cols: "{''launcher_asset_id'', ''event_urn'', ''munition_asset_id'', ''edge_id'', ''region_id''} \<subseteq> fst ` set row"
    by (auto simp: r(1) image_Un)
  have L: "overlay row dflt c = dget row c" if "c \<in> {''launcher_asset_id'', ''event_urn'', ''munition_asset_id'',
      ''edge_id'', ''region_id'', ''originator_nation'', ''releasable_to''}" for c
    by (rule fire_row_column [OF assms(1)]) (use that cols assms(4,5) in auto)
  show "labels_of (overlay row dflt) = joined_labels row" by (simp add: labels_of_def joined_labels_def L)
  show "overlay row dflt ''munition_asset_id'' = dget m ''munition_urn''"
    "dget row ''launcher_asset_id'' = dget m ''launcher_urn''"
    using L by (simp_all add: r(1))
  show "truthy (dget row ''edge_id'')" "truthy (dget row ''region_id'')"
    using resolved_truthy [OF r(2) assms(2,3)] or_cols by (simp_all add: r(1) dget_append)
qed

text \<open>A track labelled by the join and one labelled on insertion differ in updated_at only.\<close>

lemma labelled_either_way:
  assumes "labels_of L = l" "truthy (ll_edge_id l)" "truthy (ll_region_id l)" "c \<noteq> ''updated_at''"
  shows "label_track l now (insert_track dflt trail s None) c = insert_track dflt trail s (Some L) c"
  using assms(2,3,4) unfolding assms(1) [symmetric]
  by (auto simp: label_track_def labels_of_def coalesce_def insert_track_def overlay_def launch_column_def
      py_or_truthy truthy_not_None)

text \<open>
  C5. A Fire and the first sample of its munition commute. On a store that knows neither the event
  nor the munition, whichever of the two records is handled first, the same launch row and the
  same track row result (but for the track's own updated_at): same position, same launcher, event
  and labels. (The labels have no column default, and the instance that handles the Fire has names.)
\<close>

theorem fire_and_sample_commute:
  assumes fire: "fire_ok tf mf row st" "dget mf ''munition_urn'' = u"
      "e_edge_id (ti_env tf) \<noteq> []" "e_region_id (ti_env tf) \<noteq> []"
    and sample: "sample_ok ts ms s" "ts_munition s = u"
    and fresh: "lookup_row [''event_urn''] (st ''effector_launch'') [dget mf ''event_urn''] = None"
      "lookup_row [''munition_asset_id''] (st ''munition_track'') [u] = None"
      "\<forall>l \<in> set (st ''effector_launch''). l ''munition_asset_id'' \<noteq> u"
    and dflt: "ti_schema tf ''effector_launch'' ''originator_nation'' = PNone"
      "ti_schema tf ''effector_launch'' ''releasable_to'' = PNone"
  shows "\<exists>a b r1 r2. run_custom (handle_effector_launch tf) kf mf (snd (run_custom (handle_munition_track ts) ks ms st)) = (None, a)
    \<and> run_custom (handle_munition_track ts) ks ms (snd (run_custom (handle_effector_launch tf) kf mf st)) = (None, b)
    \<and> a ''effector_launch'' = b ''effector_launch''
    \<and> lookup_row [''munition_asset_id''] (a ''munition_track'') [u] = Some r1
    \<and> lookup_row [''munition_asset_id''] (b ''munition_track'') [u] = Some r2
    \<and> r1 ''launcher_asset_id'' = dget mf ''launcher_urn'' \<and> (\<forall>c. c \<noteq> ''updated_at'' \<longrightarrow> r1 c = r2 c)"
proof -
  let ?d = "ti_schema ts ''munition_track''" and ?dl = "ti_schema tf ''effector_launch''"
  let ?tr = "st ''munition_track''" and ?ls = "st ''effector_launch''"
  let ?L = "overlay row ?dl" and ?ls' = "?ls @ [overlay row ?dl]"
  let ?n0 = "insert_track ?d (ti_trail ts) s None" and ?n1 = "insert_track ?d (ti_trail ts) s (Some ?L)"
  let ?j = "\<lambda>t. fst (join_munition_track_launcher u (joined_labels row) (ti_now2 tf) t)"
  have u: "truthy u" "u \<noteq> PNone" using sample by (auto simp: sample_ok_def)
  have row: "launch_row tf mf = Inr row" using fire(1) by (simp add: fire_ok_def)
  note L = fire_row_labels [OF row fire(3,4) dflt]
  have ls': "apply_write ?dl (launch_write row) ?ls = ?ls'" by (rule fire_appends [OF row fresh(1)])
  have none: "newest_launch u ?ls = None" using fresh(3) by (simp add: newest_launch_None)
  have "filter (\<lambda>x. x ''munition_asset_id'' = u \<and> u \<noteq> PNone) ?ls = []"
    using fresh(3) by (auto simp: filter_empty_conv)
  then have newest: "newest_launch u ?ls' = Some ?L" using u L(2) fire(2) by (simp add: newest_launch_def)
  have A1: "run_custom (handle_munition_track ts) ks ms st = (None, st(''munition_track'' := ?tr @ [?n0]))"
    using first_sample_run [OF sample(1), of st ks] fresh(2) sample(2) none by simp
  have fire': "fire_ok tf mf row (st(''munition_track'' := t))" for t
    using fire(1) by (simp add: fire_ok_def admitted_def)
  have A2: "run_custom (handle_effector_launch tf) kf mf (st(''munition_track'' := ?tr @ [?n0]))
      = (None, st(''effector_launch'' := ?ls', ''munition_track'' := ?j (?tr @ [?n0])))"
    unfolding fire_run [OF fire'] using u fire(2) by (simp add: fun_upd_twist ls')
  have B1: "run_custom (handle_effector_launch tf) kf mf st = (None, st(''effector_launch'' := ?ls', ''munition_track'' := ?tr))"
    unfolding fire_run [OF fire(1)] using u fire(2) join_nothing [OF fresh(2)] by (simp add: ls')
  have B2: "run_custom (handle_munition_track ts) ks ms (st(''effector_launch'' := ?ls', ''munition_track'' := ?tr))
      = (None, st(''effector_launch'' := ?ls', ''munition_track'' := ?tr @ [?n1]))"
    using first_sample_run [OF sample(1), of "st(''effector_launch'' := ?ls', ''munition_track'' := ?tr)" ks]
      fresh(2) sample(2) newest by simp
  let ?r1 = "label_track (joined_labels row) (ti_now2 tf) ?n0"
  have key: "?n0 ''munition_asset_id'' = u" "?n1 ''munition_asset_id'' = u" "?n0 ''launcher_asset_id'' = PNone"
    using sample(2) by (simp_all add: insert_track_key) (simp add: insert_track_def overlay_def launch_column_def)
  have "lookup_row [''munition_asset_id''] (?j (?tr @ [?n0])) [u] = Some ?r1"
    unfolding join_row using fresh(2) key u(2) by (simp add: lookup_row_append lookup_row_Cons)
  moreover have "lookup_row [''munition_asset_id''] (?tr @ [?n1]) [u] = Some ?n1"
    using fresh(2) key by (simp add: lookup_row_append lookup_row_Cons)
  moreover have "c \<noteq> ''updated_at'' \<Longrightarrow> ?r1 c = ?n1 c" for c
    by (rule labelled_either_way [OF L(1)]) (simp_all add: joined_labels_def L(3,4))
  moreover have "?r1 ''launcher_asset_id'' = dget mf ''launcher_urn''"
    using L(5) by (simp add: label_track_def joined_labels_def)
  ultimately show ?thesis by (simp add: A1 A2 B1 B2)
qed

end
