(* ===== verification/Element_Store.thy ===== *)
theory Element_Store
  imports Element_Handler
begin

text \<open>
  The handler's contract with the store: the memory mirrors \<open>asset_element_state\<close>, a failed write
  leaves nothing behind, and labels follow the label record.
\<close>

section \<open>Tables of cells\<close>

lemma map_of_restamp: "map_of (restamp_cells a l cs) k =
    (if fst k = a then map_option (relabel l) (map_of cs k) else map_of cs k)"
  by (induction cs) (auto simp: restamp_cells_def)

lemma fst_restamp: "map fst (restamp_cells a l cs) = map fst cs"
  by (simp add: restamp_cells_def comp_def if_distrib cong: if_cong)

lemma ce_row_relabel [simp]: "ce_row (relabel l c) = ce_row c"
  by (simp add: relabel_def)

lemma map_of_upsert_cells:
  "distinct (map fst rows) \<Longrightarrow> map_of (upsert_cells a rows cs) k =
     (if fst k = a \<and> map_of rows (snd k) \<noteq> None then map_of rows (snd k) else map_of cs k)"
proof (induction rows arbitrary: cs)
  case (Cons pc rows)
  then have "map_of (upsert_cells a (pc # rows) cs) k =
      (if fst k = a \<and> map_of rows (snd k) \<noteq> None then map_of rows (snd k) else map_of (dset cs (a, fst pc) (snd pc)) k)"
    by (simp add: upsert_cells_def)
  moreover have "fst pc = snd k \<Longrightarrow> map_of rows (snd k) = None"
    using Cons.prems by (auto simp: map_of_eq_None_iff)
  ultimately show ?case by (cases pc) (auto simp: map_of_dset prod_eq_iff)
qed (simp add: upsert_cells_def)

lemma distinct_upsert_cells: "distinct (map fst cs) \<Longrightarrow> distinct (map fst (upsert_cells a rows cs))"
  by (induction rows arbitrary: cs) (simp_all add: upsert_cells_def distinct_dset)

lemma map_of_full_rows: "map_of (full_rows stamp labels prov rows) p =
    map_option (\<lambda>r. \<lparr>ce_row = r, ce_nation = dget labels ''originator_nation'',
        ce_releasable = dget labels ''releasable_to'', ce_provenance = prov, ce_updated_at = stamp\<rparr>) (map_of rows p)"
  by (induction rows) (auto simp: full_rows_def)

lemma fst_full_rows: "map fst (full_rows stamp labels prov rows) = map fst rows"
  by (simp add: full_rows_def comp_def)

lemma map_of_fetch:
  "map_of (fetch_element_state a w) p = map_option ce_row (map_of (ew_cells w) (a, p))"
proof -
  have "map_of (map (\<lambda>kc. (snd (fst kc), ce_row (snd kc))) (filter (\<lambda>kc. fst (fst kc) = a) cs)) p =
      map_option ce_row (map_of cs (a, p))" for cs
    by (induction cs) auto
  then show ?thesis by (simp add: fetch_element_state_def)
qed

lemma distinct_fetch:
  assumes "distinct (map fst (ew_cells w))"
  shows "distinct (map fst (fetch_element_state a w))"
proof -
  have "distinct (map fst cs) \<Longrightarrow>
      distinct (map (\<lambda>kc. snd (fst kc)) (filter (\<lambda>kc. fst (fst kc) = a) cs))" for cs :: "((string \<times> string) \<times> element_cell) list"
    by (induction cs) (force simp: image_iff prod_eq_iff)+
  with assms show ?thesis by (simp add: fetch_element_state_def comp_def)
qed

lemma dmerge_Nil_left: "distinct (map fst rows) \<Longrightarrow> map_of (dmerge [] rows) = map_of rows"
  by (simp add: map_of_dmerge)

lemma note_undeclared_keeps:
  "ew_assets (note_undeclared u w) = ew_assets w" "ew_cells (note_undeclared u w) = ew_cells w"
  "ew_tables (note_undeclared u w) = ew_tables w"
  by (induction u arbitrary: w) (auto simp: note_undeclared_def note_element_def)

lemma note_element_keeps [simp]:
  "ew_assets (note_element u w) = ew_assets w" "ew_cells (note_element u w) = ew_cells w"
  "ew_tables (note_element u w) = ew_tables w"
  by (simp_all add: note_element_def)

section \<open>The asset row\<close>

lemma asset_row_wf:
  assumes "map fst prov = [''edge_id'', ''region_id'']" "map fst labels = [''originator_nation'', ''releasable_to'']"
  shows "contract ''asset_element_telemetry'' ''upsert'' [''asset_id''] (asset_row_write ca a sig op t prov labels)"
  unfolding asset_row_write_def
  by (rule contractI_names [where cs = "[''asset_id'', ''platform_variant'', ''profile_name'', ''operational'',
      ''observed_at'', ''updated_at'', ''edge_id'', ''region_id'', ''originator_nation'', ''releasable_to'']"])
    (use assms in \<open>simp_all add: dget_def dget_or_def\<close>)

text \<open>The world after the transaction committed.\<close>

definition committed ::
  "(string \<Rightarrow> row) \<Rightarrow> string \<Rightarrow> pg_write option \<Rightarrow> (string \<times> element_cell) list \<Rightarrow> dict option \<Rightarrow> element_world
     \<Rightarrow> element_world" where
  "committed schema a asset_write rows restamp w =
     w\<lparr>ew_tables := (case asset_write of None \<Rightarrow> ew_tables w | Some wr \<Rightarrow> put_store schema wr (ew_tables w)),
       ew_cells := upsert_cells a rows
         (case restamp of None \<Rightarrow> ew_cells w | Some labels \<Rightarrow> restamp_cells a labels (ew_cells w))\<rparr>"

lemma element_tx_wf:
  "(\<And>wr. asset_write = Some wr \<Longrightarrow> wf_write wr) \<Longrightarrow>
     element_tx schema a asset_write rows restamp w = Inr (committed schema a asset_write rows restamp w)"
  by (cases asset_write) (simp_all add: element_tx_def committed_def run_write_refines put_store_def)

section \<open>The steps of a call\<close>

lemma write_element_state_wf:
  assumes "\<And>wr. asset_write = Some wr \<Longrightarrow> wf_write wr"
  shows "write_element_state schema tx a asset_write rows restamp w =
    ((if tx = LostBefore \<or> tx = LostAfter then Inl OSError else if tx = Rejected then Inl PostgresWriteError else Inr ()),
     (if tx = Committed \<or> tx = LostAfter then committed schema a asset_write rows restamp w else w))"
  by (cases tx) (simp_all add: write_element_state_def element_tx_wf [OF assms])

definition call_world ::
  "element_call \<Rightarrow> element_config \<Rightarrow> string \<Rightarrow> dict \<Rightarrow> asset_state \<Rightarrow> dict \<Rightarrow> dict \<Rightarrow> int
     \<Rightarrow> (string \<times> element_row) list \<Rightarrow> element_world \<Rightarrow> element_world" where
  "call_world ca cfg a decoded st prov labels observed_at rows w =
     committed (ca_schema ca) a (call_write ca cfg a decoded st prov labels observed_at)
       (full_rows (ca_now_stamp ca) labels prov rows) (call_restamp labels st) w"

lemma call_write_wf:
  assumes "map fst prov = [''edge_id'', ''region_id'']" "map fst labels = [''originator_nation'', ''releasable_to'']"
    "call_write ca cfg a decoded st prov labels t = Some wr"
  shows "wf_write wr"
proof -
  from assms(3) have "wr = asset_row_write ca a (call_sig ca decoded labels st)
      (or_empty (dget decoded ''operational'')) t prov labels" by (simp add: call_write_def split: if_splits)
  with asset_row_wf [OF assms(1,2)] show ?thesis by (simp only: contract_def)
qed

text \<open>The four ways a call ends after its diff.\<close>

lemma write_asset_cases:
  assumes "write_asset ca cfg a decoded st prov record_labels observed_at (rows, cs, u) w = (r, w')"
    "map fst prov = [''edge_id'', ''region_id'']"
    "\<forall>l. record_labels = Some l \<longrightarrow> l = [] \<or> map fst l = [''originator_nation'', ''releasable_to'']"
  obtains (unchanged) "r = Inr ElUnchanged" "w' = w" "rows = []"
  | (refused) reason where "r = Inr ElRefused" "w' = note_element [WriteRefused reason] w"
      "case record_labels of None \<Rightarrow> True | Some l \<Rightarrow> l = []"
  | (failed) labels e where "record_labels = Some labels" "labels \<noteq> []" "r = Inl e" "ca_tx ca \<noteq> Committed"
      "w' = (if ca_tx ca = LostAfter then call_world ca cfg a decoded st prov labels observed_at rows w else w)"
  | (written) labels ns where "record_labels = Some labels" "labels \<noteq> []" "r = Inr ElWritten" "ca_tx ca = Committed"
      "w' = note_element ns (set_asset a (advanced ca cfg decoded labels rows st)
          (call_world ca cfg a decoded st prov labels observed_at rows w))"
proof (cases "case record_labels of None \<Rightarrow> True | Some l \<Rightarrow> l = []")
  case True
  then have "(case record_labels of None \<Rightarrow> [] | Some l \<Rightarrow> l) = []" by (simp split: option.splits)
  with assms(1) True show ?thesis
    by (auto simp: write_asset_def Let_def split: if_splits intro: unchanged refused)
next
  case False
  then obtain labels where l: "record_labels = Some labels" "labels \<noteq> []" by (auto split: option.splits)
  with assms(3) have ml: "map fst labels = [''originator_nation'', ''releasable_to'']" by auto
  note st = write_element_state_wf [where asset_write = "call_write ca cfg a decoded st prov labels observed_at", OF call_write_wf [OF assms(2) ml]]
  have form: "write_asset ca cfg a decoded st prov record_labels observed_at (rows, cs, u) w =
      (if \<not> call_due ca cfg (call_sig ca decoded labels st) st \<and> rows = [] then (Inr ElUnchanged, w)
       else case write_element_state (ca_schema ca) (ca_tx ca) a
              (call_write ca cfg a decoded st prov labels observed_at)
              (full_rows (ca_now_stamp ca) labels prov rows) (call_restamp labels st) w of
          (Inl e, w1) \<Rightarrow> (Inl e, w1)
        | (Inr _, w1) \<Rightarrow> (Inr ElWritten, note_element
            ((if call_restamp labels st = None then [] else [Restamped]) @ map (\<lambda>pc. Emitted (snd pc)) cs)
            (set_asset a (advanced ca cfg decoded labels rows st) w1)))"
    using l by (simp add: write_asset_def)
  show ?thesis
  proof (cases "\<not> call_due ca cfg (call_sig ca decoded labels st) st \<and> rows = []")
    case True
    with form assms(1) show ?thesis by (intro unchanged) auto
  next
    case F: False
    show ?thesis
    proof (cases "ca_tx ca = Committed")
      case True
      with form assms(1) F l show ?thesis
        by (intro written [OF l]) (auto simp: st call_world_def)
    next
      case N: False
      with form assms(1) F l obtain e where "r = Inl e"
        "w' = (if ca_tx ca = LostAfter then call_world ca cfg a decoded st prov labels observed_at rows w else w)"
        by (cases "ca_tx ca") (auto simp: st call_world_def)
      with l N show ?thesis by (intro failed)
    qed
  qed
qed

section \<open>The memory mirrors the table\<close>

definition mirrors :: "((string \<times> string) \<times> element_cell) list \<Rightarrow> string \<Rightarrow> asset_state \<Rightarrow> bool" where
  "mirrors cells a st \<longleftrightarrow> distinct (map fst (st_elements st))
     \<and> (\<forall>p. map_of (st_elements st) p = map_option ce_row (map_of cells (a, p)))"

text \<open>
  The memory mirrors the table on every asset but those in \<open>D\<close>. An asset is in doubt after a commit whose
  acknowledgement is lost: the table moved on, the memory did not.
\<close>

definition coherent_but :: "string set \<Rightarrow> element_world \<Rightarrow> bool" where
  "coherent_but D w \<longleftrightarrow> distinct (map fst (ew_cells w))
     \<and> (\<forall>a st. a \<notin> D \<and> map_of (ew_assets w) a = Some st \<longrightarrow> mirrors (ew_cells w) a st)"

abbreviation coherent :: "element_world \<Rightarrow> bool" where
  "coherent \<equiv> coherent_but {}"

definition doubted :: "element_call \<Rightarrow> string \<Rightarrow> dict \<Rightarrow> string set" where
  "doubted ca key decoded =
     (if ca_tx ca \<noteq> LostAfter then {}
      else case py_or (dget decoded ''asset_id'') (PStr key) of PStr a \<Rightarrow> (if a = [] then {} else {a}) | _ \<Rightarrow> {})"

lemma coherent_mono: "coherent_but D w \<Longrightarrow> D \<subseteq> D' \<Longrightarrow> coherent_but D' w"
  by (auto simp: coherent_but_def)

text \<open>The state a call works with: the one held, or the table's rows loaded.\<close>

definition held_state :: "string \<Rightarrow> element_world \<Rightarrow> asset_state" where
  "held_state a w = (case map_of (ew_assets w) a of Some st \<Rightarrow> st
     | None \<Rightarrow> \<lparr>st_elements = dmerge [] (fetch_element_state a w), st_asset_sig = None,
              st_asset_written_at = 0, st_stamped_labels = None\<rparr>)"

lemma held_mirrors_but:
  assumes "coherent_but D w" "a \<notin> D"
  shows "mirrors (ew_cells w) a (held_state a w)"
proof (cases "map_of (ew_assets w) a")
  case None
  have "distinct (map fst (fetch_element_state a w))" using assms by (simp add: coherent_but_def distinct_fetch)
  with None show ?thesis by (simp add: mirrors_def held_state_def distinct_dmerge dmerge_Nil_left map_of_fetch)
qed (use assms in \<open>simp add: coherent_but_def held_state_def\<close>)

lemma held_mirrors: "coherent w \<Longrightarrow> mirrors (ew_cells w) a (held_state a w)"
  by (rule held_mirrors_but [where D = "{}"]) simp_all

lemma mirrors_first_labels: "mirrors cells a (first_labels l st) = mirrors cells a st"
  by (simp add: mirrors_def first_labels_def split: option.split)

lemma coherent_set:
  "coherent_but D w \<Longrightarrow> ew_cells w' = ew_cells w \<Longrightarrow> ew_assets w' = dset (ew_assets w) a st \<Longrightarrow>
     (a \<notin> D \<Longrightarrow> mirrors (ew_cells w) a st) \<Longrightarrow> coherent_but D w'"
  by (auto simp: coherent_but_def map_of_dset)

lemma coherent_same:
  "coherent_but D w \<Longrightarrow> ew_cells w' = ew_cells w \<Longrightarrow> ew_assets w' = ew_assets w \<Longrightarrow> coherent_but D w'"
  by (simp add: coherent_but_def)

lemma cells_call_world:
  assumes "distinct (map fst rows)"
  shows "map_option ce_row (map_of (ew_cells (call_world ca cfg a decoded st prov labels t rows w)) k) =
    (if fst k = a \<and> map_of rows (snd k) \<noteq> None then map_of rows (snd k) else map_option ce_row (map_of (ew_cells w) k))"
  using assms
  by (cases "map_of rows (snd k)")
    (auto simp: call_world_def committed_def map_of_upsert_cells fst_full_rows map_of_full_rows map_of_restamp
      option.map_comp comp_def split: option.split)

lemma assets_call_world [simp]: "ew_assets (call_world ca cfg a decoded st prov labels t rows w) = ew_assets w"
  by (simp add: call_world_def committed_def)

lemma distinct_call_world:
  "distinct (map fst (ew_cells w)) \<Longrightarrow> distinct (map fst (ew_cells (call_world ca cfg a decoded st prov labels t rows w)))"
  by (simp add: call_world_def committed_def distinct_upsert_cells fst_restamp split: option.split)

lemma mirrors_call_world:
  "distinct (map fst rows) \<Longrightarrow> b \<noteq> a \<Longrightarrow>
     mirrors (ew_cells (call_world ca cfg a decoded st prov labels t rows w)) b sb = mirrors (ew_cells w) b sb"
  by (simp add: mirrors_def cells_call_world)

lemma coherent_in_doubt:
  assumes "coherent_but D w" "a \<in> D" "distinct (map fst rows)"
  shows "coherent_but D (call_world ca cfg a decoded st prov labels t rows w)"
  unfolding coherent_but_def
proof (intro conjI allI impI, goal_cases)
  case (2 b sb)
  with assms(2) have "b \<noteq> a" by blast
  with 2 assms(1) mirrors_call_world [OF assms(3)] show ?case by (simp add: coherent_but_def)
qed (use assms(1) distinct_call_world in \<open>simp add: coherent_but_def\<close>)

lemma coherent_written:
  assumes "coherent_but D w" "a \<notin> D \<Longrightarrow> mirrors (ew_cells w) a st" "distinct (map fst rows)"
  shows "coherent_but D (note_element ns (set_asset a (advanced ca cfg decoded labels rows st)
    (call_world ca cfg a decoded st prov labels t rows w)))"
  unfolding coherent_but_def
proof (intro conjI allI impI, goal_cases)
  case 1
  show ?case using assms(1) distinct_call_world by (simp add: set_asset_def coherent_but_def)
next
  case (2 b sb)
  note cells = cells_call_world [OF assms(3), of ca cfg a decoded st prov labels t w]
  show ?case
  proof (cases "b = a")
    case True
    with 2 have "sb = advanced ca cfg decoded labels rows st" by (simp add: set_asset_def map_of_dset)
    with True 2 assms(2) show ?thesis
      by (auto simp: mirrors_def advanced_def Let_def set_asset_def distinct_dmerge map_of_dmerge [OF assms(3)]
          map_add_def cells split: option.split)
  next
    case False
    with 2 have "b \<notin> D" "map_of (ew_assets w) b = Some sb" by (simp_all add: set_asset_def map_of_dset)
    with assms(1) have "mirrors (ew_cells w) b sb" by (simp add: coherent_but_def)
    with False show ?thesis by (simp add: mirrors_call_world [OF assms(3)] set_asset_def)
  qed
qed

text \<open>What a call does, in three cases.\<close>

lemma element_asset_cases:
  assumes "element_asset ca cfg a decoded els st w = (r, w')"
  obtains (raised) e st' where "r = Inl e" "ew_cells w' = ew_cells w" "ew_tables w' = ew_tables w"
      "st' = st \<or> (\<exists>l. fetch_asset_labels a (ew_tables w) = Inr l \<and> st' = first_labels l st)" "ew_assets w' = ew_assets w \<or> ew_assets w' = dset (ew_assets w) a st'"
  | (diffed) prov l t rows cs u w1 where
      "resolve_origin_or_derive (ca_env ca) PNone (PStr a) None None = Inr prov"
      "fetch_asset_labels a (ew_tables w) = Inr l"
      "diff_snapshot (e_repr (ca_env ca)) cfg (st_elements st) els t = Inr (rows, cs, u)"
      "ew_cells w1 = ew_cells w" "ew_tables w1 = ew_tables w" "ew_assets w1 = dset (ew_assets w) a (first_labels l st)"
      "write_asset ca cfg a decoded (first_labels l st) prov l t (rows, cs, u) w1 = (r, w')"
      "t = observed_at_from_ns (ca_now_observed ca) (dget decoded ''observed_at_ns'')"
proof -
  have el: "st_elements (first_labels l st) = st_elements st" for l by (simp add: first_labels_def split: option.split)
  let ?t = "observed_at_from_ns (ca_now_observed ca) (dget decoded ''observed_at_ns'')"
  show ?thesis
  proof (cases "rbind (resolve_origin_or_derive (ca_env ca) PNone (PStr a) None None) (\<lambda>prov.
           rbind (case ca_fetch_labels ca of Some e \<Rightarrow> Inl e | None \<Rightarrow> fetch_asset_labels a (ew_tables w)) (\<lambda>labels.
             Inr (prov, labels)))")
    case (Inl e)
    with assms show ?thesis by (intro raised [of e st]) (auto simp: element_asset_def)
  next
    case (Inr pl)
    then obtain prov l where pl: "pl = (prov, l)" "resolve_origin_or_derive (ca_env ca) PNone (PStr a) None None = Inr prov"
      "fetch_asset_labels a (ew_tables w) = Inr l"
      by (auto simp: res_simps split: option.splits)
    let ?w = "set_asset a (first_labels l st) w"
    show ?thesis
    proof (cases "diff_snapshot (e_repr (ca_env ca)) cfg (st_elements st) els ?t")
      case (Inl e)
      with assms Inr pl show ?thesis
        by (intro raised [of e "first_labels l st"]) (auto simp: element_asset_def Let_def el set_asset_def)
    next
      case D: (Inr d)
      obtain rows cs u where d: "d = (rows, cs, u)" by (cases d)
      with D assms Inr pl have "write_asset ca cfg a decoded (first_labels l st) prov l ?t (rows, cs, u)
          (note_undeclared u ?w) = (r, w')"
        by (simp add: element_asset_def Let_def el)
      then show ?thesis using D d pl(2,3)
        by (intro diffed [of prov l ?t rows cs u "note_undeclared u ?w"]) (simp_all add: note_undeclared_keeps set_asset_def)
    qed
  qed
qed

lemma handle_asset_eq:
  assumes "config = Some cfg" "py_or (dget decoded ''asset_id'') (PStr key) = PStr a"
    "py_or (dget decoded ''elements'') (PList []) = PList els" "a \<noteq> []"
  shows "handle_asset_element_telemetry ca config key decoded w =
    (case map_of (ew_assets w) a of
       Some st \<Rightarrow> element_asset ca cfg a decoded els st w
     | None \<Rightarrow> (case ca_fetch_elements ca of Some e \<Rightarrow> (Inl e, w)
              | None \<Rightarrow> element_asset ca cfg a decoded els (held_state a w) (set_asset a (held_state a w) w)))"
  using assms by (simp add: handle_asset_element_telemetry_def held_state_def Let_def split: option.split)

lemma handle_cases:
  assumes "handle_asset_element_telemetry ca config key decoded w = (r, w')"
  obtains (none) "r = Inr ElSkip \<or> (\<exists>e. r = Inl e)" "w' = w"
  | (asset) cfg a els w0 where "config = Some cfg" "py_or (dget decoded ''asset_id'') (PStr key) = PStr a"
      "py_or (dget decoded ''elements'') (PList []) = PList els" "a \<noteq> []"
      "ew_cells w0 = ew_cells w" "ew_tables w0 = ew_tables w"
      "ew_assets w0 = ew_assets w \<or> ew_assets w0 = dset (ew_assets w) a (held_state a w)"
      "element_asset ca cfg a decoded els (held_state a w) w0 = (r, w')"
proof (cases config)
  case None
  with assms show ?thesis by (intro none) (auto simp: handle_asset_element_telemetry_def)
next
  case (Some cfg)
  let ?id = "py_or (dget decoded ''asset_id'') (PStr key)" and ?els = "py_or (dget decoded ''elements'') (PList [])"
  show ?thesis
  proof (cases "\<exists>a els. ?id = PStr a \<and> truthy ?id \<and> ?els = PList els")
    case True
    then obtain a els where a: "?id = PStr a" "truthy (PStr a)" "?els = PList els" by auto
    show ?thesis
    proof (cases "map_of (ew_assets w) a")
      case N: None
      show ?thesis
      proof (cases "ca_fetch_elements ca")
        case None
        with N a assms Some have "element_asset ca cfg a decoded els (held_state a w) (set_asset a (held_state a w) w) = (r, w')"
          by (simp add: handle_asset_element_telemetry_def held_state_def Let_def)
        then show ?thesis by (intro asset [OF Some a(1,3)]) (use a(2) in \<open>auto simp: set_asset_def\<close>)
      qed (use N a assms Some in \<open>intro none, auto simp: handle_asset_element_telemetry_def\<close>)
    next
      case (Some st)
      with a assms \<open>config = Some cfg\<close> have "element_asset ca cfg a decoded els (held_state a w) w = (r, w')"
        by (simp add: handle_asset_element_telemetry_def held_state_def)
      then show ?thesis by (intro asset [OF \<open>config = Some cfg\<close> a(1,3)]) (use a(2) in auto)
    qed
  next
    case False
    with assms Some show ?thesis
      by (intro none; cases ?id; cases ?els) (auto simp: handle_asset_element_telemetry_def Let_def split: if_splits)
  qed
qed

lemma fetched_labels:
  assumes "fetch_asset_labels a tables = Inr r" "r = Some l"
  shows "l = [] \<or> map fst l = [''originator_nation'', ''releasable_to'']"
  using assms releasability_columns by (auto simp: fetch_asset_labels_def res_simps split: option.splits)

text \<open>The cells of departed assets go, then what is held of those assets; with it goes every doubt about them.\<close>

lemma pruned_coherent:
  assumes "coherent_but D w"
  shows "coherent_but (D - set (fst (prune_owned w))) (snd (evict_assets (fst (prune_owned w)) (snd (prune_owned w))))"
  unfolding coherent_but_def
proof (intro conjI allI impI, goal_cases)
  case 1
  have "distinct (map fst (ew_cells w))" using assms by (simp add: coherent_but_def)
  then show ?case by (simp add: evict_assets_def prune_owned_def Let_def distinct_map_filter)
next
  case (2 a st)
  let ?gone = "fst (prune_owned w)"
  have cells: "ew_cells (snd (evict_assets ?gone (snd (prune_owned w)))) =
      filter (\<lambda>kc. owned (ew_tables w) (fst (fst kc))) (ew_cells w)"
    by (simp add: evict_assets_def prune_owned_def Let_def)
  from 2 have m: "map_of (filter (\<lambda>kv. fst kv \<notin> set ?gone) (ew_assets w)) a = Some st"
    by (simp add: evict_assets_def prune_owned_def Let_def split: if_splits)
  from m have a: "a \<notin> set ?gone" "map_of (ew_assets w) a = Some st"
    by (simp_all add: map_of_filter_fst [of "\<lambda>k. k \<notin> set ?gone"] split: if_splits)
  with 2 assms have "mirrors (ew_cells w) a st" by (simp add: coherent_but_def)
  moreover have "map_of (filter (\<lambda>kc. owned (ew_tables w) (fst (fst kc))) (ew_cells w)) (a, p) = map_of (ew_cells w) (a, p)" for p
  proof (cases "owned (ew_tables w) a")
    case False
    with a(1) have "(a, p) \<notin> fst ` set (ew_cells w)" by (force simp: prune_owned_def)
    then have "map_of (ew_cells w) (a, p) = None" by (simp add: map_of_eq_None_iff)
    then show ?thesis by (simp add: map_of_filter_fst [of "\<lambda>k. owned (ew_tables w) (fst k)"])
  qed (simp add: map_of_filter_fst [of "\<lambda>k. owned (ew_tables w) (fst k)"])
  ultimately show ?case by (simp add: mirrors_def cells)
qed

lemma element_call_coherent:
  assumes "coherent_but D w"
  shows "coherent_but (D \<union> doubted ca key decoded) (snd (handle_asset_element_telemetry ca config key decoded w))"
proof -
  let ?D = "D \<union> doubted ca key decoded"
  have w: "coherent_but ?D w" by (rule coherent_mono [OF assms]) simp
  obtain r w' where h: "handle_asset_element_telemetry ca config key decoded w = (r, w')" by fastforce
  from h have "coherent_but ?D w'"
  proof (cases rule: handle_cases)
    case none
    with w show ?thesis by simp
  next
    case (asset cfg a els w0)
    have m: "a \<notin> ?D \<Longrightarrow> mirrors (ew_cells w) a (held_state a w)" by (rule held_mirrors_but [OF w])
    have w0: "coherent_but ?D w0" using asset(5,7) w m coherent_set coherent_same by metis
    have lost: "a \<in> ?D" if "ca_tx ca = LostAfter" using that asset(2,4) by (simp add: doubted_def)
    from asset(8) show ?thesis
    proof (cases rule: element_asset_cases)
      case (raised e st')
      have "a \<notin> ?D \<Longrightarrow> mirrors (ew_cells w0) a st'" using raised(4) m asset(5) mirrors_first_labels by metis
      with raised(2,5) w0 show ?thesis using coherent_set coherent_same by metis
    next
      case (diffed prov l t rows cs u w1)
      have ms: "a \<notin> ?D \<Longrightarrow> mirrors (ew_cells w1) a (first_labels l (held_state a w))"
        using m asset(5) diffed(4) by (simp add: mirrors_first_labels)
      with diffed(4,6) w0 have w1: "coherent_but ?D w1" using coherent_set by metis
      have lab: "\<forall>k. l = Some k \<longrightarrow> k = [] \<or> map fst k = [''originator_nation'', ''releasable_to'']"
        using fetched_labels [OF diffed(2)] by blast
      from diffed(7) resolve_origin_columns [OF diffed(1)] lab show ?thesis
      proof (cases rule: write_asset_cases)
        case (failed labels e)
        with lost w1 coherent_in_doubt [OF w1 _ distinct_diff [OF diffed(3)]] show ?thesis by simp
      next
        case (written labels ns)
        then show ?thesis using coherent_written [OF w1 ms distinct_diff [OF diffed(3)]] by simp
      qed (use w1 coherent_same in \<open>auto\<close>)
    qed
  qed
  with h show ?thesis by simp
qed

text \<open>
  C13. The memory mirrors the table. Whatever message arrives, and whether the call skips, is refused, raises or
  has its transaction committed, lost or rejected, the last-written rows held for each asset are exactly its rows of
  \<open>asset_element_state\<close>, except for the assets in doubt: those of the calls whose commit was not acknowledged. Pruning the
  rows of departed assets followed by the eviction of the assets it returns keeps this and ends the doubt
  about the evicted ones, and so does dropping the memory about all.
\<close>

theorem memory_mirrors_table:
  assumes "coherent_but D w"
  shows "coherent_but (D \<union> doubted ca key decoded) (snd (handle_asset_element_telemetry ca config key decoded w))
    \<and> coherent_but (D - set (fst (prune_owned w))) (snd (evict_assets (fst (prune_owned w)) (snd (prune_owned w))))
    \<and> coherent_but {} (w\<lparr>ew_assets := []\<rparr>)"
  using element_call_coherent [OF assms] pruned_coherent [OF assms] assms by (simp add: coherent_but_def)

section \<open>The table follows the feed and the label record\<close>

text \<open>What a call that ends without a raise or a refusal did to the cells.\<close>

definition written_cells ::
  "element_call \<Rightarrow> string \<Rightarrow> asset_state \<Rightarrow> dict \<Rightarrow> dict \<Rightarrow> (string \<times> element_row) list
     \<Rightarrow> ((string \<times> string) \<times> element_cell) list \<Rightarrow> ((string \<times> string) \<times> element_cell) list" where
  "written_cells ca a st prov labels rows cells =
     upsert_cells a (full_rows (ca_now_stamp ca) labels prov rows)
       (case call_restamp labels st of None \<Rightarrow> cells | Some ls \<Rightarrow> restamp_cells a ls cells)"

lemma cells_of_call_world:
  "ew_cells (call_world ca cfg a decoded st prov labels t rows w) = written_cells ca a st prov labels rows (ew_cells w)"
  by (simp add: call_world_def committed_def written_cells_def)

lemma map_of_written_cells:
  assumes "distinct (map fst rows)"
  shows "map_of (written_cells ca a st prov labels rows cells) k =
    (if fst k \<noteq> a then map_of cells k
     else case map_of rows (snd k) of
       Some r \<Rightarrow> Some \<lparr>ce_row = r, ce_nation = dget labels ''originator_nation'',
          ce_releasable = dget labels ''releasable_to'', ce_provenance = prov, ce_updated_at = ca_now_stamp ca\<rparr>
     | None \<Rightarrow> (if call_restamp labels st = None then map_of cells k else map_option (relabel labels) (map_of cells k)))"
  using assms
  by (auto simp: written_cells_def map_of_upsert_cells fst_full_rows map_of_full_rows map_of_restamp call_restamp_def
      split: option.split)

lemma handle_done:
  assumes "handle_asset_element_telemetry ca config key decoded w = (Inr ans, w')" "ans = ElUnchanged \<or> ans = ElWritten"
  obtains cfg a els t l rows cs u where "config = Some cfg" "py_or (dget decoded ''asset_id'') (PStr key) = PStr a"
    "py_or (dget decoded ''elements'') (PList []) = PList els" "fetch_asset_labels a (ew_tables w) = Inr l"
    "diff_snapshot (e_repr (ca_env ca)) cfg (st_elements (held_state a w)) els t = Inr (rows, cs, u)"
    "ans = ElUnchanged \<and> rows = [] \<and> ew_cells w' = ew_cells w
     \<or> ans = ElWritten \<and> (\<exists>labels prov. l = Some labels \<and> labels \<noteq> [] \<and>
       ew_cells w' = written_cells ca a (first_labels l (held_state a w)) prov labels rows (ew_cells w))"
    "t = observed_at_from_ns (ca_now_observed ca) (dget decoded ''observed_at_ns'')"
  using assms(1)
proof (cases rule: handle_cases)
  case none
  with assms(2) show ?thesis by auto
next
  case (asset cfg a els w0)
  from asset(8) show ?thesis
  proof (cases rule: element_asset_cases)
    case (diffed prov l t rows cs u w1)
    have lab: "\<forall>k. l = Some k \<longrightarrow> k = [] \<or> map fst k = [''originator_nation'', ''releasable_to'']"
      using fetched_labels [OF diffed(2)] by blast
    note facts = asset(1-3) diffed(2) [unfolded asset(6)] diffed(3)
    from diffed(7) resolve_origin_columns [OF diffed(1)] lab show ?thesis
    proof (cases rule: write_asset_cases)
      case unchanged
      show ?thesis by (rule that [OF facts]) (use unchanged diffed(4,8) asset(5) in auto)
    next
      case (written labels ns)
      show ?thesis
        by (rule that [OF facts]) (use written diffed(4,8) asset(5) cells_of_call_world in \<open>auto simp: set_asset_def\<close>)
    qed (use assms(2) in auto)
  qed simp
qed

text \<open>
  C12. What is stored follows the feed. Let the memory mirror the table and the paths of the message be distinct. After a call that answers \<open>ElWritten\<close> or \<open>ElUnchanged\<close>, each declared
  element of the message has a row in \<open>asset_element_state\<close>, written now or before, whose values are
  within the layer's deadbands of the reported ones and whose flags, mover and health band are exactly the
  current ones.
\<close>

theorem stored_rows_follow_feed:
  assumes "coherent w" "config_ok cfg"
    and call: "handle_asset_element_telemetry ca (Some cfg) key decoded w = (Inr ans, w')" "ans = ElUnchanged \<or> ans = ElWritten"
    and msg: "py_or (dget decoded ''asset_id'') (PStr key) = PStr a"
      "py_or (dget decoded ''elements'') (PList []) = PList els" "distinct (List.map_filter path_of els)"
    and el: "el \<in> set els" "declared cfg el = Some (e, p, layer, db)"
  shows "\<exists>health cur c. current_fields (e_repr (ca_env ca)) cfg e (map_option ce_row (map_of (ew_cells w) (a, p))) = Inr (health, cur)
    \<and> map_of (ew_cells w') (a, p) = Some c \<and> fields_agree db cur (er_fields (ce_row c))"
proof -
  let ?st = "held_state a w"
  from call obtain t l rows cs u where
    d: "diff_snapshot (e_repr (ca_env ca)) cfg (st_elements ?st) els t = Inr (rows, cs, u)"
    "ans = ElUnchanged \<and> rows = [] \<and> ew_cells w' = ew_cells w
     \<or> ans = ElWritten \<and> (\<exists>labels prov. l = Some labels \<and> labels \<noteq> [] \<and>
       ew_cells w' = written_cells ca a (first_labels l ?st) prov labels rows (ew_cells w))"
    by (cases rule: handle_done) (use msg in auto)
  have m: "distinct (map fst (st_elements ?st))" "\<And>p. map_of (st_elements ?st) p = map_option ce_row (map_of (ew_cells w) (a, p))"
    using held_mirrors [OF assms(1)] by (simp_all add: mirrors_def)
  have del: "delivered (st_elements ?st) rows p = map_option ce_row (map_of (ew_cells w') (a, p))"
    using d(2) m(2) [of p]
    by (auto simp: delivered_def map_of_written_cells [OF distinct_diff [OF d(1)]] option.map_comp comp_def relabel_def
        split: option.split)
  from el(1) obtain pre post where els: "els = pre @ el # post" by (auto simp: in_set_conv_decomp)
  with msg(3) path_of_declared [OF el(2)] have once: "Some p \<notin> path_of ` (set pre \<union> set post)"
    by (auto simp: map_filter_def image_iff) (metis option.sel option.distinct(1))+
  from deadband_nonneg [OF assms(2), of layer db] el(2) have nn: "0 \<le> fst db" "0 \<le> snd db" by (auto simp: declared_Some)
  from delivered_element [OF d(1) m(1) els once el(2) nn] obtain health cur r where
    r: "current_fields (e_repr (ca_env ca)) cfg e (map_of (st_elements ?st) p) = Inr (health, cur)"
    "delivered (st_elements ?st) rows p = Some r" "fields_agree db cur (er_fields r)" by metis
  from r(2) del obtain c where "map_of (ew_cells w') (a, p) = Some c" "ce_row c = r" by auto
  with r m(2) show ?thesis by auto
qed

text \<open>Every row of the asset carries these labels.\<close>

definition labelled :: "((string \<times> string) \<times> element_cell) list \<Rightarrow> string \<Rightarrow> dict \<Rightarrow> bool" where
  "labelled cells a labels \<longleftrightarrow> (\<forall>p c. map_of cells (a, p) = Some c \<longrightarrow>
     ce_nation c = dget labels ''originator_nation'' \<and> ce_releasable c = dget labels ''releasable_to'')"

lemma labelled_written:
  assumes "distinct (map fst rows)" "st_stamped_labels st = Some old" "labelled cells a old"
  shows "labelled (written_cells ca a st prov labels rows cells) a labels"
  unfolding labelled_def
proof (intro allI impI, goal_cases)
  case (1 p c)
  then show ?case using assms(2,3)
    by (auto simp: map_of_written_cells [OF assms(1)] labelled_def call_restamp_def relabel_def
        split: option.splits if_splits)
qed

text \<open>
  C15. Labels follow the label record. If the rows of an asset carry the labels last stamped (or, on the
  first envelope after a start, the record's current ones), then after a written call every row of
  the asset, also the ones the call did not change, carries the labels its record holds
  now, even when they changed since; the rows of other assets are not touched. But on a first
  envelope nothing older is relabelled: each row is either written now, with the record's labels, or
  left as it was.
\<close>

theorem labels_follow_record:
  assumes call: "handle_asset_element_telemetry ca config key decoded w = (Inr ElWritten, w')"
    and msg: "py_or (dget decoded ''asset_id'') (PStr key) = PStr a" "fetch_asset_labels a (ew_tables w) = Inr (Some labels)"
  shows "((case st_stamped_labels (held_state a w) of Some old \<Rightarrow> labelled (ew_cells w) a old | None \<Rightarrow> labelled (ew_cells w) a labels)
      \<longrightarrow> labelled (ew_cells w') a labels)
    \<and> (\<forall>b p. b \<noteq> a \<longrightarrow> map_of (ew_cells w') (b, p) = map_of (ew_cells w) (b, p))
    \<and> (\<forall>p. st_stamped_labels (held_state a w) = None \<longrightarrow> map_of (ew_cells w') (a, p) = map_of (ew_cells w) (a, p)
         \<or> (\<exists>c. map_of (ew_cells w') (a, p) = Some c \<and> ce_updated_at c = ca_now_stamp ca
              \<and> ce_nation c = dget labels ''originator_nation'' \<and> ce_releasable c = dget labels ''releasable_to''))"
proof -
  let ?st = "first_labels (Some labels) (held_state a w)"
  from call obtain cfg els t rows cs u prov where
    d: "diff_snapshot (e_repr (ca_env ca)) cfg (st_elements (held_state a w)) els t = Inr (rows, cs, u)" "labels \<noteq> []"
    "ew_cells w' = written_cells ca a ?st prov labels rows (ew_cells w)"
    by (cases rule: handle_done) (use msg in auto)
  note m = map_of_written_cells [OF distinct_diff [OF d(1)]]
  have st: "st_stamped_labels ?st = (case st_stamped_labels (held_state a w) of None \<Rightarrow> Some labels | Some l \<Rightarrow> Some l)"
    using d(2) by (simp add: first_labels_def split: option.split)
  have "(case st_stamped_labels (held_state a w) of Some old \<Rightarrow> labelled (ew_cells w) a old | None \<Rightarrow> labelled (ew_cells w) a labels)
      \<Longrightarrow> labelled (ew_cells w') a labels"
    unfolding d(3) using st
    by (cases "st_stamped_labels (held_state a w)") (auto intro: labelled_written [OF distinct_diff [OF d(1)]])
  moreover have "st_stamped_labels (held_state a w) = None \<Longrightarrow> call_restamp labels ?st = None"
    using st by (simp add: call_restamp_def)
  ultimately show ?thesis by (auto simp: d(3) m split: option.splits)
qed

section \<open>A failed call can be repeated\<close>

text \<open>Equal but for the counters and log lines.\<close>

definition alike :: "element_world \<Rightarrow> element_world \<Rightarrow> bool" where
  "alike w v \<longleftrightarrow> ew_assets v = ew_assets w \<and> ew_cells v = ew_cells w \<and> ew_tables v = ew_tables w"

lemma alike_tx:
  assumes "alike w v"
  shows "fst (write_element_state schema tx a aw rows restamp v) = fst (write_element_state schema tx a aw rows restamp w)
    \<and> alike (snd (write_element_state schema tx a aw rows restamp w)) (snd (write_element_state schema tx a aw rows restamp v))"
proof -
  have "(\<exists>e. element_tx schema a aw rows restamp w = Inl e \<and> element_tx schema a aw rows restamp v = Inl e)
    \<or> (\<exists>w' v'. element_tx schema a aw rows restamp w = Inr w' \<and> element_tx schema a aw rows restamp v = Inr v' \<and> alike w' v')"
    using assms
    by (cases aw; cases "run_write (schema (w_table (the aw))) (the aw) (ew_tables w (w_table (the aw)))")
      (auto simp: element_tx_def alike_def cong: option.case_cong)
  then show ?thesis using assms by (auto simp: write_element_state_def)
qed

lemma alike_write_asset:
  assumes "alike w v"
  shows "fst (write_asset ca cfg a decoded st prov l t d v) = fst (write_asset ca cfg a decoded st prov l t d w)
    \<and> alike (snd (write_asset ca cfg a decoded st prov l t d w)) (snd (write_asset ca cfg a decoded st prov l t d v))"
proof -
  obtain rows cs u where d: "d = (rows, cs, u)" by (cases d)
  let ?labels = "case l of None \<Rightarrow> [] | Some l \<Rightarrow> l"
  from alike_tx [OF assms, of "ca_schema ca" "ca_tx ca" a "call_write ca cfg a decoded st prov ?labels t"
      "full_rows (ca_now_stamp ca) ?labels prov rows" "call_restamp ?labels st"]
  show ?thesis using assms
    by (auto simp: write_asset_def d Let_def split_def alike_def set_asset_def split: sum.split)
qed

lemma dset_dset: "dset (dset d k x) k y = dset d k y"
  by (induction d k x rule: dset.induct) auto

lemma first_labels_again: "first_labels l (first_labels l st) = first_labels l st"
  by (simp add: first_labels_def split: option.split)

text \<open>A call that gets through does so from any memory that holds the asset with or without the first stamp.\<close>

lemma element_asset_again:
  assumes "element_asset ca cfg a decoded els st w = (Inr ans, w1)"
    and "ew_cells v = ew_cells w" "ew_tables v = ew_tables w" "\<And>x. dset (ew_assets v) a x = dset (ew_assets w) a x"
    and "st' = st \<or> (\<exists>l. fetch_asset_labels a (ew_tables w) = Inr l \<and> st' = first_labels l st)"
  shows "\<exists>v1. element_asset ca cfg a decoded els st' v = (Inr ans, v1) \<and> alike w1 v1"
proof -
  let ?t = "observed_at_from_ns (ca_now_observed ca) (dget decoded ''observed_at_ns'')"
  have el: "st_elements (first_labels l st) = st_elements st" for l by (simp add: first_labels_def split: option.split)
  from assms(1) obtain prov l where pl: "resolve_origin_or_derive (ca_env ca) PNone (PStr a) None None = Inr prov"
    "ca_fetch_labels ca = None" "fetch_asset_labels a (ew_tables w) = Inr l"
    by (cases "resolve_origin_or_derive (ca_env ca) PNone (PStr a) None None"; cases "ca_fetch_labels ca";
        cases "fetch_asset_labels a (ew_tables w)") (simp_all add: element_asset_def)
  then have st': "first_labels l st' = first_labels l st" using assms(5) first_labels_again by auto
  from assms(1) pl obtain d where d: "diff_snapshot (e_repr (ca_env ca)) cfg (st_elements st) els ?t = Inr d"
    by (auto simp: element_asset_def Let_def el split: sum.splits)
  let ?u = "note_undeclared (snd (snd d))"
  have w: "element_asset ca cfg a decoded els st w = write_asset ca cfg a decoded (first_labels l st) prov l ?t d
      (?u (set_asset a (first_labels l st) w))"
    using pl d by (simp add: element_asset_def Let_def el)
  have v: "element_asset ca cfg a decoded els st' v = write_asset ca cfg a decoded (first_labels l st) prov l ?t d
      (?u (set_asset a (first_labels l st) v))"
    using pl d assms(3) st' by (simp add: element_asset_def Let_def el)
  have "alike (?u (set_asset a (first_labels l st) w)) (?u (set_asset a (first_labels l st) v))"
    using assms(2-4) by (simp add: alike_def note_undeclared_keeps set_asset_def)
  from alike_write_asset [OF this, of ca cfg a decoded "first_labels l st" prov l ?t d] assms(1)
  show ?thesis unfolding w v by (metis fst_conv snd_conv prod.collapse)
qed

text \<open>A call that raised wrote nothing; what it holds of the asset is at most its labels.\<close>

lemma raised_call:
  assumes "element_asset ca cfg a decoded els st w0 = (Inl e, w')" "ca_tx ca \<noteq> LostAfter"
  obtains st' where "st' = st \<or> (\<exists>l. fetch_asset_labels a (ew_tables w0) = Inr l \<and> st' = first_labels l st)"
    "ew_cells w' = ew_cells w0" "ew_tables w' = ew_tables w0" "ew_assets w' = ew_assets w0 \<or> ew_assets w' = dset (ew_assets w0) a st'"
  using assms(1)
proof (cases rule: element_asset_cases)
  case (raised e' st')
  then show ?thesis by (intro that [of st']) auto
next
  case (diffed prov l t rows cs u w1)
  have lab: "\<forall>k. l = Some k \<longrightarrow> k = [] \<or> map fst k = [''originator_nation'', ''releasable_to'']"
    using fetched_labels [OF diffed(2)] by blast
  from diffed(7) resolve_origin_columns [OF diffed(1)] lab have "w' = w1"
    by (cases rule: write_asset_cases) (use assms(2) in auto)
  with diffed show ?thesis by (intro that [of "first_labels l st"]) auto
qed

text \<open>
  C14. A failed call leaves nothing behind and can be repeated. When a call raises and its
  transaction did not commit, neither table has changed; and whatever any later call of the same
  message would have done to memory and store had the failed one not happened, it does the same after it.
\<close>

theorem failed_call_repeats:
  assumes failed: "handle_asset_element_telemetry ca config key decoded w = (Inl e, w')" "ca_tx ca \<noteq> LostAfter"
  shows "ew_cells w' = ew_cells w \<and> ew_tables w' = ew_tables w
    \<and> (\<forall>ca' ans w1. handle_asset_element_telemetry ca' config key decoded w = (Inr ans, w1) \<longrightarrow>
         (\<exists>w2. handle_asset_element_telemetry ca' config key decoded w' = (Inr ans, w2) \<and> alike w1 w2))"
  using failed(1)
proof (cases rule: handle_cases)
  case none
  then show ?thesis by (auto simp: alike_def)
next
  case (asset cfg a els w0)
  let ?st = "held_state a w"
  from raised_call [OF asset(8) failed(2)] asset(5,6) obtain st' where
    st': "st' = ?st \<or> (\<exists>l. fetch_asset_labels a (ew_tables w) = Inr l \<and> st' = first_labels l ?st)"
    and w': "ew_cells w' = ew_cells w" "ew_tables w' = ew_tables w"
      "ew_assets w' = ew_assets w0 \<or> ew_assets w' = dset (ew_assets w0) a st'"
    by metis
  have held: "map_of (ew_assets w) a = None \<or> map_of (ew_assets w) a = Some ?st"
    by (simp add: held_state_def split: option.split)
  have assets: "ew_assets w' = ew_assets w \<or> (\<exists>s \<in> {?st, st'}. ew_assets w' = dset (ew_assets w) a s)"
    using w'(3) asset(7) by (auto simp: dset_dset)
  then have same: "\<And>x. dset (ew_assets w') a x = dset (ew_assets w) a x" by (auto simp: dset_dset)
  have fetch: "held_state a w' = (case map_of (ew_assets w') a of None \<Rightarrow> (case map_of (ew_assets w) a of None \<Rightarrow> ?st | Some _ \<Rightarrow> held_state a w') | Some s \<Rightarrow> s)"
    using w'(1) by (simp add: held_state_def fetch_element_state_def split: option.split)
  have again: "\<exists>w2. handle_asset_element_telemetry ca' config key decoded w' = (Inr ans, w2) \<and> alike w1 w2"
    if h: "handle_asset_element_telemetry ca' config key decoded w = (Inr ans, w1)" for ca' ans w1
  proof -
    note eq = handle_asset_eq [OF asset(1-4), of ca']
    from h obtain wx where x: "element_asset ca' cfg a decoded els ?st wx = (Inr ans, w1)"
      "wx = w \<or> (wx = set_asset a ?st w)" "map_of (ew_assets w) a = None \<longrightarrow> ca_fetch_elements ca' = None"
      unfolding eq [of w] using held by (auto split: option.splits)
    obtain s v where v: "handle_asset_element_telemetry ca' config key decoded w' = element_asset ca' cfg a decoded els s v"
      "s = ?st \<or> s = st'" "v = w' \<or> (v = set_asset a ?st w')"
      unfolding eq [of w'] using assets held x(3) fetch by (auto simp: map_of_dset)
    have "\<exists>v1. element_asset ca' cfg a decoded els s v = (Inr ans, v1) \<and> alike w1 v1"
      by (rule element_asset_again [OF x(1)]) (use v(2,3) x(2) st' w'(1,2) same in \<open>auto simp: set_asset_def dset_dset\<close>)
    then show ?thesis by (simp add: v(1))
  qed
  with w'(1,2) show ?thesis by blast
qed

end
