(* ===== verification/Projector.thy ===== *)
theory Projector
  imports Startup Asset_Life Engagement Element_Store
begin

text \<open>
  The running process: \<open>main.main()\<close> as one system over its store. A start reads the configuration and
  brings up the workers and loops of \<open>Startup\<close>; then messages, sweeps, prune passes, SIGHUP and the stop signal
  come in any order, and the next start finds the store but not the memory. Each event is one message through
  \<open>ConsumerWorker._persist\<close>, or one turn of a loop, at whatever clock readings and with whatever answers of the
  store; the workers and loops interleave between events. The two monitors write tables of their own
  (\<open>Edge_Buffer\<close>, \<open>Link_Monitor\<close>) and the lag loop none, so they are no events here.
\<close>

section \<open>One message\<close>

text \<open>
  \<open>await self._handler(key, decoded, self._pool)\<close>: a handler that answers with a write does not take the pool.
\<close>

definition call_custom ::
  "element_config option \<Rightarrow> tier \<Rightarrow> element_call \<Rightarrow> registered \<Rightarrow> string \<Rightarrow> dict \<Rightarrow> element_world \<Rightarrow> exc option \<times> element_world" where
  "call_custom el ti ca h key decoded w =
     (case h of
        Returns _ \<Rightarrow> (Some TypeError, w)
      | Owns_Io n \<Rightarrow>
          (if n = element_telemetry then
             (case handle_asset_element_telemetry ca el key decoded w of
                (Inl e, w') \<Rightarrow> (Some e, w')
              | (Inr _, w') \<Rightarrow> (None, w'))
           else
             (case run_custom (if n = ''effector_launch'' then handle_effector_launch ti else handle_munition_track ti)
                     key decoded (ew_tables w) of
                (e, st) \<Rightarrow> (e, w\<lparr>ew_tables := st\<rparr>))))"

definition deliver ::
  "element_config option \<Rightarrow> tier \<Rightarrow> element_call \<Rightarrow> worker_setup \<Rightarrow> message \<Rightarrow> element_world
     \<Rightarrow> (persist_result \<times> element_world) res" where
  "deliver el ti ca ws m w =
     rbind (message_key m) (\<lambda>key.
     case ws_decode ws (msg_value m) of
       Inl e \<Rightarrow> (if e = DecodeError then Inr (Decode_Error, w) else Inl e)
     | Inr decoded \<Rightarrow>
         (if ws_mode ws = PStr ''custom'' then
            (case call_custom el ti ca (ws_handler ws) key decoded w of
               (None, w') \<Rightarrow> Inr (Handled, w')
             | (Some _, w') \<Rightarrow> Inr (Handler_Exception, w'))
          else
            (case ws_handler ws of
               Owns_Io _ \<Rightarrow> Inr (Handler_Exception, w)
             | Returns h \<Rightarrow>
                 (case h (ti_env ti) key decoded of
                    Inl _ \<Rightarrow> Inr (Handler_Exception, w)
                  | Inr (Wrote wr) \<Rightarrow>
                      (case store_write (ti_accepts ti) (ti_schema ti) wr (ew_tables w) of
                         Inl e \<Rightarrow> (if e = PostgresWriteError then Inr (Write_Refused, w) else Inl e)
                       | Inr (n, st) \<Rightarrow>
                           Inr (if w_mode wr = ''update'' \<and> n = 0 then Unknown_Dropped else Upserted, w\<lparr>ew_tables := st\<rparr>))
                  | Inr _ \<Rightarrow> Inr (Skipped_Message, w)))))"

section \<open>The process\<close>

text \<open>\<open>pc_ended\<close>: the workers whose task an exception has ended; \<open>main()\<close> starts none again.\<close>

record process =
  pc_running :: "running option"
  pc_ended :: "nat list"
  pc_declared :: "declared_row list"
  pc_world :: element_world

text \<open>A message names its worker by its place; a prune turn brings, per target, its clock and whether the store answers.\<close>

datatype process_event =
    Started startup_env
  | Received nat message tier element_call
  | Reporting_Turn rat int
  | Effector_Turn rat int
  | Track_Turn rat bool int bool int
  | Prune_Turn "py \<Rightarrow> string" "py \<Rightarrow> rat option" "(int \<times> bool) list"
  | Hangup config_env py
  | Stop_Signal

text \<open>What a new process does not know: the assets held, the layers logged, the counters.\<close>

definition forgotten :: "element_world \<Rightarrow> element_world" where
  "forgotten w = w\<lparr>ew_assets := [], ew_logged := [], ew_notes := []\<rparr>"

text \<open>\<open>_on_sighup\<close> reads the configuration and logs the topics added and removed (in some order); it changes nothing.\<close>

definition on_sighup :: "config \<Rightarrow> config_env \<Rightarrow> py \<Rightarrow> (py list \<times> py list) res" where
  "on_sighup cfg ce parsed =
     rbind (load_config ce parsed) (\<lambda>new.
       let old_topics = remdups (map mp_topic (cf_mappings cfg)); new_topics = remdups (map mp_topic (cf_mappings new)) in
       Inr (filter (\<lambda>t. t \<notin> set old_topics) new_topics, filter (\<lambda>t. t \<notin> set new_topics) old_topics))"

definition prune_turn ::
  "config \<Rightarrow> (py \<Rightarrow> string) \<Rightarrow> (py \<Rightarrow> rat option) \<Rightarrow> (int \<times> bool) list \<Rightarrow> element_world \<Rightarrow> element_world" where
  "prune_turn cfg repr hours_of answers w = prune_pass repr hours_of (zip answers (build_prune_targets (cf_mappings cfg))) w"

definition at_table :: "string \<Rightarrow> (table \<Rightarrow> table) \<Rightarrow> element_world \<Rightarrow> element_world" where
  "at_table t f w = w\<lparr>ew_tables := (ew_tables w)(t := f (ew_tables w t))\<rparr>"

fun work :: "running \<Rightarrow> process_event \<Rightarrow> element_world \<Rightarrow> element_world" where
  "work ru (Received n m ti ca) w =
     (if n < length (consumed (ru_tasks ru))
      then (case deliver (ru_element ru) ti ca (consumed (ru_tasks ru) ! n) m w of Inl _ \<Rightarrow> w | Inr (_, w') \<Rightarrow> w')
      else w)"
| "work ru (Reporting_Turn stale_after_s now) w =
     at_table lifecycle_table (\<lambda>t. fst (sweep_reporting_staleness stale_after_s now t)) w"
| "work ru (Effector_Turn timeout_s now) w =
     at_table ''effector_launch'' (\<lambda>t. fst (sweep_effector_timeouts timeout_s now t)) w"
| "work ru (Track_Turn silence_s ok1 now1 ok2 now2) w =
     w\<lparr>ew_tables := put_view (sweep_pass silence_s ok1 now1 ok2 now2 (munition_view (ew_tables w))) (ew_tables w)\<rparr>"
| "work ru (Prune_Turn repr hours_of answers) w = prune_turn (ru_config ru) repr hours_of answers w"
| "work ru _ w = w"

text \<open>An exception that escapes \<open>_persist\<close> ends the worker's task; from then on no message reaches that worker.\<close>

definition escapes :: "running \<Rightarrow> process_event \<Rightarrow> element_world \<Rightarrow> nat list" where
  "escapes ru e w =
     (case e of
        Received n m ti ca \<Rightarrow>
          (if n < length (consumed (ru_tasks ru))
           then (case deliver (ru_element ru) ti ca (consumed (ru_tasks ru) ! n) m w of Inl _ \<Rightarrow> [n] | Inr _ \<Rightarrow> [])
           else [])
      | _ \<Rightarrow> [])"

definition unheard :: "process_event \<Rightarrow> process \<Rightarrow> bool" where
  "unheard e p \<longleftrightarrow> (case e of Received n _ _ _ \<Rightarrow> n \<in> set (pc_ended p) | _ \<Rightarrow> False)"

text \<open>A start that gives up leaves no process; without one, nothing happens.\<close>

fun run_event :: "process_event \<Rightarrow> process \<Rightarrow> process" where
  "run_event (Started su) p =
     (case start_up su (pc_declared p) of (st, rows) \<Rightarrow>
        \<lparr>pc_running = (case st of Running ru \<Rightarrow> Some ru | _ \<Rightarrow> None), pc_ended = [], pc_declared = rows,
         pc_world = forgotten (pc_world p)\<rparr>)"
| "run_event Stop_Signal p = p\<lparr>pc_running := None\<rparr>"
| "run_event e p =
     (case pc_running p of
        None \<Rightarrow> p
      | Some ru \<Rightarrow>
          (if unheard e p then p
           else p\<lparr>pc_world := work ru e (pc_world p), pc_ended := escapes ru e (pc_world p) @ pc_ended p\<rparr>))"

definition run_process :: "process_event list \<Rightarrow> process \<Rightarrow> process" where
  "run_process es p = fold run_event es p"

text \<open>A worker of a handler that answers with a write is the worker of \<open>Consumer\<close>.\<close>

lemma deliver_persist:
  assumes "ws_handler ws = Returns h" "ws_mode ws = PStr mode" "mode \<noteq> ''custom''"
  shows "deliver el ti ca ws m w
    = rbind (persist \<lparr>wk_mode = mode, wk_decode = ws_decode ws, wk_handler = h, wk_custom = c\<rparr>
        (ti_env ti) (ti_accepts ti) (ti_schema ti) m (ew_tables w)) (\<lambda>(x, st). Inr (x, w\<lparr>ew_tables := st\<rparr>))"
  using assms
  by (cases "message_key m") (auto simp: deliver_def persist_def res_simps split: sum.split answer.split prod.split)

section \<open>What each part leaves alone\<close>

text \<open>\<open>untouched ts P\<close>: \<open>P\<close> survives whatever is written to the tables \<open>ts\<close>.\<close>

definition untouched :: "string set \<Rightarrow> (store \<Rightarrow> bool) \<Rightarrow> bool" where
  "untouched ts P \<longleftrightarrow> (\<forall>st t x. t \<in> ts \<and> P st \<longrightarrow> P (st(t := x)))"

definition engagement_tables :: "string set" where
  "engagement_tables = {''effector_launch'', ''munition_track'', ''effector_resupply''}"

lemma untouchedD: "untouched ts P \<Longrightarrow> t \<in> ts \<Longrightarrow> P st \<Longrightarrow> P (st(t := x))"
  by (simp add: untouched_def)

lemma untouched_table: "t \<notin> ts \<Longrightarrow> untouched ts (\<lambda>st. st t = T)"
  unfolding untouched_def by (metis fun_upd_other)

lemma store_write_table: "store_write accepts schema w st = Inr (n, st') \<Longrightarrow> \<exists>t. st' = st(w_table w := t)"
  by (auto simp: store_write_def res_simps split: if_splits)

lemma put_view_untouched: "untouched engagement_tables P \<Longrightarrow> P st \<Longrightarrow> P (put_view v st)"
  unfolding put_view_def untouched_def by (simp add: engagement_tables_def)

lemma pool_execute_untouched:
  assumes "untouched ts P" "w_table w \<in> ts"
  shows "keeps P (pool_execute ti w)"
  unfolding pool_execute_def
  by (rule keeps_try) (use store_write_table untouchedD [OF assms] in blast)

lemma fire_untouched: "untouched engagement_tables P \<Longrightarrow> keeps P (handle_fire ti m)"
proof -
  assume P: "untouched engagement_tables P"
  have "keeps P (join_from_row ti row)" for row
    unfolding join_from_row_def
    by (rule keeps_update) (simp add: split_def Let_def untouchedD [OF P] engagement_tables_def)
  then show ?thesis
    unfolding handle_fire_def
    by (intro keeps_intros pool_execute_untouched [OF P]) (simp_all add: launch_write_def engagement_tables_def)
qed

lemma detonation_untouched: "untouched engagement_tables P \<Longrightarrow> keeps P (handle_detonation ti m)"
proof -
  assume P: "untouched engagement_tables P"
  have "keeps P (apply_detonation e d)" "keeps P (terminate_track u e d)" for e d u
    unfolding apply_detonation_def terminate_track_def
    by (rule keeps_update; simp add: split_def Let_def untouchedD [OF P] put_view_untouched [OF P] engagement_tables_def)+
  then show ?thesis
    unfolding handle_detonation_def Let_def by (intro keeps_intros note_outcome_keeps)
qed

lemma supply_totals_keeps: "keeps P (supply_totals lines acc)"
  by (induction lines acc rule: supply_totals.induct) (auto intro!: keeps_intros split: option.split)

lemma resupply_untouched: "untouched engagement_tables P \<Longrightarrow> keeps P (handle_resupply ti m)"
proof -
  assume P: "untouched engagement_tables P"
  have "keeps P (write_supplies ti m t acc)" for t acc
    by (induction ti m t acc rule: write_supplies.induct)
      (auto intro!: keeps_intros pool_execute_untouched [OF P] simp: resupply_write_def engagement_tables_def)
  then show ?thesis
    unfolding handle_resupply_def
    by (intro keeps_intros) (auto intro!: keeps_intros supply_totals_keeps split: py.split)
qed

lemma effector_untouched: "untouched engagement_tables P \<Longrightarrow> keeps P (handle_effector_launch ti key m)"
  unfolding handle_effector_launch_def Let_def
  by (intro keeps_intros fire_untouched detonation_untouched resupply_untouched)

lemma track_untouched: "untouched engagement_tables P \<Longrightarrow> keeps P (handle_munition_track ti key m)"
proof -
  assume P: "untouched engagement_tables P"
  have refuse: "keeps P (refuse_track r)" for r
    unfolding refuse_track_def by (intro keeps_intros)
  have ends: "keeps P (if j then io_note n else io_return u)" for j n u
    by (intro keeps_intros)
  have put: "keeps P (io_try_update (\<lambda>st. rbind (f st) (\<lambda>(x, v). Inr (x, put_view v st))))" for f :: "store \<Rightarrow> ('x \<times> munition_store) res"
    by (rule keeps_try) (auto simp: res_simps put_view_untouched [OF P])
  show ?thesis
    unfolding handle_munition_track_def Let_def
    by (intro keeps_if keeps_lift refuse)
      (auto intro!: keeps_lift keeps_bind put ends keeps_ends refuse split: option.split py.split)
qed

text \<open>An element call writes one table beside its own.\<close>

lemma call_world_tables:
  assumes "t \<noteq> ''asset_element_telemetry''"
  shows "ew_tables (call_world ca cfg a decoded st prov labels obs rows w) t = ew_tables w t"
  using assms
  by (auto simp: call_world_def committed_def call_write_def asset_row_write_def put_store_def split: option.split)

lemma element_call_tables:
  assumes "handle_asset_element_telemetry ca el key decoded w = (r, w')" "t \<noteq> ''asset_element_telemetry''"
  shows "ew_tables w' t = ew_tables w t"
  using assms(1)
proof (cases rule: handle_cases)
  case (asset cfg a els w0)
  from asset(8) show ?thesis
  proof (cases rule: element_asset_cases)
    case (diffed prov l obs rows cs u w1)
    have lab: "\<forall>k. l = Some k \<longrightarrow> k = [] \<or> map fst k = [''originator_nation'', ''releasable_to'']"
      using fetched_labels [OF diffed(2)] by blast
    from diffed(7) resolve_origin_columns [OF diffed(1)] lab show ?thesis
      by (cases rule: write_asset_cases)
        (use diffed(5) asset(6) call_world_tables [OF assms(2)] in \<open>simp_all add: note_element_def set_asset_def\<close>)
  qed (use asset(6) in simp)
qed simp

section \<open>The registered handlers\<close>

definition known_worker :: "worker_setup \<Rightarrow> bool" where
  "known_worker ws \<longleftrightarrow> (\<exists>name. get_handler name = Inr (ws_handler ws))"

lemma writes_table: "writes (contract t m ks) a \<Longrightarrow> a = Inr (Wrote w) \<Longrightarrow> w_table w = t"
  by (simp add: writes_def contract_def)

lemma telemetry_message:
  assumes "handle_telemetry_latest env key d = Inr (Wrote w)"
  shows "w_table w = lifecycle_table"
    "\<exists>claim field. telemetry_claim (or_empty (dget d ''operational_state'')) (or_empty (dget d ''provenance'')) = Inr (claim, field)"
proof -
  have "status_only_shape env key d w \<or> full_shape env key d w"
    using telemetry_shapes [of env key d] assms by (simp add: writes_def)
  then show "w_table w = lifecycle_table"
    "\<exists>claim field. telemetry_claim (or_empty (dget d ''operational_state'')) (or_empty (dget d ''provenance'')) = Inr (claim, field)"
    by (auto simp: status_only_shape_def full_shape_def status_only_fields full_fields lifecycle_table_def telemetry_claim_def)
qed

lemma registered_table:
  assumes "get_handler name = Inr (Returns h)" "h env key d = Inr (Wrote w)"
  shows "h = handle_telemetry_latest \<or> w_table w \<notin> insert lifecycle_table engagement_tables"
proof -
  from assms(1) have "(name, Returns h) \<in> set handler_registry"
    by (auto simp: get_handler_def split: option.splits dest: map_of_SomeD)
  then have "h \<in> {handle_cm_state, handle_logistics_status, handle_telemetry_latest, handle_tactical_events,
      handle_telemetry_windows, handle_region_fleet_summary, handle_region_top_factors, handle_region_wear_trends,
      handle_capability_state, handle_asset_element_inventory, handle_parts_availability,
      handle_asset_declaration, handle_asset_correlation, handle_asset_fielding}"
    by (auto simp: handler_registry_def)
  with assms(2) show ?thesis
    by (elim insertE emptyE)
      (auto simp: lifecycle_table_def engagement_tables_def dest: writes_table [OF handler_contracts(1)] writes_table [OF handler_contracts(2)]
        writes_table [OF handler_contracts(3)] writes_table [OF handler_contracts(4)] writes_table [OF handler_contracts(5)]
        writes_table [OF handler_contracts(6)] writes_table [OF handler_contracts(7)] writes_table [OF handler_contracts(8)]
        writes_table [OF handler_contracts(9)] writes_table [OF handler_contracts(10)] writes_table [OF handler_contracts(11)]
        writes_table [OF handler_contracts(12)] writes_table [OF handler_contracts(13)])
qed

end
