(* ===== verification/Process_Life.thy ===== *)
theory Process_Life
  imports Projector
begin

text \<open>
  What the running process of \<open>Projector\<close> keeps through any history: the invariant that joins those of the
  engagement tables, the lifecycle table, the element memory and the declared loads; and that the
  rows of the lifecycle table follow the machine of \<open>Asset_Life\<close>, step by step.
\<close>

section \<open>The life of the assets' rows\<close>

text \<open>The steps of \<open>Asset_Life\<close> that an event of the process stands for, the last first.\<close>

definition message_life :: "tier \<Rightarrow> worker_setup \<Rightarrow> message \<Rightarrow> life_event list" where
  "message_life ti ws m =
     (case (message_key m, ws_decode ws (msg_value m), ws_handler ws) of
        (Inr key, Inr decoded, Returns h) \<Rightarrow>
          (if ws_mode ws = PStr ''custom'' then []
           else (case h (ti_env ti) key decoded of
               Inr (Wrote wr) \<Rightarrow>
                 (if w_table wr \<noteq> lifecycle_table \<or> \<not> ti_accepts ti wr then []
                  else (case telemetry_claim (or_empty (dget decoded ''operational_state''))
                               (or_empty (dget decoded ''provenance'')) of
                      Inl _ \<Rightarrow> []
                    | Inr (claim, _) \<Rightarrow> [Message claim (truthy (dget decoded ''kinematics'')) (write_key wr)]))
             | _ \<Rightarrow> []))
      | _ \<Rightarrow> [])"

definition prunes_assets :: "(py \<Rightarrow> string) \<Rightarrow> (py \<Rightarrow> rat option) \<Rightarrow> (int \<times> bool) \<times> prune_target \<Rightarrow> bool" where
  "prunes_assets repr hours_of st =
     (case st of ((now, ok), (table, column, hours, keyed)) \<Rightarrow>
       ok \<and> table \<notin> PStr ` set (map fst parent_owned_prune) \<and> hours_of hours \<noteq> None \<and> py_str repr table = lifecycle_table)"

definition prune_life ::
  "config \<Rightarrow> (py \<Rightarrow> string) \<Rightarrow> (py \<Rightarrow> rat option) \<Rightarrow> (int \<times> bool) list \<Rightarrow> life_event list" where
  "prune_life cfg repr hours_of answers =
     replicate (length (filter (prunes_assets repr hours_of) (zip answers (build_prune_targets (cf_mappings cfg))))) Pruned"

fun work_life :: "running \<Rightarrow> process_event \<Rightarrow> life_event list" where
  "work_life ru (Received n m ti ca) =
     (if n < length (consumed (ru_tasks ru)) then message_life ti (consumed (ru_tasks ru) ! n) m else [])"
| "work_life ru (Reporting_Turn _ _) = [Stale_Sweep]"
| "work_life ru (Prune_Turn repr hours_of answers) = prune_life (ru_config ru) repr hours_of answers"
| "work_life ru _ = []"

definition event_life :: "process_event \<Rightarrow> process \<Rightarrow> life_event list" where
  "event_life e p = (case pc_running p of None \<Rightarrow> [] | Some ru \<Rightarrow> (if unheard e p then [] else work_life ru e))"

fun process_life :: "process_event list \<Rightarrow> process \<Rightarrow> life_event list" where
  "process_life [] p = []"
| "process_life (e # es) p = process_life es (run_event e p) @ event_life e p"

abbreviation assets_of :: "element_world \<Rightarrow> table" where
  "assets_of w \<equiv> ew_tables w lifecycle_table"

lemma life_append: "life dflt t1 ys t2 \<Longrightarrow> life dflt t xs t1 \<Longrightarrow> life dflt t (ys @ xs) t2"
  by (induction rule: life.induct) (auto intro: life.intros)

lemma life_once: "life_step dflt e t t' \<Longrightarrow> life dflt t [e] t'"
  using life.Step [OF life.Start] .

text \<open>What a custom handler does, and then what a message does.\<close>

lemma call_custom_cases:
  assumes "call_custom el ti ca h key decoded w = (r, w')"
  obtains (none) "w' = w"
  | (element) a where "handle_asset_element_telemetry ca el key decoded w = (a, w')"
  | (engagement) f where "f = handle_effector_launch ti \<or> f = handle_munition_track ti"
      "w' = w\<lparr>ew_tables := snd (run_custom f key decoded (ew_tables w))\<rparr>"
proof (cases h)
  case (Returns g)
  with assms show ?thesis by (intro none) (simp add: call_custom_def)
next
  case (Owns_Io n)
  show ?thesis
  proof (cases "n = element_telemetry")
    case True
    with assms Owns_Io show ?thesis
      by (intro element [of "fst (handle_asset_element_telemetry ca el key decoded w)"])
        (auto simp: call_custom_def split: prod.splits sum.splits)
  next
    case False
    let ?f = "if n = ''effector_launch'' then handle_effector_launch ti else handle_munition_track ti"
    have "w' = w\<lparr>ew_tables := snd (run_custom ?f key decoded (ew_tables w))\<rparr>"
      using assms Owns_Io False by (auto simp: call_custom_def split: prod.splits)
    then show ?thesis by (intro engagement [of ?f]) auto
  qed
qed

lemma custom_assets:
  assumes "call_custom el ti ca h key decoded w = (r, w')"
  shows "assets_of w' = assets_of w"
  using assms
proof (cases rule: call_custom_cases)
  case (element a)
  from element_call_tables [OF this, of lifecycle_table] show ?thesis by (simp add: lifecycle_table_def)
next
  case (engagement f)
  let ?P = "\<lambda>st. st lifecycle_table = ew_tables w lifecycle_table"
  have P: "untouched engagement_tables ?P"
    by (rule untouched_table) (simp add: lifecycle_table_def engagement_tables_def)
  have "keeps ?P (f k d)" for k d
    using engagement(1) effector_untouched [OF P] track_untouched [OF P] by blast
  from run_custom_keeps [of ?P f "ew_tables w" key decoded, OF this] engagement(2) show ?thesis by simp
qed simp

lemma custom_engaged:
  assumes "call_custom el ti ca h key decoded w = (r, w')" "tier_ok ti" "engaged (ew_tables w)"
  shows "engaged (ew_tables w')"
  using assms(1)
proof (cases rule: call_custom_cases)
  case (element a)
  from element_call_tables [OF this] assms(3) show ?thesis by (simp add: munition_view_def)
next
  case (engagement f)
  have "keeps engaged (f k d)" for k d
    using engagement(1) effector_keeps [OF assms(2)] track_keeps [OF assms(2)] by blast
  from run_custom_keeps [of engaged f "ew_tables w" key decoded, OF this] engagement(2) assms(3) show ?thesis by simp
qed (use assms(3) in simp)

text \<open>The asset a message puts in doubt: that of an element call whose commit is not acknowledged.\<close>

definition takes_elements :: "worker_setup \<Rightarrow> bool" where
  "takes_elements ws \<longleftrightarrow> ws_mode ws = PStr ''custom''
     \<and> (case ws_handler ws of Owns_Io n \<Rightarrow> n = element_telemetry | Returns _ \<Rightarrow> False)"

definition message_doubt :: "worker_setup \<Rightarrow> message \<Rightarrow> element_call \<Rightarrow> string set" where
  "message_doubt ws m ca =
     (if \<not> takes_elements ws then {}
      else case (message_key m, ws_decode ws (msg_value m)) of
          (Inr key, Inr decoded) \<Rightarrow> doubted ca key decoded
        | _ \<Rightarrow> {})"

lemma custom_coherent:
  assumes "call_custom el ti ca h key decoded w = (r, w')" "coherent_but D w"
  shows "coherent_but (if h = Owns_Io element_telemetry then D \<union> doubted ca key decoded else D) w'"
proof (cases "h = Owns_Io element_telemetry")
  case True
  with assms(1) have "w' = snd (handle_asset_element_telemetry ca el key decoded w)"
    by (auto simp: call_custom_def split: prod.splits sum.splits)
  with element_call_coherent [OF assms(2), of ca key decoded el] True show ?thesis by simp
next
  case False
  with assms(1) have "ew_cells w' = ew_cells w \<and> ew_assets w' = ew_assets w"
    by (cases h) (auto simp: call_custom_def split: prod.splits if_splits)
  with False coherent_same [OF assms(2), of w'] show ?thesis by simp
qed

lemma deliver_cases:
  assumes "deliver el ti ca ws m w = Inr (r, w')" "known_worker ws"
  obtains (same) "w' = w" "message_life ti ws m = []"
  | (custom) key decoded x where "call_custom el ti ca (ws_handler ws) key decoded w = (x, w')" "message_life ti ws m = []"
  | (wrote) h key decoded wr n st where "ws_handler ws = Returns h" "message_key m = Inr key"
      "ws_decode ws (msg_value m) = Inr decoded" "ws_mode ws \<noteq> PStr ''custom''"
      "h (ti_env ti) key decoded = Inr (Wrote wr)"
      "store_write (ti_accepts ti) (ti_schema ti) wr (ew_tables w) = Inr (n, st)" "w' = w\<lparr>ew_tables := st\<rparr>"
proof (cases "message_key m")
  case (Inr key)
  show ?thesis
  proof (cases "ws_decode ws (msg_value m)")
    case (Inl e)
    with assms Inr show ?thesis by (intro same) (auto simp: deliver_def message_life_def split: if_splits)
  next
    case D: (Inr decoded)
    show ?thesis
    proof (cases "ws_mode ws = PStr ''custom''")
      case True
      with assms Inr D show ?thesis
        by (cases "call_custom el ti ca (ws_handler ws) key decoded w")
          (intro custom, auto simp: deliver_def message_life_def split: option.splits registered.split)
    next
      case False
      show ?thesis
      proof (cases "ws_handler ws")
        case H: (Returns h)
        show ?thesis
        proof (cases "\<exists>wr n st. h (ti_env ti) key decoded = Inr (Wrote wr)
            \<and> store_write (ti_accepts ti) (ti_schema ti) wr (ew_tables w) = Inr (n, st)")
          case True
          then obtain wr n st where x: "h (ti_env ti) key decoded = Inr (Wrote wr)"
            "store_write (ti_accepts ti) (ti_schema ti) wr (ew_tables w) = Inr (n, st)" by blast
          with assms Inr D H False have "w' = w\<lparr>ew_tables := st\<rparr>" by (simp add: deliver_def)
          then show ?thesis by (rule wrote [OF H Inr D False x])
        next
          case N: False
          from assms Inr D H False N have "w' = w"
            by (auto simp: deliver_def split: sum.splits answer.splits if_splits)
          moreover have "message_life ti ws m = []" 
          proof (cases "h (ti_env ti) key decoded")
            case A: (Inr a)
            have "\<not> ti_accepts ti wr" if "a = Wrote wr" for wr
              using N A that assms(2) H registered_wf store_write_wf by (fastforce simp: known_worker_def)
            with Inr D H A show ?thesis by (cases a) (auto simp: message_life_def)
          qed (use Inr D H in \<open>simp add: message_life_def\<close>)
          ultimately show ?thesis by (rule same)
        qed
      qed (use assms Inr D False in \<open>intro same, auto simp: deliver_def message_life_def\<close>)
    qed
  qed
qed (use assms in \<open>simp add: deliver_def\<close>)

lemma deliver_engaged:
  assumes "deliver el ti ca ws m w = Inr (r, w')" "known_worker ws" "tier_ok ti" "engaged (ew_tables w)"
  shows "engaged (ew_tables w')"
  using assms(1,2)
proof (cases rule: deliver_cases)
  case (custom key decoded x)
  from custom_engaged [OF this(1) assms(3,4)] show ?thesis .
next
  case (wrote h key decoded wr n st)
  from assms(2) wrote(1) obtain name where g: "get_handler name = Inr (Returns h)" by (auto simp: known_worker_def)
  have "w_table wr \<notin> engagement_tables"
    using registered_table [OF g wrote(5)] telemetry_message(1) wrote(5)
    by (auto simp: lifecycle_table_def engagement_tables_def)
  with store_write_elsewhere [OF wrote(6)] assms(4) wrote(7) show ?thesis by (simp add: engagement_tables_def)
qed (use assms(4) in simp)

lemma deliver_coherent:
  assumes "deliver el ti ca ws m w = Inr (r, w')" "coherent_but D w"
  shows "coherent_but (D \<union> message_doubt ws m ca) w'"
proof -
  have same: "coherent_but (D \<union> message_doubt ws m ca) v" if "ew_cells v = ew_cells w" "ew_assets v = ew_assets w" for v
    using coherent_mono [OF coherent_same [OF assms(2) that]] by simp
  from assms(1) obtain key where key: "message_key m = Inr key" by (cases "message_key m") (auto simp: deliver_def)
  show ?thesis
  proof (cases "\<exists>decoded. ws_decode ws (msg_value m) = Inr decoded \<and> ws_mode ws = PStr ''custom''")
    case True
    then obtain decoded where d: "ws_decode ws (msg_value m) = Inr decoded" "ws_mode ws = PStr ''custom''" by blast
    with assms(1) key obtain x where c: "call_custom el ti ca (ws_handler ws) key decoded w = (x, w')"
      by (cases "call_custom el ti ca (ws_handler ws) key decoded w") (auto simp: deliver_def split: option.splits)
    have "takes_elements ws \<longleftrightarrow> ws_handler ws = Owns_Io element_telemetry"
      using d(2) by (simp add: takes_elements_def split: registered.split)
    with custom_coherent [OF c assms(2)] coherent_mono [of D w'] key d(1) show ?thesis
      by (auto simp: message_doubt_def split: if_splits)
  next
    case False
    with assms(1) key have "ew_cells w' = ew_cells w \<and> ew_assets w' = ew_assets w"
      by (auto simp: deliver_def split: sum.splits registered.splits answer.splits if_splits)
    with same show ?thesis by simp
  qed
qed

lemma deliver_life:
  assumes "deliver el ti ca ws m w = Inr (r, w')" "known_worker ws"
  shows "life (ti_schema ti lifecycle_table) (assets_of w) (message_life ti ws m) (assets_of w')"
  using assms
proof (cases rule: deliver_cases)
  case (custom key decoded x)
  with custom_assets [OF custom(1)] show ?thesis by (simp add: life.Start)
next
  case (wrote h key decoded wr n st)
  from assms(2) wrote(1) obtain name where g: "get_handler name = Inr (Returns h)" by (auto simp: known_worker_def)
  have wf: "wf_write wr" by (rule registered_wf [OF g wrote(5)])
  then have st: "ti_accepts ti wr" "st = put_store (ti_schema ti) wr (ew_tables w)"
    using wrote(6) by (auto simp: store_write_wf split: if_splits)
  show ?thesis
  proof (cases "w_table wr = lifecycle_table")
    case False
    with wrote st show ?thesis by (simp add: message_life_def put_store_def life.Start)
  next
    case True
    with registered_table [OF g wrote(5)] have h: "h = handle_telemetry_latest" by simp
    from telemetry_message(2) wrote(5) h obtain claim field where
      c: "telemetry_claim (or_empty (dget decoded ''operational_state'')) (or_empty (dget decoded ''provenance''))
        = Inr (claim, field)" by blast
    have "run_write (ti_schema ti lifecycle_table) wr (assets_of w) = Inr (assets_of w', write_count wr (assets_of w))"
      using True st(2) wrote(7) run_write_refines [OF wf] by (simp add: put_store_def)
    from life_once [OF life_step.Message [OF wrote(5) [unfolded h] c this]] True st(1) c wrote(1-5) show ?thesis
      by (simp add: message_life_def)
  qed
qed (simp add: life.Start)

lemma deliver_raised:
  assumes "deliver el ti ca ws m w = Inl e" "known_worker ws"
  shows "message_life ti ws m = []"
proof (rule ccontr)
  assume life: "message_life ti ws m \<noteq> []"
  then obtain key decoded h wr where m: "message_key m = Inr key" "ws_decode ws (msg_value m) = Inr decoded"
    "ws_handler ws = Returns h" "ws_mode ws \<noteq> PStr ''custom''" "h (ti_env ti) key decoded = Inr (Wrote wr)"
    by (auto simp: message_life_def split: sum.splits registered.splits answer.splits if_splits)
  then have "wf_write wr" using assms(2) registered_wf by (auto simp: known_worker_def)
  with assms(1) m show False by (auto simp: deliver_def store_write_wf split: if_splits)
qed

section \<open>Prune turns\<close>

lemma prune_step_filter: "\<exists>p. ew_tables (prune_step repr hours_of st w) t = filter p (ew_tables w t)"
  by (auto simp: prune_step_def prune_older_than_def prune_owned_def evict_assets_def note_element_def Let_def
      intro: exI [of _ "\<lambda>_. True"] split: prod.split option.split)

lemma prune_step_keyed:
  "keyed_rows k P (ew_tables w t) \<Longrightarrow> keyed_rows k P (ew_tables (prune_step repr hours_of st w) t)"
  using prune_step_filter [of repr hours_of st w t] keyed_rows_filter by metis

lemma prune_step_coherent:
  assumes "coherent_but D w"
  shows "coherent_but D (prune_step repr hours_of st w)"
proof -
  obtain ids w1 where o: "prune_owned w = (ids, w1)" by fastforce
  have e: "coherent_but D (snd (evict_assets ids w1))"
    using coherent_mono [OF pruned_coherent [OF assms]] o by simp
  have "coherent_but D w1" if "ids = []"
    by (rule coherent_same [OF e]) (simp_all add: that evict_assets_def note_element_def Let_def)
  then show ?thesis
    using assms e coherent_same [OF assms]
    by (auto simp: prune_step_def o split: prod.split option.split)
qed

lemma prune_step_life:
  assumes "prunes_assets repr hours_of st \<longrightarrow> snd (snd (snd (snd st)))"
  shows "life dflt (assets_of w) (if prunes_assets repr hours_of st then [Pruned] else []) (assets_of (prune_step repr hours_of st w))"
proof -
  obtain now ok table column hours keyed where st: "st = ((now, ok), (table, column, hours, keyed))" by (metis prod.exhaust)
  show ?thesis
  proof (cases "prunes_assets repr hours_of st")
    case True
    then obtain h where h: "ok" "table \<notin> PStr ` set (map fst parent_owned_prune)" "hours_of hours = Some h" "py_str repr table = lifecycle_table"
      by (auto simp: prunes_assets_def st)
    have keyed using assms True st by simp
    with h have "assets_of (prune_step repr hours_of st w)
        = prune_older_than now h lifecycle_table column True (ew_tables w) lifecycle_table"
      by (simp add: prune_step_def st)
    with life_once [OF life_step.Pruned [OF refl]] True show ?thesis by simp
  next
    case False
    then have "assets_of (prune_step repr hours_of st w) = assets_of w"
      by (auto simp: prunes_assets_def prune_step_def st prune_older_than_def prune_owned_def evict_assets_def
          note_element_def Let_def split: option.split)
    with False show ?thesis by (simp add: life.Start)
  qed
qed

lemma prune_pass_life:
  assumes "\<forall>st\<in>set steps. prunes_assets repr hours_of st \<longrightarrow> snd (snd (snd (snd st)))"
  shows "life dflt (assets_of w) (replicate (length (filter (prunes_assets repr hours_of) steps)) Pruned)
    (assets_of (prune_pass repr hours_of steps w))"
  using assms
proof (induction steps rule: rev_induct)
  case (snoc st steps)
  then have "life dflt (assets_of w) (replicate (length (filter (prunes_assets repr hours_of) steps)) Pruned)
      (assets_of (prune_pass repr hours_of steps w))" by simp
  from life_append [OF prune_step_life this, of repr hours_of st] snoc.prems show ?case
    by (simp add: prune_pass_def split: if_splits)
qed (simp add: prune_pass_def life.Start)

text \<open>No mapping appends to the lifecycle table, so every target that prunes it is keyed.\<close>

definition plain_config :: "config \<Rightarrow> bool" where
  "plain_config cfg \<longleftrightarrow> list_all (\<lambda>m. mp_mode m = PStr ''append'' \<longrightarrow>
     (case mp_table m of PStr t \<Rightarrow> t \<noteq> lifecycle_table | _ \<Rightarrow> False)) (cf_mappings cfg)"

lemma prune_targets_keyed:
  assumes "plain_config cfg" "st \<in> set (zip answers (build_prune_targets (cf_mappings cfg)))" "prunes_assets repr hours_of st"
  shows "snd (snd (snd (snd st)))"
proof -
  have "py_str repr (mp_table m) \<noteq> lifecycle_table" if "m \<in> set (cf_mappings cfg)" "mp_mode m = PStr ''append''" for m
    using assms(1) that by (cases "mp_table m") (force simp: plain_config_def list_all_iff)+
  then have "keyed_only repr lifecycle_table (build_prune_targets (cf_mappings cfg))"
    by (intro targets_keyed) (auto simp: lifecycle_table_def)
  moreover have "snd st \<in> set (build_prune_targets (cf_mappings cfg))"
    using assms(2) by (metis prod.collapse set_zip_rightD)
  ultimately show ?thesis using assms(3) by (auto simp: keyed_only_def prunes_assets_def split: prod.splits)
qed

section \<open>What every process keeps\<close>

definition checked :: "running \<Rightarrow> bool" where
  "checked ru \<longleftrightarrow> (\<forall>ws\<in>set (consumed (ru_tasks ru)). known_worker ws)"

definition world_ok :: "string set \<Rightarrow> element_world \<Rightarrow> bool" where
  "world_ok D w \<longleftrightarrow> engaged (ew_tables w) \<and> keyed_rows ''asset_id'' asset_ok (assets_of w) \<and> coherent_but D w"

definition process_ok :: "string set \<Rightarrow> process \<Rightarrow> bool" where
  "process_ok D p \<longleftrightarrow> world_ok D (pc_world p) \<and> list_all valid_row (pc_declared p)
     \<and> (case pc_running p of None \<Rightarrow> True | Some ru \<Rightarrow> checked ru)"

text \<open>What the outside must bring with a message: see \<open>tier_ok\<close>; and one schema.\<close>

fun admissible :: "row \<Rightarrow> process_event \<Rightarrow> bool" where
  "admissible dflt (Received n m ti ca) \<longleftrightarrow> tier_ok ti \<and> ti_schema ti lifecycle_table = dflt"
| "admissible dflt _ \<longleftrightarrow> True"

text \<open>A start whose configuration appends to the lifecycle table nothing, and a process that runs such a one.\<close>

fun plain_start :: "process_event \<Rightarrow> bool" where
  "plain_start (Started su) \<longleftrightarrow>
     (case load_config (su_config su) (su_parsed su) of Inl _ \<Rightarrow> True | Inr cfg \<Rightarrow> plain_config cfg)"
| "plain_start _ \<longleftrightarrow> True"

definition plain_process :: "process \<Rightarrow> bool" where
  "plain_process p \<longleftrightarrow> (case pc_running p of None \<Rightarrow> True | Some ru \<Rightarrow> plain_config (ru_config ru))"

text \<open>The assets in doubt after a history: those of unacknowledged commits since the last start.\<close>

definition work_doubt :: "running \<Rightarrow> process_event \<Rightarrow> string set" where
  "work_doubt ru e =
     (case e of Received n m ti ca \<Rightarrow>
        (if n < length (consumed (ru_tasks ru)) then message_doubt (consumed (ru_tasks ru) ! n) m ca else {}) | _ \<Rightarrow> {})"

definition event_doubt :: "process_event \<Rightarrow> process \<Rightarrow> string set" where
  "event_doubt e p = (case pc_running p of None \<Rightarrow> {} | Some ru \<Rightarrow> (if unheard e p then {} else work_doubt ru e))"


lemma started_checked:
  assumes "start_up su rows = (Running ru, rows')"
  shows "checked ru" "plain_start (Started su) \<Longrightarrow> plain_config (ru_config ru)"
proof -
  from assms obtain ws n where r: "load_config (su_config su) (su_parsed su) = Inr (ru_config ru)"
    "rmap (setup_worker (su_loads su) (su_stubs su)) (cf_mappings (ru_config ru)) = Inr ws" "consumed (ru_tasks ru) = ws"
    by (rule running_cases)
  have "known_worker w" if "w \<in> set ws" for w
  proof -
    from rmap_set [OF r(2) that] obtain m where "setup_worker (su_loads su) (su_stubs su) m = Inr w" by blast
    then show ?thesis by (auto simp: setup_worker_def named_def known_worker_def res_simps split: py.splits)
  qed
  with r(3) show "checked ru" by (simp add: checked_def)
  show "plain_start (Started su) \<Longrightarrow> plain_config (ru_config ru)" by (simp add: r(1))
qed

lemma start_rows:
  assumes "start_up su rows = (st, rows')" "list_all valid_row rows"
  shows "list_all valid_row rows'"
  using start_up_table [OF assms(1)] assms(2) rows_valid by blast

lemma work_received:
  assumes "checked ru"
  obtains (none) "work ru (Received n m ti ca) w = w" "work_life ru (Received n m ti ca) = []"
  | (delivered) r w' ws where "known_worker ws" "deliver (ru_element ru) ti ca ws m w = Inr (r, w')"
      "work ru (Received n m ti ca) w = w'" "work_life ru (Received n m ti ca) = message_life ti ws m"
      "n < length (consumed (ru_tasks ru))" "ws = consumed (ru_tasks ru) ! n"
proof (cases "n < length (consumed (ru_tasks ru))")
  case True
  let ?ws = "consumed (ru_tasks ru) ! n"
  have k: "known_worker ?ws" using assms True by (simp add: checked_def)
  show ?thesis
  proof (cases "deliver (ru_element ru) ti ca ?ws m w")
    case (Inl e)
    with deliver_raised [OF Inl k] True show ?thesis by (intro none) simp_all
  next
    case (Inr x)
    obtain r w' where "x = (r, w')" by (cases x)
    with Inr True show ?thesis by (intro delivered [OF k, of r w']) simp_all
  qed
qed (intro none, simp_all)

lemma received_life:
  assumes "checked ru" "admissible dflt (Received n m ti ca)"
  shows "life dflt (assets_of w) (work_life ru (Received n m ti ca)) (assets_of (work ru (Received n m ti ca) w))"
  using assms(1)
proof (cases rule: work_received [of ru n m ti ca w])
  case none
  then show ?thesis by (simp only: life.Start)
next
  case (delivered r w' ws)
  with deliver_life [OF delivered(2,1)] assms(2) show ?thesis by (simp del: work.simps work_life.simps)
qed

lemma work_life_steps:
  assumes "checked ru" "admissible dflt e" "plain_config (ru_config ru)"
  shows "life dflt (assets_of w) (work_life ru e) (assets_of (work ru e w))"
proof (cases e)
  case (Received n m ti ca)
  with received_life [OF assms(1)] assms(2) show ?thesis by blast
next
  case (Reporting_Turn stale now)
  then show ?thesis using life_once [OF life_step.Stale_Sweep] by (simp add: at_table_def)
next
  case (Prune_Turn repr hours_of answers)
  let ?steps = "zip answers (build_prune_targets (cf_mappings (ru_config ru)))"
  have "\<forall>st\<in>set ?steps. prunes_assets repr hours_of st \<longrightarrow> snd (snd (snd (snd st)))"
    using prune_targets_keyed assms(3) by blast
  from prune_pass_life [OF this] Prune_Turn show ?thesis by (simp add: prune_turn_def prune_life_def)
qed (simp_all add: life.Start at_table_def put_view_def lifecycle_table_def)

text \<open>An event of a running process keeps the world; only a message adds a doubt.\<close>

lemma work_ok:
  assumes "checked ru" "admissible dflt e" "life_schema dflt" "world_ok D w"
  shows "world_ok (D \<union> work_doubt ru e) (work ru e w)"
proof -
  from assms(4) have w: "engaged (ew_tables w)" "keyed_rows ''asset_id'' asset_ok (assets_of w)" "coherent_but D w"
    by (simp_all add: world_ok_def)
  show ?thesis
  proof (cases e)
    case (Received n m ti ca)
    have keyed: "keyed_rows ''asset_id'' asset_ok (assets_of (work ru e w))"
      unfolding Received using life_ok [OF received_life [OF assms(1)] assms(3) w(2)] assms(2) Received by blast
    from assms(1) show ?thesis
    proof (cases rule: work_received [of ru n m ti ca w])
      case none
      then have "work ru e w = w" by (simp add: Received del: work.simps)
      with w coherent_mono [OF w(3)] show ?thesis by (simp add: world_ok_def)
    next
      case (delivered r w' ws)
      have "work ru e w = w'" "work_doubt ru e = message_doubt ws m ca"
        using delivered(3,5,6) by (simp_all add: Received work_doubt_def del: work.simps)
      with deliver_engaged [OF delivered(2,1)] deliver_coherent [OF delivered(2) w(3)] w(1) assms(2) Received keyed
      show ?thesis by (simp add: world_ok_def)
    qed
  next
    case (Prune_Turn repr hours_of answers)
    have "world_ok D (fold (prune_step repr hours_of) steps w)" for steps
      using w
      by (induction steps rule: rev_induct)
        (auto simp: world_ok_def engagement_ok_def munition_view_def prune_step_keyed prune_step_coherent)
    with Prune_Turn show ?thesis by (simp add: prune_turn_def prune_pass_def work_doubt_def)
  next
    case (Reporting_Turn stale now)
    have "keyed_rows ''asset_id'' asset_ok (fst (sweep_reporting_staleness stale now (assets_of w)))"
      using life_ok [OF life_once [OF life_step.Stale_Sweep] assms(3) w(2)] by blast
    with Reporting_Turn w coherent_same [OF w(3)] show ?thesis
      by (simp add: world_ok_def at_table_def work_doubt_def munition_view_def lifecycle_table_def)
  next
    case (Effector_Turn timeout now)
    with w coherent_same [OF w(3)] engagement_event_keeps [of "Launch_Timeouts timeout now"] show ?thesis
      by (simp add: world_ok_def at_table_def work_doubt_def lifecycle_table_def)
  next
    case (Track_Turn silence ok1 now1 ok2 now2)
    with w coherent_same [OF w(3)] engagement_event_keeps [of "Track_Sweep silence ok1 now1 ok2 now2"] show ?thesis
      by (simp add: world_ok_def work_doubt_def put_view_def lifecycle_table_def)
  qed (use assms(4) in \<open>simp_all add: work_doubt_def\<close>)
qed

lemma run_event_running:
  "e \<noteq> Stop_Signal \<Longrightarrow> (\<forall>su. e \<noteq> Started su) \<Longrightarrow>
     run_event e p = (case pc_running p of
         None \<Rightarrow> p
       | Some ru \<Rightarrow> (if unheard e p then p
           else p\<lparr>pc_world := work ru e (pc_world p), pc_ended := escapes ru e (pc_world p) @ pc_ended p\<rparr>))"
  by (cases e) (simp_all split: option.split)

lemma event_life_start: "event_life (Started su) p = []" "event_life Stop_Signal p = []"
  by (simp_all add: event_life_def split: option.split)

lemma run_event_ok:
  assumes "admissible dflt e" "life_schema dflt" "process_ok D p"
  shows "process_ok (case e of Started _ \<Rightarrow> {} | _ \<Rightarrow> D \<union> event_doubt e p) (run_event e p)"
proof (cases "e = Stop_Signal \<or> (\<exists>su. e = Started su)")
  case True
  from True show ?thesis
  proof
    assume "\<exists>su. e = Started su"
    then obtain su where e: "e = Started su" ..
    obtain st rows where s: "start_up su (pc_declared p) = (st, rows)" by fastforce
    have "world_ok {} (forgotten (pc_world p))"
      using assms(3) by (simp add: process_ok_def world_ok_def forgotten_def coherent_but_def)
    moreover have "case (case st of Running ru \<Rightarrow> Some ru | _ \<Rightarrow> None) of None \<Rightarrow> True | Some ru \<Rightarrow> checked ru"
      using started_checked(1) [of su "pc_declared p" _ rows] s by (auto split: start.splits)
    ultimately show ?thesis using start_rows [OF s] assms(3) s e by (simp add: process_ok_def)
  next
    assume e: "e = Stop_Signal"
    have "event_doubt e p = {}" by (simp add: e event_doubt_def work_doubt_def split: option.split)
    with assms(3) e show ?thesis by (simp add: process_ok_def)
  qed
next
  case False
  then have D: "(case e of Started _ \<Rightarrow> {} | _ \<Rightarrow> D \<union> event_doubt e p) = D \<union> event_doubt e p" by (cases e) simp_all
  show ?thesis
  proof (cases "pc_running p = None \<or> unheard e p")
    case True
    with False assms(3) run_event_running [of e p] show ?thesis
      unfolding D by (auto simp: event_doubt_def split: option.split)
  next
    case F: False
    then obtain ru where ru: "pc_running p = Some ru" by auto
    with assms(3) have "checked ru" "world_ok D (pc_world p)" by (simp_all add: process_ok_def)
    with work_ok [of ru dflt e D "pc_world p"] run_event_running [of e p] False F ru assms show ?thesis
      unfolding D by (simp add: process_ok_def event_doubt_def)
  qed
qed


text \<open>The steps of an event, where no configuration appends to the lifecycle table.\<close>

lemma run_event_life:
  assumes "admissible dflt e" "process_ok D p" "plain_process p"
  shows "life dflt (assets_of (pc_world p)) (event_life e p) (assets_of (pc_world (run_event e p)))"
proof (cases "e = Stop_Signal \<or> (\<exists>su. e = Started su)")
  case True
  then show ?thesis by (auto simp: event_life_start life.Start forgotten_def split: prod.split)
next
  case False
  show ?thesis
  proof (cases "pc_running p = None \<or> unheard e p")
    case True
    with False run_event_running [of e p] show ?thesis by (auto simp: event_life_def life.Start split: option.split)
  next
    case F: False
    then obtain ru where ru: "pc_running p = Some ru" by auto
    with assms have "checked ru" "plain_config (ru_config ru)" by (simp_all add: process_ok_def plain_process_def)
    with work_life_steps [of ru dflt e "pc_world p"] run_event_running [of e p] False F ru assms(1) show ?thesis
      by (simp add: event_life_def)
  qed
qed

lemma run_event_plain: "plain_start e \<Longrightarrow> plain_process p \<Longrightarrow> plain_process (run_event e p)"
  using started_checked(2) by (cases e) (auto simp: plain_process_def simp del: plain_start.simps split: prod.split start.split option.splits)

lemma process_life_steps:
  assumes "process_ok D p" "plain_process p" "life_schema dflt" "list_all (admissible dflt) es" "list_all plain_start es"
  shows "life dflt (assets_of (pc_world p)) (process_life es p) (assets_of (pc_world (run_process es p)))"
  using assms(1,2,4,5)
proof (induction es arbitrary: p D)
  case (Cons e es)
  note p = run_event_ok [OF _ assms(3) Cons.prems(1), of e] run_event_plain [OF _ Cons.prems(2), of e]
  from life_append [OF Cons.IH [OF p(1,2)] run_event_life [OF _ Cons.prems(1,2), of dflt e]] Cons.prems(3,4)
  show ?case by (simp add: run_process_def)
qed (simp add: run_process_def life.Start)

text \<open>
  C2. The process refines the life of its assets. Where no configuration appends to the lifecycle table (such a mapping would
  prune it by age alone), the rows of \<open>telemetry_latest_state\<close> change by nothing but
  the steps of \<open>Asset_Life\<close>, and by exactly those the events stand for: a status claim enters only
  with an accepted telemetry message that a running worker handles, and a row leaves only in a prune turn of the running
  configuration. So through restarts, silence and retention an operational asset that no such message claims to be gone
  keeps its row and stays operational.
\<close>

theorem process_refines_life:
  assumes "process_ok D p" "plain_process p" "life_schema dflt" "list_all (admissible dflt) es" "list_all plain_start es"
  shows "life dflt (assets_of (pc_world p)) (process_life es p) (assets_of (pc_world (run_process es p)))
    \<and> (lookup_row [''asset_id''] (assets_of (pc_world p)) [a] = Some r \<and> r ''operational_status'' = PStr ''operational''
        \<and> (\<forall>c seen. Message (Some c) seen [a] \<notin> set (process_life es p)) \<longrightarrow>
      (\<exists>r'. lookup_row [''asset_id''] (assets_of (pc_world (run_process es p))) [a] = Some r'
         \<and> r' ''operational_status'' = PStr ''operational''))"
proof (intro conjI impI process_life_steps [OF assms], elim conjE)
  assume "lookup_row [''asset_id''] (assets_of (pc_world p)) [a] = Some r" "r ''operational_status'' = PStr ''operational''"
    and quiet: "\<forall>c seen. Message (Some c) seen [a] \<notin> set (process_life es p)"
  moreover have "\<forall>e\<in>set (process_life es p). stays_in {PStr ''operational''} a e"
    using quiet by (auto simp: stays_in_def split: life_event.split option.split)
  moreover have "keyed_rows ''asset_id'' asset_ok (assets_of (pc_world p))"
    using assms(1) by (simp add: process_ok_def world_ok_def)
  ultimately show "\<exists>r'. lookup_row [''asset_id''] (assets_of (pc_world (run_process es p))) [a] = Some r'
      \<and> r' ''operational_status'' = PStr ''operational''"
    using life_stays [OF process_life_steps [OF assms] assms(3), of "{PStr ''operational''}" a r] by simp
qed

section \<open>An example\<close>

text \<open>One worker for telemetry and one for element telemetry: seen, reported, silent, removed, pruned; then a restart.\<close>

definition process_loads :: "string \<Rightarrow> py res" where
  "process_loads s =
     (if s = ''{}'' then Inr (PDict startup_doc) else if s = ''seen'' then Inr (PDict seen_message)
      else if s = ''report'' then Inr (PDict [(''asset_id'', PStr ''a''), (''elements'', PList [])])
      else if s = ''removed'' then Inr (PDict removal_message) else Inl ValueError)"

definition process_startup :: startup_env where
  "process_startup = (sample_startup (Some ''{}''))\<lparr>su_loads := process_loads\<rparr>"

definition process_tier :: tier where
  "process_tier = \<lparr>ti_env = sample_env, ti_schema = (\<lambda>_. life_defaults), ti_accepts = (\<lambda>_. True), ti_trail = True,
     ti_rival1 = id, ti_rival2 = id, ti_now1 = 100, ti_now2 = 101, ti_now3 = 102\<rparr>"

definition process_call :: element_call where
  "process_call = \<lparr>ca_env = sample_env, ca_schema = (\<lambda>_. life_defaults), ca_now_observed = 7, ca_now_row = 8, ca_now_stamp = 9,
     ca_clock = 100, ca_fetch_elements = None, ca_fetch_labels = None, ca_tx = Committed\<rparr>"

definition process_message :: "string \<Rightarrow> message" where
  "process_message v = \<lparr>msg_key = None, msg_value = Some v, msg_error = None\<rparr>"

definition new_process :: process where
  "new_process = \<lparr>pc_running = None, pc_ended = [], pc_declared = [],
     pc_world = \<lparr>ew_assets = [], ew_logged = [], ew_notes = [], ew_cells = [], ew_tables = (\<lambda>_. [])\<rparr>\<rparr>"

text \<open>The key of the last message before the stop signal is no text: it ends the telemetry worker, so the next is not heard.\<close>

definition process_history :: "process_event list" where
  "process_history =
     [Started process_startup, Received 0 (process_message ''seen'') process_tier process_call,
      Received 0 (process_message ''?'') process_tier process_call, Reporting_Turn 30 99000000,
      Received 1 (process_message ''report'') process_tier (process_call\<lparr>ca_tx := LostAfter\<rparr>),
      Received 0 (process_message ''removed'') process_tier process_call,
      Received 0 ((process_message ''seen'')\<lparr>msg_key := Some [char_of (255::nat)]\<rparr>) process_tier process_call,
      Received 0 (process_message ''seen'') process_tier process_call, Stop_Signal,
      Received 0 (process_message ''seen'') process_tier process_call]"

definition restarted :: "process_event list" where
  "restarted = process_history @ [Started process_startup, Hangup (sample_config_env None) sample_parsed]"

lemma new_process_ok: "process_ok {} new_process" "plain_process new_process"
  by (simp_all add: process_ok_def world_ok_def new_process_def engagement_ok_def munition_view_def keyed_rows_def coherent_but_def
      plain_process_def)

lemma history_admissible:
  "list_all (admissible life_defaults) process_history" "list_all (admissible life_defaults) restarted"
  "list_all plain_start restarted" "life_schema life_defaults"
proof -
  have "case load_config (su_config process_startup) (su_parsed process_startup) of Inl _ \<Rightarrow> True | Inr cfg \<Rightarrow> plain_config cfg"
    by code_simp
  then have "plain_start (Started process_startup)" by simp
  moreover have "tier_ok process_tier" by (simp add: tier_ok_def process_tier_def life_defaults_def)
  ultimately show "list_all (admissible life_defaults) process_history" "list_all (admissible life_defaults) restarted"
    "list_all plain_start restarted"
    by (simp_all add: restarted_def process_history_def process_tier_def process_call_def)
  show "life_schema life_defaults" by (simp add: life_schema_def life_defaults_def)
qed



text \<open>The claim enters with the fifth message; those no worker hears enter nothing.\<close>

theorem process_refines_life_witness:
  "life life_defaults [] [Message (Some ''removed'') False [PStr ''a''], Stale_Sweep, Message None True [PStr ''a'']]
     (assets_of (pc_world (run_process restarted new_process)))"
proof -
  have "process_life restarted new_process
      = [Message (Some ''removed'') False [PStr ''a''], Stale_Sweep, Message None True [PStr ''a'']]" by code_simp
  with process_refines_life [OF new_process_ok history_admissible(4,2,3)] show ?thesis by (simp add: new_process_def)
qed

end
