(* ===== verification/Element_Examples.thy ===== *)
theory Element_Examples
  imports Element_Store
begin

text \<open>
  Concrete configurations, snapshots and calls of the element feed, at which its properties hold with
  their hypotheses met.
\<close>

definition sample_doc :: dict where
  "sample_doc =
     [(''deadbands'', PDict [(''array'', PDict [(''temp_c'', PInt 2), (''load_pct'', PInt 5)])]),
      (''bands'', PDict [(''health'', PDict
         [(''limits'', PList [PInt 30, PInt 60]), (''names'', PList [PStr ''red'', PStr ''amber'', PStr ''green'']),
          (''hysteresis'', PInt 5)])]),
      (''heartbeat_s'', PInt 60)]"

definition sample_config :: element_config where
  "sample_config = \<lparr>ec_deadbands = [(''array'', 2, 5)], ec_limits = [30, 60],
     ec_names = [''red'', ''amber'', ''green''], ec_hysteresis = 5, ec_heartbeat_s = 60\<rparr>"

lemma sample_parsed: "parse_config (\<lambda>_. Inr (PDict sample_doc)) (Some ''{}'') = Inr sample_config"
  by code_simp

lemma sample_ok: "config_ok sample_config"
  by (simp add: config_ok_def sample_config_def)

text \<open>A reading of 58 keeps the band green it had, a reading of 50 loses it.\<close>

theorem band_index_clamp_witness:
  "band_index sample_config (Fin 58) (Some 2) = 2 \<and> band_index sample_config (Fin 50) (Some 2) = 1
   \<and> band_index sample_config (Fin 58) None = 1"
  using band_index_clamp [OF sample_ok, of 2 "Fin 58"] band_index_clamp [OF sample_ok, of 2 "Fin 50"]
  by (simp add: sample_config_def plain_band_def upper_band_def reads_above_def reads_below_def)

definition sample_element :: dict where
  "sample_element = [(''element_id'', PStr ''hull/array''), (''layer_name'', PStr ''array''), (''health'', PInt 58),
     (''temp_c'', PFloat (Fin 41)), (''tx_active'', PBool True)]"

definition sample_message :: dict where
  "sample_message = [(''asset_id'', PStr ''a1''), (''elements'', PList [PDict sample_element])]"

definition sample_ecell :: "string \<Rightarrow> string \<Rightarrow> nat \<Rightarrow> element_cell" where
  "sample_ecell layer nation depth = \<lparr>ce_row = \<lparr>er_parent_path = None, er_depth = depth, er_layer_name = layer, er_health = None,
       er_fields = \<lparr>ef_temp_c = Some (Fin 40), ef_load_pct = None, ef_tx_active = None, ef_rx_active = None,
         ef_moved_by = None, ef_health_band = Some ''green''\<rparr>,
       er_value_changes = 0, er_subtree_changes = 0, er_subtree_changes_window = 0, er_observed_at = 0\<rparr>,
     ce_nation = PStr nation, ce_releasable = PList [], ce_provenance = [], ce_updated_at = 0\<rparr>"

definition sample_labels :: dict where
  "sample_labels = [(''originator_nation'', PStr ''ATL''), (''releasable_to'', PList [])]"

definition sample_world :: "(string \<times> asset_state) list \<Rightarrow> element_world" where
  "sample_world assets = \<lparr>ew_assets = assets, ew_logged = [], ew_notes = [],
     ew_cells = [((''a1'', ''hull''), sample_ecell ''hull'' ''GBR'' 0), ((''a1'', ''hull/array''), sample_ecell ''array'' ''GBR'' 1),
                 ((''a1'', ''mast''), sample_ecell ''mast'' ''GBR'' 0)],
     ew_tables = (\<lambda>t. if t = ''telemetry_latest_state''
        then [(\<lambda>c. if c = ''asset_id'' then PStr ''a1'' else if c = ''originator_nation'' then PStr ''ATL''
                 else if c = ''releasable_to'' then PList [] else PNone)] else [])\<rparr>"

definition sample_held :: asset_state where
  "sample_held = \<lparr>st_elements = fetch_element_state ''a1'' (sample_world []), st_asset_sig = None, st_asset_written_at = 0,
     st_stamped_labels = Some [(''originator_nation'', PStr ''GBR''), (''releasable_to'', PList [])]\<rparr>"

definition sample_call :: "attempt \<Rightarrow> element_call" where
  "sample_call tx = \<lparr>ca_env = sample_env,
     ca_schema = (\<lambda>_ _. PNone), ca_now_observed = 7, ca_now_row = 8, ca_now_stamp = 9, ca_clock = 100,
     ca_fetch_elements = None, ca_fetch_labels = None, ca_tx = tx\<rparr>"

abbreviation sample_handle :: "attempt \<Rightarrow> element_world \<Rightarrow> element_answer res \<times> element_world" where
  "sample_handle tx w \<equiv> handle_asset_element_telemetry (sample_call tx) (Some sample_config) [] sample_message w"

abbreviation held_world :: element_world where
  "held_world \<equiv> sample_world [(''a1'', sample_held)]"

lemma sample_written:
  "fst (sample_handle Committed (sample_world [])) = Inr ElWritten"
  "fst (sample_handle Committed held_world) = Inr ElWritten"
  "fst (sample_handle LostBefore (sample_world [])) = Inl OSError"
  by code_simp+

lemma sample_declared: "declared sample_config (PDict sample_element) = Some (sample_element, ''hull/array'', ''array'', 2, 5)"
  by code_simp

lemma sample_fields:
  "py_or (dget sample_message ''asset_id'') (PStr []) = PStr ''a1''"
  "py_or (dget sample_message ''elements'') (PList []) = PList [PDict sample_element]"
  "distinct (List.map_filter path_of [PDict sample_element])"
  "fetch_asset_labels ''a1'' (ew_tables (sample_world as)) = Inr (Some sample_labels)"
  by code_simp+

lemma sample_coherent: "coherent (sample_world [])"
  by (simp add: coherent_but_def sample_world_def)

lemma held_coherent: "coherent held_world"
  using held_mirrors [OF sample_coherent, of "''a1''"]
  by (auto simp: coherent_but_def sample_world_def sample_held_def held_state_def mirrors_def fetch_element_state_def)

lemma sample_diff: "diff_snapshot (e_repr sample_env) sample_config (st_elements sample_held) [PDict sample_element] 7 =
    Inr (the (case diff_snapshot (e_repr sample_env) sample_config (st_elements sample_held) [PDict sample_element] 7 of
      Inr d \<Rightarrow> Some d | Inl _ \<Rightarrow> None))"
  by code_simp

text \<open>The snapshot repeated: the windows go back to zero, then nothing.\<close>

theorem snapshot_settles_witness:
  "\<exists>rows cs u rows' u' u''. diff_snapshot (e_repr sample_env) sample_config (st_elements sample_held) [PDict sample_element] 7
       = Inr (rows, cs, u)
    \<and> diff_snapshot (e_repr sample_env) sample_config (dmerge (st_elements sample_held) rows) [PDict sample_element] 8
       = Inr (rows', [], u')
    \<and> diff_snapshot (e_repr sample_env) sample_config (dmerge (dmerge (st_elements sample_held) rows) rows')
         [PDict sample_element] 9 = Inr ([], [], u'')"
proof -
  obtain rows cs u where d: "diff_snapshot (e_repr sample_env) sample_config (st_elements sample_held) [PDict sample_element] 7
      = Inr (rows, cs, u)" using sample_diff by (metis prod_cases3)
  have "distinct (map fst (st_elements sample_held))" by code_simp
  from snapshot_settles [OF sample_ok d this sample_fields(3), of 8 9] d show ?thesis by blast
qed

text \<open>A commit without its acknowledgement: the table has the new row, the memory of the asset the old one.\<close>

lemma sample_doubt:
  "doubted (sample_call LostAfter) [] sample_message = {''a1''}"
  "(case snd (sample_handle LostAfter (sample_world [])) of w \<Rightarrow>
      map_option (\<lambda>st. map_of (st_elements st) ''hull/array'' = map_option ce_row (map_of (ew_cells w) (''a1'', ''hull/array'')))
        (map_of (ew_assets w) ''a1'')) = Some False"
  by code_simp+

theorem memory_mirrors_table_witness:
  "coherent (snd (sample_handle Committed (sample_world []))) \<and> coherent (snd (sample_handle Rejected (sample_world [])))
   \<and> coherent_but {''a1''} (snd (sample_handle LostAfter (sample_world [])))
   \<and> \<not> coherent (snd (sample_handle LostAfter (sample_world [])))"
proof -
  note m = memory_mirrors_table [OF sample_coherent, where key = "[]" and decoded = sample_message and config = "Some sample_config"]
  have "\<not> coherent (snd (sample_handle LostAfter (sample_world [])))"
    using sample_doubt(2) unfolding coherent_but_def mirrors_def by force
  with m [of "sample_call Committed"] m [of "sample_call Rejected"] m [of "sample_call LostAfter"] show ?thesis
    unfolding sample_doubt(1) by (simp add: doubted_def) (simp add: sample_call_def)
qed

lemma handle_pair: "fst m = r \<Longrightarrow> m = (r, snd m)"
  by (cases m) simp

theorem stored_rows_follow_feed_witness:
  "\<exists>cur c. map_of (ew_cells (snd (sample_handle Committed (sample_world [])))) (''a1'', ''hull/array'') = Some c
     \<and> fields_agree (2, 5) cur (er_fields (ce_row c))"
  using stored_rows_follow_feed [OF sample_coherent sample_ok handle_pair [OF sample_written(1)] _ sample_fields(1-3) _ sample_declared]
  by auto

text \<open>
  The record says ATL, the rows carry GBR. With GBR as the labels last stamped every row is relabelled;
  on the first envelope after a start the row of the mast keeps GBR.
\<close>

theorem labels_follow_record_witness:
  "labelled (ew_cells (snd (sample_handle Committed held_world))) ''a1'' sample_labels
   \<and> map_option ce_nation (map_of (ew_cells (snd (sample_handle Committed held_world))) (''a1'', ''mast'')) = Some (PStr ''ATL'')
   \<and> map_option ce_nation (map_of (ew_cells (snd (sample_handle Committed (sample_world [])))) (''a1'', ''mast'')) = Some (PStr ''GBR'')"
proof (intro conjI)
  have "labelled (ew_cells held_world) ''a1'' [(''originator_nation'', PStr ''GBR''), (''releasable_to'', PList [])]"
    by (simp add: labelled_def sample_world_def sample_ecell_def dget_def dget_or_def)
  moreover have "st_stamped_labels (held_state ''a1'' held_world) = Some [(''originator_nation'', PStr ''GBR''), (''releasable_to'', PList [])]"
    by (simp add: held_state_def sample_world_def sample_held_def)
  ultimately show "labelled (ew_cells (snd (sample_handle Committed held_world))) ''a1'' sample_labels"
    using labels_follow_record [OF handle_pair [OF sample_written(2)] sample_fields(1,4)] by simp
qed code_simp+

theorem failed_call_repeats_witness:
  "\<exists>w2. sample_handle Committed (snd (sample_handle LostBefore (sample_world []))) = (Inr ElWritten, w2)
     \<and> alike (snd (sample_handle Committed (sample_world []))) w2"
  using failed_call_repeats [OF handle_pair [OF sample_written(3)]] handle_pair [OF sample_written(1)]
  by (simp add: sample_call_def)

end
