(* ===== verification/Restart.thy ===== *)
theory Restart
  imports Projector Element_Examples
begin

text \<open>
  The restart of the element feed: the memory is gone and comes back from the table. The diff reads the
  last-written rows only by their paths, so it writes the same rows from either.
\<close>

section \<open>The diff reads its rows by path\<close>

lemma diff_element_map:
  assumes "map_of l = map_of l'"
  shows "diff_element repr cfg l t el st = diff_element repr cfg l' t el st"
  unfolding diff_element_def assms ..

lemma diff_elements_map:
  "map_of l = map_of l' \<Longrightarrow> diff_elements repr cfg l t els st = diff_elements repr cfg l' t els st"
proof (induction els arbitrary: st)
  case (Cons el els)
  with diff_element_map [of l l' repr cfg t el st] show ?case
    by (cases "diff_element repr cfg l' t el st") (simp_all add: res_simps)
qed simp

lemma count_ancestor_map:
  assumes "map_of l = map_of l'"
  shows "count_ancestor l = count_ancestor l'"
  by (rule ext)+ (simp only: count_ancestor_def assms)

lemma zeros_map:
  assumes "distinct (map fst pos)"
  shows "map_of (foldl (return_to_zero w t) rows pos) p =
    (case map_of pos p of
       Some q \<Rightarrow> (if er_subtree_changes_window q \<noteq> 0 \<and> p \<notin> fst ` set w
          then Some ((case map_of rows p of Some r \<Rightarrow> r | None \<Rightarrow> q\<lparr>er_observed_at := t\<rparr>)\<lparr>er_subtree_changes_window := 0\<rparr>)
          else map_of rows p)
     | None \<Rightarrow> map_of rows p)"
  using assms
proof (induction pos arbitrary: rows)
  case (Cons po pos)
  have fresh: "map_of pos (fst po) = None" using Cons.prems by (simp add: map_of_eq_None_iff)
  show ?case
  proof (cases "p = fst po")
    case True
    with Cons fresh show ?thesis by (cases po) (auto simp: return_to_zero_def map_of_dset split: option.split)
  next
    case False
    have "map_of (return_to_zero w t rows po) p = map_of rows p"
      using False by (auto simp: return_to_zero_def map_of_dset)
    with Cons False show ?thesis by (cases po) (auto split: option.split)
  qed
qed simp

lemma diff_snapshot_map:
  assumes "map_of l = map_of l'" "distinct (map fst l)" "distinct (map fst l')"
    "diff_snapshot repr cfg l els t = Inr (rows, cs, u)" "diff_snapshot repr cfg l' els t = Inr (rows', cs', u')"
  shows "map_of rows = map_of rows' \<and> cs = cs' \<and> u = u'"
proof -
  from assms(5) obtain st where st: "diff_elements repr cfg l' t els
      \<lparr>df_rows = [], df_classes = [], df_undeclared = [], df_window = []\<rparr> = Inr st"
    by (auto simp: diff_snapshot_def res_simps)
  have
    "rows = foldl (return_to_zero (df_window st) t) (foldl (count_ancestor l' t) (df_rows st) (df_window st)) l"
    "rows' = foldl (return_to_zero (df_window st) t) (foldl (count_ancestor l' t) (df_rows st) (df_window st)) l'"
    "cs = df_classes st" "cs' = df_classes st" "u = df_undeclared st" "u' = df_undeclared st"
    using assms(4,5) st by (auto simp: diff_snapshot_def diff_elements_map [OF assms(1)] count_ancestor_map [OF assms(1)])
  then show ?thesis using assms(1-3) by (auto simp: zeros_map fun_eq_iff)
qed

section \<open>After a restart\<close>

definition stored :: "element_world \<Rightarrow> string \<times> string \<Rightarrow> element_row option" where
  "stored w k = map_option ce_row (map_of (ew_cells w) k)"

lemma stored_same: "ew_cells v = ew_cells w \<Longrightarrow> stored v = stored w"
  by (rule ext) (simp add: stored_def)

lemma stored_forgotten: "stored (forgotten w) = stored w"
  by (rule stored_same) (simp add: forgotten_def)

lemma stored_held: "coherent w \<Longrightarrow> map_of (st_elements (held_state a w)) p = stored w (a, p)"
  using held_mirrors [of w a] by (simp add: mirrors_def stored_def)

text \<open>
  What a call that answers did to the cells: the rows of the diff written whole, the other cells of the
  asset relabelled if the labels last stamped are not those of the record, everything else as it was.
\<close>

definition called_cells ::
  "element_call \<Rightarrow> string \<Rightarrow> dict \<Rightarrow> dict \<Rightarrow> (string \<times> element_row) list \<Rightarrow> bool
     \<Rightarrow> (string \<times> string \<Rightarrow> element_cell option) \<Rightarrow> string \<times> string \<Rightarrow> element_cell option" where
  "called_cells ca a prov labels rows restamped cells k =
     (if fst k \<noteq> a then cells k
      else case map_of rows (snd k) of
        Some r \<Rightarrow> Some \<lparr>ce_row = r, ce_nation = dget labels ''originator_nation'',
           ce_releasable = dget labels ''releasable_to'', ce_provenance = prov, ce_updated_at = ca_now_stamp ca\<rparr>
      | None \<Rightarrow> if restamped then map_option (relabel labels) (cells k) else cells k)"

lemma handle_cells:
  assumes msg: "config = Some cfg" "py_or (dget decoded ''asset_id'') (PStr key) = PStr a"
      "py_or (dget decoded ''elements'') (PList []) = PList els" "a \<noteq> []"
    and call: "handle_asset_element_telemetry ca config key decoded w = (Inr ans, w')"
  obtains rows cs u l prov restamped where "fetch_asset_labels a (ew_tables w) = Inr l"
    "resolve_origin_or_derive (ca_env ca) PNone (PStr a) None None = Inr prov"
    "diff_snapshot (e_repr (ca_env ca)) cfg (st_elements (held_state a w)) els
       (observed_at_from_ns (ca_now_observed ca) (dget decoded ''observed_at_ns'')) = Inr (rows, cs, u)"
    "map_of (ew_cells w') = (case l of None \<Rightarrow> map_of (ew_cells w) | Some labels \<Rightarrow>
       if labels = [] then map_of (ew_cells w) else called_cells ca a prov labels rows restamped (map_of (ew_cells w)))"
    "\<forall>labels. restamped \<and> l = Some labels \<longrightarrow> st_stamped_labels (held_state a w) \<notin> {None, Some labels}"
proof -
  from call obtain wx where x: "element_asset ca cfg a decoded els (held_state a w) wx = (Inr ans, w')"
    "ew_cells wx = ew_cells w" "ew_tables wx = ew_tables w"
    unfolding handle_asset_eq [OF msg] by (auto simp: held_state_def set_asset_def split: option.splits)
  from x(1) show ?thesis
  proof (cases rule: element_asset_cases)
    case (diffed prov l t rows cs u w1)
    have lab: "\<forall>k. l = Some k \<longrightarrow> k = [] \<or> map fst k = [''originator_nation'', ''releasable_to'']"
      using fetched_labels [OF diffed(2)] by blast
    note facts = diffed(2) [unfolded x(3)] diffed(1) diffed(3) [unfolded diffed(8)]
    have same: "ew_cells w1 = ew_cells w" using diffed(4) x(2) by simp
    from diffed(7) resolve_origin_columns [OF diffed(1)] lab show ?thesis
    proof (cases rule: write_asset_cases)
      case unchanged
      show ?thesis
        by (rule that [OF facts, of False])
          (use unchanged same in \<open>auto simp: called_cells_def fun_eq_iff split: option.splits\<close>)
    next
      case (refused reason)
      show ?thesis by (rule that [OF facts, of False]) (use refused same in \<open>auto split: option.splits\<close>)
    next
      case (written labels ns)
      let ?st = "first_labels l (held_state a w)"
      have cells: "ew_cells w' = written_cells ca a ?st prov labels rows (ew_cells w)"
        using written(5) same cells_of_call_world by (simp add: set_asset_def)
      show ?thesis
      proof (rule that [OF facts, of "call_restamp labels ?st \<noteq> None"])
        show "map_of (ew_cells w') = (case l of None \<Rightarrow> map_of (ew_cells w) | Some labels' \<Rightarrow>
            if labels' = [] then map_of (ew_cells w)
            else called_cells ca a prov labels' rows (call_restamp labels ?st \<noteq> None) (map_of (ew_cells w)))"
          using written(1,2)
          by (auto simp: cells fun_eq_iff called_cells_def map_of_written_cells [OF distinct_diff [OF diffed(3)]] split: option.split)
      next
        show "\<forall>labels'. call_restamp labels ?st \<noteq> None \<and> l = Some labels' \<longrightarrow> st_stamped_labels (held_state a w) \<notin> {None, Some labels'}"
          using written(1,2) by (auto simp: call_restamp_def first_labels_def split: if_splits)
      qed
    qed simp
  qed simp
qed

text \<open>A cell without its two label columns.\<close>

definition sans_labels :: "element_cell \<Rightarrow> element_cell" where
  "sans_labels c = c\<lparr>ce_nation := PNone, ce_releasable := PNone\<rparr>"

lemma sans_labels_relabel [simp]: "sans_labels (relabel labels c) = sans_labels c"
  by (simp add: sans_labels_def relabel_def)

lemma called_cells_sans_labels:
  "map_option sans_labels (called_cells ca a prov labels rows x cells k) = map_option sans_labels (called_cells ca a prov labels rows y cells k)"
  by (auto simp: called_cells_def option.map_comp comp_def split: option.split)

lemma called_cells_map: "map_of rows = map_of rows' \<Longrightarrow> called_cells ca a prov labels rows = called_cells ca a prov labels rows'"
  by (rule ext)+ (simp add: called_cells_def)

text \<open>
  C3. A restart shows in the element rows by their labels at most. Wherever the process stops and starts again between two
  messages, with a memory that mirrors the table, the next message of the element feed that is answered leaves the same rows in \<open>asset_element_state\<close>
  as if it had kept running, in every column but \<open>originator_nation\<close> and \<open>releasable_to\<close>: same values, bands, counters, windows,
  times and provenance. In these two as well, unless the label record has changed since the process last
  stamped the asset: that change the running process brings to the rows already stored, the restarted one does not.
\<close>

theorem restart_transparent:
  assumes "coherent w"
    and "handle_asset_element_telemetry ca config key decoded w = (Inr ans, w1)"
    and "handle_asset_element_telemetry ca config key decoded (forgotten w) = (Inr ans', w2)"
  shows "map_option sans_labels (map_of (ew_cells w1) k) = map_option sans_labels (map_of (ew_cells w2) k)
    \<and> ((\<forall>a labels. py_or (dget decoded ''asset_id'') (PStr key) = PStr a \<and> fetch_asset_labels a (ew_tables w) = Inr (Some labels)
           \<longrightarrow> st_stamped_labels (held_state a w) \<in> {None, Some labels}) \<longrightarrow>
        map_of (ew_cells w1) k = map_of (ew_cells w2) k)"
proof (cases "\<exists>cfg a els. config = Some cfg \<and> py_or (dget decoded ''asset_id'') (PStr key) = PStr a \<and> a \<noteq> []
    \<and> py_or (dget decoded ''elements'') (PList []) = PList els")
  case True
  then obtain cfg a els where msg: "config = Some cfg" "py_or (dget decoded ''asset_id'') (PStr key) = PStr a"
    "py_or (dget decoded ''elements'') (PList []) = PList els" "a \<noteq> []" by blast
  have f: "coherent (forgotten w)" "ew_tables (forgotten w) = ew_tables w" "ew_cells (forgotten w) = ew_cells w"
    "st_stamped_labels (held_state a (forgotten w)) = None"
    using assms(1) by (simp_all add: coherent_but_def forgotten_def held_state_def)
  let ?t = "observed_at_from_ns (ca_now_observed ca) (dget decoded ''observed_at_ns'')"
  let ?c = "map_of (ew_cells w)"
  from handle_cells [OF msg assms(2)] obtain rows cs u l prov x where 1: "fetch_asset_labels a (ew_tables w) = Inr l"
    "resolve_origin_or_derive (ca_env ca) PNone (PStr a) None None = Inr prov"
    "diff_snapshot (e_repr (ca_env ca)) cfg (st_elements (held_state a w)) els ?t = Inr (rows, cs, u)"
    "map_of (ew_cells w1) = (case l of None \<Rightarrow> ?c | Some labels \<Rightarrow> if labels = [] then ?c else called_cells ca a prov labels rows x ?c)"
    "\<forall>labels. x \<and> l = Some labels \<longrightarrow> st_stamped_labels (held_state a w) \<notin> {None, Some labels}" .
  from handle_cells [OF msg assms(3), unfolded f(2,3)] obtain rows' cs' u' l' prov' y where 2: "fetch_asset_labels a (ew_tables w) = Inr l'"
    "resolve_origin_or_derive (ca_env ca) PNone (PStr a) None None = Inr prov'"
    "diff_snapshot (e_repr (ca_env ca)) cfg (st_elements (held_state a (forgotten w))) els ?t = Inr (rows', cs', u')"
    "map_of (ew_cells w2) = (case l' of None \<Rightarrow> ?c | Some labels \<Rightarrow> if labels = [] then ?c else called_cells ca a prov' labels rows' y ?c)"
    "\<forall>labels. y \<and> l' = Some labels \<longrightarrow> st_stamped_labels (held_state a (forgotten w)) \<notin> {None, Some labels}" .
  have m: "map_of (st_elements (held_state a w)) = map_of (st_elements (held_state a (forgotten w)))"
    using stored_held [OF assms(1)] stored_held [OF f(1)] stored_forgotten by (simp add: fun_eq_iff)
  have "distinct (map fst (st_elements (held_state a v)))" if "coherent v" for v
    using held_mirrors [OF that] by (simp add: mirrors_def)
  with diff_snapshot_map [OF m _ _ 1(3) 2(3)] assms(1) f(1) have r: "map_of rows = map_of rows'" by blast
  have same: "l' = l" "prov' = prov" using 1(1,2) 2(1,2) by simp_all
  note c = called_cells_map [OF r, of ca a prov]
  show ?thesis
  proof (cases l)
    case None
    with 1(4) 2(4) same show ?thesis by simp
  next
    case (Some labels)
    then have "\<not> y" using 2(5) same f(4) by blast
    moreover have "\<not> x" if "st_stamped_labels (held_state a w) \<in> {None, Some labels}" using 1(5) Some that by blast
    ultimately show ?thesis using 1(1,4) 2(4) same Some msg(2) called_cells_sans_labels unfolding c by auto
  qed
next
  case False
  have "v = w'" if "handle_asset_element_telemetry ca config key decoded w' = (Inr x, v)" for x v w'
    using that by (cases rule: handle_cases) (use False in auto)
  with assms(2,3) have "w1 = w" "w2 = forgotten w" by blast+
  then show ?thesis by (simp add: forgotten_def)
qed

text \<open>
  The sample call, from a held state stamped with old labels and from none: the same cell but for its labels. From a
  held state stamped with the labels of the record: the same cell.
\<close>

abbreviation current_world :: element_world where
  "current_world \<equiv> sample_world [(''a1'', sample_held\<lparr>st_stamped_labels := Some sample_labels\<rparr>)]"

lemma current_coherent: "coherent current_world"
  using held_mirrors [OF sample_coherent, of "''a1''"]
  by (auto simp: coherent_but_def sample_world_def sample_held_def held_state_def mirrors_def fetch_element_state_def)

theorem restart_transparent_witness:
  "map_option sans_labels (map_of (ew_cells (snd (sample_handle Committed held_world))) (''a1'', ''mast''))
     = map_option sans_labels (map_of (ew_cells (snd (sample_handle Committed (sample_world [])))) (''a1'', ''mast''))
   \<and> map_of (ew_cells (snd (sample_handle Committed current_world))) (''a1'', ''mast'')
     = map_of (ew_cells (snd (sample_handle Committed (sample_world [])))) (''a1'', ''mast'')"
proof -
  have f: "forgotten (sample_world as) = sample_world []" for as by (simp add: forgotten_def sample_world_def)
  have "fst (sample_handle Committed current_world) = Inr ElWritten" by code_simp
  note current = handle_pair [OF this]
  have "st_stamped_labels (held_state ''a1'' current_world) = Some sample_labels"
    by (simp add: held_state_def sample_world_def)
  with restart_transparent [OF held_coherent handle_pair [OF sample_written(2)], unfolded f, OF handle_pair [OF sample_written(1)]]
    restart_transparent [OF current_coherent current, unfolded f, OF handle_pair [OF sample_written(1)]]
  show ?thesis by (simp add: sample_fields(1,4))
qed

end
