(* ===== verification/Feed.thy ===== *)
theory Feed
  imports Telemetry_Batches
begin

text \<open>
  A topic from its log to its table: the turns of \<open>ConsumerWorker.run\<close> over a log, with the position, the
  committed offset and the store in one state. A turn drains, coalesces, persists and commits; the commit may
  fail, and the process may die at any message of a turn and start again at the committed offset. Each
  turn handles its messages at its own clock: the environments of a turn are any of the set \<open>E\<close>. What
  results is said of topics whose key names the row: whatever happened, the table follows the log.
\<close>

section \<open>The turns\<close>

record feed =
  fd_position :: nat
  fd_committed :: nat
  fd_store :: store

inductive feed_step ::
  "worker \<Rightarrow> (pg_write \<Rightarrow> bool) \<Rightarrow> (string \<Rightarrow> row) \<Rightarrow> env set \<Rightarrow> message list \<Rightarrow> nat \<Rightarrow> nat \<Rightarrow> feed \<Rightarrow> feed \<Rightarrow> bool"
  for wk accepts schema E lg mx cap where
  turn: "0 < a \<Longrightarrow> a \<le> cap \<Longrightarrow> fd_position s + a \<le> length lg \<Longrightarrow> range envs \<subseteq> E \<Longrightarrow>
     offsets_polled mx (fd_position s) a = (batch, new) \<Longrightarrow>
     run_turn wk envs accepts schema (map ((!) lg) batch) (fd_store s) = ((None, True), st) \<Longrightarrow>
     feed_step wk accepts schema E lg mx cap s \<lparr>fd_position = new, fd_committed = new, fd_store = st\<rparr>"
| commit_failed: "0 < a \<Longrightarrow> a \<le> cap \<Longrightarrow> fd_position s + a \<le> length lg \<Longrightarrow> range envs \<subseteq> E \<Longrightarrow>
     offsets_polled mx (fd_position s) a = (batch, new) \<Longrightarrow>
     run_turn wk envs accepts schema (map ((!) lg) batch) (fd_store s) = ((None, True), st) \<Longrightarrow>
     feed_step wk accepts schema E lg mx cap s \<lparr>fd_position = new, fd_committed = fd_committed s, fd_store = st\<rparr>"
| crash: "0 < a \<Longrightarrow> a \<le> cap \<Longrightarrow> fd_position s + a \<le> length lg \<Longrightarrow> range envs \<subseteq> E \<Longrightarrow>
     offsets_polled mx (fd_position s) a = (batch, new) \<Longrightarrow>
     persist_all wk envs accepts schema (take n (coalesce_batch (wk_mode wk) (filter (\<lambda>m. msg_error m = None) (map ((!) lg) batch))))
       (fd_store s) = (x, st) \<Longrightarrow>
     feed_step wk accepts schema E lg mx cap s
       \<lparr>fd_position = fd_committed s, fd_committed = fd_committed s, fd_store = st\<rparr>"

inductive feed_reach ::
  "worker \<Rightarrow> (pg_write \<Rightarrow> bool) \<Rightarrow> (string \<Rightarrow> row) \<Rightarrow> env set \<Rightarrow> message list \<Rightarrow> nat \<Rightarrow> nat \<Rightarrow> feed \<Rightarrow> feed \<Rightarrow> bool"
  for wk accepts schema E lg mx cap where
  start: "feed_reach wk accepts schema E lg mx cap s s"
| next_step: "feed_reach wk accepts schema E lg mx cap s s' \<Longrightarrow> feed_step wk accepts schema E lg mx cap s' s'' \<Longrightarrow>
     feed_reach wk accepts schema E lg mx cap s s''"

section \<open>Topics whose key names the row\<close>

text \<open>
  Every message of the log is written, at any clock, by a well-formed upsert of the table; two messages have
  the same Kafka key exactly when their writes have the same row, and then each names the columns of the other.
\<close>

definition row_feed ::
  "worker \<Rightarrow> env set \<Rightarrow> (pg_write \<Rightarrow> bool) \<Rightarrow> (string \<Rightarrow> row) \<Rightarrow> string \<Rightarrow> string list \<Rightarrow> (env \<Rightarrow> message \<Rightarrow> pg_write) \<Rightarrow> message list \<Rightarrow> bool" where
  "row_feed wk E accepts schema tbl ks wr lg \<longleftrightarrow>
     (\<forall>m\<in>set lg. msg_error m = None \<and> (\<forall>e\<in>E. message_write wk e m = Some (wr e m) \<and> accepts (wr e m)
        \<and> w_table (wr e m) = tbl \<and> ok_write (schema tbl) ks (wr e m)))
     \<and> (\<forall>m\<in>set lg. \<forall>n\<in>set lg. \<forall>e\<in>E. \<forall>f\<in>E.
         (write_key (wr e m) = write_key (wr f n) \<longleftrightarrow> msg_key m = msg_key n)
         \<and> (msg_key m = msg_key n \<longrightarrow> covers_write (wr e m) (wr f n)))"

text \<open>The messages of a row, and the row after the first \<open>n\<close> messages of the log: that of the newest.\<close>

definition hits :: "env set \<Rightarrow> (env \<Rightarrow> message \<Rightarrow> pg_write) \<Rightarrow> py list \<Rightarrow> message \<Rightarrow> bool" where
  "hits E wr kv m \<longleftrightarrow> (\<exists>e\<in>E. write_key (wr e m) = kv)"

definition row_after ::
  "env set \<Rightarrow> row \<Rightarrow> (env \<Rightarrow> message \<Rightarrow> pg_write) \<Rightarrow> message list \<Rightarrow> py list \<Rightarrow> row option \<Rightarrow> nat \<Rightarrow> row option \<Rightarrow> bool" where
  "row_after E dflt wr lg kv before n r \<longleftrightarrow>
     (let ms = filter (hits E wr kv) (take n lg) in
      if ms = [] then r = before else (\<exists>e\<in>E. r = merge_row dflt (wr e (last ms)) before))"

lemma feed_batch:
  assumes "row_feed wk E accepts schema tbl ks wr lg" "set ms \<subseteq> set lg" "range envs \<subseteq> E"
  shows "table_batch wk envs accepts schema tbl ks (\<lambda>m. wr (envs m) m) ms"
    "list_all (\<lambda>m. list_all (\<lambda>n. write_key (wr (envs m) m) = write_key (wr (envs n) n) \<longleftrightarrow> msg_key m = msg_key n) ms) ms"
  using assms unfolding row_feed_def table_batch_def list_all_iff by blast+

lemma hits_key:
  assumes "row_feed wk E accepts schema tbl ks wr lg" "m \<in> set lg" "e \<in> E"
  shows "hits E wr kv m \<longleftrightarrow> write_key (wr e m) = kv"
  using assms unfolding row_feed_def hits_def by metis

text \<open>Persisting messages of the log, seen from one row: the newest decides.\<close>

lemma persist_rows:
  assumes wk: "sound_worker wk" and feed: "row_feed wk E accepts schema tbl ks wr lg"
    and ms: "set ms \<subseteq> set lg" "range envs \<subseteq> E"
  obtains st' where "persist_all wk envs accepts schema ms st = (None, st')"
    "\<And>kv. lookup_row ks (st' tbl) kv = (let fs = filter (hits E wr kv) ms in
       if fs = [] then lookup_row ks (st tbl) kv
       else merge_row (schema tbl) (wr (envs (last fs)) (last fs)) (lookup_row ks (st tbl) kv))"
    "\<And>t. t \<noteq> tbl \<Longrightarrow> st' t = st t"
proof -
  let ?wr = "\<lambda>m. wr (envs m) m"
  note b = feed_batch(1) [OF feed ms]
  obtain st' where st': "persist_all wk envs accepts schema ms st = (None, st')"
    "\<And>kv. lookup_row ks (st' tbl) kv
       = fold (merge_row (schema tbl)) (map ?wr (filter (\<lambda>m. write_key (?wr m) = kv) ms)) (lookup_row ks (st tbl) kv)"
    "\<And>t. t \<noteq> tbl \<Longrightarrow> st' t = st t" using persist_table_batch [OF wk b] by blast
  have f: "filter (\<lambda>m. write_key (?wr m) = kv) ms = filter (hits E wr kv) ms" for kv
    by (rule filter_cong [OF refl]) (use hits_key [OF feed] ms in blast)
  have "fold (merge_row (schema tbl)) (map ?wr (filter (hits E wr kv) ms)) x
      = merge_row (schema tbl) (?wr (last (filter (hits E wr kv) ms))) x" if ne: "filter (hits E wr kv) ms \<noteq> []" for kv x
  proof -
    let ?fs = "filter (hits E wr kv) ms"
    have "last ?fs \<in> set (filter (\<lambda>m. write_key (?wr m) = kv) ms)" unfolding f by (rule last_in_set [OF ne])
    then have l: "last ?fs \<in> set ms" "write_key (?wr (last ?fs)) = kv" by simp_all
    have "fold (merge_row (schema tbl)) (map ?wr ?fs) x = merge_row (schema tbl) (last (map ?wr ?fs)) x"
    proof (rule pgo.merge_last [where k = kv])
      show "\<forall>w \<in> set (map ?wr ?fs). ok_write (schema tbl) ks w \<and> write_key w = kv \<and> covers_write (last (map ?wr ?fs)) w"
        using b l unfolding table_batch_def list_all_iff f [symmetric] last_map [OF ne [folded f]] by auto
    qed (use ne in simp)
    then show ?thesis by (simp add: last_map [OF ne])
  qed
  then show ?thesis by (intro that [OF st'(1) _ st'(3)]) (simp add: st'(2) f Let_def)
qed

lemma turn_rows:
  assumes wk: "sound_worker wk" and feed: "row_feed wk E accepts schema tbl ks wr lg"
    and ms: "set ms \<subseteq> set lg" "range envs \<subseteq> E" "ms \<noteq> []"
  obtains st' where "run_turn wk envs accepts schema ms st = ((None, True), st')"
    "\<And>kv. lookup_row ks (st' tbl) kv = (let fs = filter (hits E wr kv) ms in
       if fs = [] then lookup_row ks (st tbl) kv
       else merge_row (schema tbl) (wr (envs (last fs)) (last fs)) (lookup_row ks (st tbl) kv))"
    "\<And>t. t \<noteq> tbl \<Longrightarrow> st' t = st t"
proof -
  have real: "filter (\<lambda>m. msg_error m = None) ms = ms"
    using feed ms(1) by (intro filter_True) (auto simp: row_feed_def)
  note b = feed_batch [OF feed ms(1,2)]
  obtain st1 where 1: "persist_all wk envs accepts schema ms st = (None, st1)"
    "\<And>kv. lookup_row ks (st1 tbl) kv = (let fs = filter (hits E wr kv) ms in
       if fs = [] then lookup_row ks (st tbl) kv
       else merge_row (schema tbl) (wr (envs (last fs)) (last fs)) (lookup_row ks (st tbl) kv))"
    "\<And>t. t \<noteq> tbl \<Longrightarrow> st1 t = st t"
    using persist_rows [OF wk feed ms(1,2)] by blast
  obtain st2 where "persist_all wk envs accepts schema (coalesce_batch (wk_mode wk) ms) st = (None, st2)"
    "\<And>kv. lookup_row ks (st2 tbl) kv = lookup_row ks (st1 tbl) kv" "\<And>t. t \<noteq> tbl \<Longrightarrow> st2 t = st1 t"
  proof (cases "wk_mode wk = ''upsert''")
    case True
    with coalescing_safe [OF wk b, of st] 1(1) that show ?thesis by auto
  qed (use 1(1) that [of st1] in \<open>simp add: coalesce_batch_def\<close>)
  with 1(2,3) ms(3) real show ?thesis by (intro that [of st2]) (simp_all add: run_turn_def)
qed

section \<open>The table follows the log\<close>

text \<open>No row is behind the position, and none shows anything but the row after some prefix of the log.\<close>

definition follows ::
  "env set \<Rightarrow> (string \<Rightarrow> row) \<Rightarrow> string \<Rightarrow> string list \<Rightarrow> (env \<Rightarrow> message \<Rightarrow> pg_write) \<Rightarrow> message list \<Rightarrow> store \<Rightarrow> nat \<Rightarrow> store \<Rightarrow> bool" where
  "follows E schema tbl ks wr lg st0 p st \<longleftrightarrow>
     (\<forall>kv. \<exists>n. p \<le> n \<and> n \<le> length lg
        \<and> row_after E (schema tbl) wr lg kv (lookup_row ks (st0 tbl) kv) n (lookup_row ks (st tbl) kv))
     \<and> (\<forall>t. t \<noteq> tbl \<longrightarrow> st t = st0 t)"

lemma follows_mono: "follows E schema tbl ks wr lg st0 p st \<Longrightarrow> q \<le> p \<Longrightarrow> follows E schema tbl ks wr lg st0 q st"
  unfolding follows_def by (meson le_trans)

lemma map_nth_upt: "p + a \<le> length xs \<Longrightarrow> map ((!) xs) [p..<p + a] = take a (drop p xs)"
  by (rule nth_equalityI) auto

text \<open>The row after a prefix, overwritten by a later message of its own.\<close>

lemma row_after_overwrite:
  assumes feed: "row_feed wk E accepts schema tbl ks wr lg" and e: "e \<in> E" "m \<in> set lg" "hits E wr kv m"
    and old: "row_after E (schema tbl) wr lg kv x n r"
    and new: "filter (hits E wr kv) (take k lg) \<noteq> []" "last (filter (hits E wr kv) (take k lg)) = m"
  shows "row_after E (schema tbl) wr lg kv x k (merge_row (schema tbl) (wr e m) r)"
proof -
  have "merge_row (schema tbl) (wr e m) r = merge_row (schema tbl) (wr e m) x"
  proof (cases "filter (hits E wr kv) (take n lg) = []")
    case False
    let ?l = "last (filter (hits E wr kv) (take n lg))"
    from old False obtain f where f: "f \<in> E" "r = merge_row (schema tbl) (wr f ?l) x"
      by (auto simp: row_after_def Let_def)
    have l: "?l \<in> set lg" "hits E wr kv ?l" using last_in_set [OF False] set_take_subset [of n lg] by auto
    then have "write_key (wr e m) = write_key (wr f ?l)" using hits_key [OF feed] e f(1) by metis
    then have "covers_write (wr e m) (wr f ?l)" using feed e(1,2) f(1) l(1) unfolding row_feed_def by blast
    moreover have "ok_write (schema tbl) ks (wr e m)" "ok_write (schema tbl) ks (wr f ?l)"
      using feed e(1,2) f(1) l(1) by (auto simp: row_feed_def)
    ultimately show ?thesis by (simp add: f(2) merge_row_covered)
  qed (use old in \<open>simp add: row_after_def\<close>)
  with e(1) new show ?thesis by (auto simp: row_after_def Let_def)
qed

text \<open>A batch from the position: its newest messages, or any part of it.\<close>

lemma batch_hits:
  assumes "p + a \<le> length lg" "ms = take a (drop p lg)"
  shows "filter (hits E wr kv) (take (p + a) lg) = filter (hits E wr kv) (take p lg) @ filter (hits E wr kv) ms"
  using assms by (simp add: take_add)

lemma follows_turn:
  assumes feed: "row_feed wk E accepts schema tbl ks wr lg" "range envs \<subseteq> E"
    and batch: "p + a \<le> length lg" "ms = take a (drop p lg)"
    and old: "follows E schema tbl ks wr lg st0 p st"
    and rows: "\<And>kv. lookup_row ks (st' tbl) kv = (let fs = filter (hits E wr kv) ms in
       if fs = [] then lookup_row ks (st tbl) kv
       else merge_row (schema tbl) (wr (envs (last fs)) (last fs)) (lookup_row ks (st tbl) kv))"
    and others: "\<And>t. t \<noteq> tbl \<Longrightarrow> st' t = st t"
  shows "follows E schema tbl ks wr lg st0 (p + a) st'"
  unfolding follows_def
proof (intro conjI allI impI)
  fix kv
  let ?x = "lookup_row ks (st0 tbl) kv" and ?f = "filter (hits E wr kv)"
  from old obtain n where n: "p \<le> n" "n \<le> length lg" "row_after E (schema tbl) wr lg kv ?x n (lookup_row ks (st tbl) kv)"
    by (auto simp: follows_def)
  show "\<exists>n. p + a \<le> n \<and> n \<le> length lg \<and> row_after E (schema tbl) wr lg kv ?x n (lookup_row ks (st' tbl) kv)"
  proof (cases "?f ms = []")
    case False
    let ?l = "last (?f ms)"
    have l: "?l \<in> set lg" "hits E wr kv ?l"
      using last_in_set [OF False] batch(2) by (auto dest: in_set_takeD in_set_dropD)
    have "row_after E (schema tbl) wr lg kv ?x (p + a) (merge_row (schema tbl) (wr (envs ?l) ?l) (lookup_row ks (st tbl) kv))"
      by (rule row_after_overwrite [OF feed(1) _ l n(3)])
        (use feed(2) False in \<open>auto simp: batch_hits [OF batch]\<close>)
    with False batch(1) rows [of kv] show ?thesis by (intro exI [of _ "p + a"]) (simp add: Let_def)
  next
    case True
    have "row_after E (schema tbl) wr lg kv ?x (max n (p + a)) (lookup_row ks (st tbl) kv)"
    proof (cases "n < p + a")
      case less: True
      have "take n lg = take p lg @ take (n - p) ms"
        using n(1) less batch by (simp add: take_add [symmetric] min_def)
      moreover have "?f (take (n - p) ms) = []"
        using True by (auto simp: filter_empty_conv dest: in_set_takeD)
      ultimately have "?f (take n lg) = ?f (take (p + a) lg)" using True by (simp add: batch_hits [OF batch])
      with n(3) less show ?thesis by (simp add: row_after_def max_def)
    qed (use n(3) in \<open>simp add: max_def\<close>)
    with True n(2) batch(1) rows [of kv] show ?thesis by (intro exI [of _ "max n (p + a)"]) (simp add: Let_def)
  qed
next
  fix t assume "t \<noteq> tbl"
  with others old show "st' t = st0 t" by (simp add: follows_def)
qed

lemma follows_part:
  assumes feed: "row_feed wk E accepts schema tbl ks wr lg" "range envs \<subseteq> E"
    and batch: "p + a \<le> length lg" "ms = take a (drop p lg)" "set part \<subseteq> set ms"
    and old: "follows E schema tbl ks wr lg st0 p st"
    and rows: "\<And>kv. lookup_row ks (st' tbl) kv = (let fs = filter (hits E wr kv) part in
       if fs = [] then lookup_row ks (st tbl) kv
       else merge_row (schema tbl) (wr (envs (last fs)) (last fs)) (lookup_row ks (st tbl) kv))"
    and others: "\<And>t. t \<noteq> tbl \<Longrightarrow> st' t = st t"
  shows "follows E schema tbl ks wr lg st0 p st'"
  unfolding follows_def
proof (intro conjI allI impI)
  fix kv
  let ?x = "lookup_row ks (st0 tbl) kv" and ?f = "filter (hits E wr kv)"
  from old obtain n where n: "p \<le> n" "n \<le> length lg" "row_after E (schema tbl) wr lg kv ?x n (lookup_row ks (st tbl) kv)"
    by (auto simp: follows_def)
  show "\<exists>n. p \<le> n \<and> n \<le> length lg \<and> row_after E (schema tbl) wr lg kv ?x n (lookup_row ks (st' tbl) kv)"
  proof (cases "?f part = []")
    case False
    let ?l = "last (?f part)"
    have l: "?l \<in> set ms" "hits E wr kv ?l" using last_in_set [OF False] batch(3) by auto
    from l(1) obtain i where i: "i < length ms" "ms ! i = ?l" by (auto simp: in_set_conv_nth)
    have "i < a" using i(1) batch by simp
    then have fits: "p + Suc i \<le> length lg" "take (Suc i) ms = take (Suc i) (drop p lg)" using batch by (simp_all add: min_def)
    have last: "take (Suc i) ms = take i ms @ [?l]" using i by (simp add: take_Suc_conv_app_nth)
    have h: "?f (take (p + Suc i) lg) = ?f (take p lg) @ ?f (take i ms) @ [?l]"
      unfolding batch_hits [OF fits(1) fits(2)] last using l(2) by simp
    have "row_after E (schema tbl) wr lg kv ?x (p + Suc i)
        (merge_row (schema tbl) (wr (envs ?l) ?l) (lookup_row ks (st tbl) kv))"
      by (rule row_after_overwrite [OF feed(1) _ _ l(2) n(3)], unfold h)
        (use feed(2) l(1) batch(2) in \<open>auto dest: in_set_takeD in_set_dropD\<close>)
    with False fits(1) rows [of kv] show ?thesis by (intro exI [of _ "p + Suc i"]) (simp add: Let_def)
  qed (use n rows [of kv] in \<open>auto simp: Let_def\<close>)
next
  fix t assume "t \<noteq> tbl"
  with others old show "st' t = st0 t" by (simp add: follows_def)
qed

definition feed_ok ::
  "env set \<Rightarrow> (string \<Rightarrow> row) \<Rightarrow> string \<Rightarrow> string list \<Rightarrow> (env \<Rightarrow> message \<Rightarrow> pg_write) \<Rightarrow> message list \<Rightarrow> store \<Rightarrow> feed \<Rightarrow> bool" where
  "feed_ok E schema tbl ks wr lg st0 s \<longleftrightarrow> fd_committed s \<le> fd_position s \<and> fd_position s \<le> length lg
     \<and> follows E schema tbl ks wr lg st0 (fd_position s) (fd_store s)"

lemma turn_batch:
  assumes "0 < a" "a \<le> mx" "p + a \<le> length lg" "offsets_polled mx p a = (batch, new)"
  shows "new = p + a" "map ((!) lg) batch = take a (drop p lg)" "map ((!) lg) batch \<noteq> []" "set (map ((!) lg) batch) \<subseteq> set lg"
proof -
  have b: "batch = [p..<p + a]" "new = p + a" using assms offsets_polled_fits [of a mx p] by auto
  then show "new = p + a" "map ((!) lg) batch = take a (drop p lg)" using map_nth_upt [OF assms(3)] by simp_all
  then show "map ((!) lg) batch \<noteq> []" "set (map ((!) lg) batch) \<subseteq> set lg"
    using assms(1,3) by (auto dest: in_set_takeD in_set_dropD)
qed

text \<open>The turn of a step, committed or not.\<close>

lemma feed_turn:
  assumes wk: "sound_worker wk" and feed: "row_feed wk E accepts schema tbl ks wr lg" and mx: "cap \<le> mx"
    and turn: "0 < a" "a \<le> cap" "p + a \<le> length lg" "range envs \<subseteq> E" "offsets_polled mx p a = (batch, new)"
    and run: "run_turn wk envs accepts schema (map ((!) lg) batch) st0' = ((None, True), st)"
    and old: "follows E schema tbl ks wr lg st0 p st0'"
  shows "new = p + a \<and> follows E schema tbl ks wr lg st0 new st"
proof -
  note b = turn_batch [OF turn(1) le_trans [OF turn(2) mx] turn(3,5)]
  obtain st' where st': "run_turn wk envs accepts schema (map ((!) lg) batch) st0' = ((None, True), st')"
    "\<And>kv. lookup_row ks (st' tbl) kv = (let fs = filter (hits E wr kv) (map ((!) lg) batch) in
       if fs = [] then lookup_row ks (st0' tbl) kv
       else merge_row (schema tbl) (wr (envs (last fs)) (last fs)) (lookup_row ks (st0' tbl) kv))"
    "\<And>t. t \<noteq> tbl \<Longrightarrow> st' t = st0' t"
    using turn_rows [OF wk feed b(4) turn(4) b(3)] by blast
  have "follows E schema tbl ks wr lg st0 (p + a) st'"
    by (rule follows_turn [OF feed turn(4,3) b(2) old]) (use st'(2,3) in blast)+
  with run st'(1) b(1) show ?thesis by simp
qed

lemma feed_ok_step:
  assumes wk: "sound_worker wk" and feed: "row_feed wk E accepts schema tbl ks wr lg" and mx: "cap \<le> mx"
    and step: "feed_step wk accepts schema E lg mx cap s s'" and ok: "feed_ok E schema tbl ks wr lg st0 s"
  shows "feed_ok E schema tbl ks wr lg st0 s'"
proof -
  have old: "follows E schema tbl ks wr lg st0 (fd_position s) (fd_store s)" using ok by (simp add: feed_ok_def)
  from step show ?thesis
  proof cases
    case (turn a envs batch new st)
    with feed_turn [OF wk feed mx turn(2-7) old] show ?thesis by (auto simp: feed_ok_def)
  next
    case (commit_failed a envs batch new st)
    with feed_turn [OF wk feed mx commit_failed(2-7) old] ok show ?thesis by (auto simp: feed_ok_def)
  next
    case (crash a envs batch new n x st)
    let ?ms = "map ((!) lg) batch"
    let ?part = "take n (coalesce_batch (wk_mode wk) (filter (\<lambda>m. msg_error m = None) ?ms))"
    note b = turn_batch [OF crash(2) le_trans [OF crash(3) mx] crash(4,6)]
    have part: "set ?part \<subseteq> set ?ms"
      using coalesced_subset [of "wk_mode wk" "filter (\<lambda>m. msg_error m = None) ?ms"] by (auto dest: in_set_takeD)
    obtain st' where st': "persist_all wk envs accepts schema ?part (fd_store s) = (None, st')"
      "\<And>kv. lookup_row ks (st' tbl) kv = (let fs = filter (hits E wr kv) ?part in
         if fs = [] then lookup_row ks (fd_store s tbl) kv
         else merge_row (schema tbl) (wr (envs (last fs)) (last fs)) (lookup_row ks (fd_store s tbl) kv))"
      "\<And>t. t \<noteq> tbl \<Longrightarrow> st' t = fd_store s t"
      using persist_rows [OF wk feed subset_trans [OF part b(4)] crash(5)] by blast
    have "follows E schema tbl ks wr lg st0 (fd_position s) st'"
      by (rule follows_part [OF feed crash(5,4) b(2) part old]) (use st'(2,3) in blast)+
    with crash(1,7) st'(1) ok follows_mono show ?thesis by (auto simp: feed_ok_def)
  qed
qed

lemma feed_ok_reach:
  assumes "feed_reach wk accepts schema E lg mx cap s s'" "sound_worker wk" "row_feed wk E accepts schema tbl ks wr lg" "cap \<le> mx"
    "feed_ok E schema tbl ks wr lg st0 s"
  shows "feed_ok E schema tbl ks wr lg st0 s'"
  using assms by (induction rule: feed_reach.induct) (auto intro: feed_ok_step)

lemma feed_starts: "feed_ok E schema tbl ks wr lg st0 \<lparr>fd_position = 0, fd_committed = 0, fd_store = st0\<rparr>"
  unfolding feed_ok_def follows_def by (auto simp: row_after_def intro!: exI [of _ 0])

lemma feed_progress:
  assumes wk: "sound_worker wk" and feed: "row_feed wk E accepts schema tbl ks wr lg" and cap: "0 < cap" "cap \<le> mx"
    and p: "fd_position s < length lg" and e: "e \<in> E"
  shows "\<exists>s'. feed_step wk accepts schema E lg mx cap s s' \<and> fd_position s < fd_position s' \<and> fd_committed s' = fd_position s'"
proof -
  have o: "offsets_polled mx (fd_position s) 1 = ([fd_position s..<fd_position s + 1], fd_position s + 1)"
    using cap by (intro offsets_polled_fits) auto
  let ?ms = "map ((!) lg) [fd_position s..<fd_position s + 1]"
  have ms: "set ?ms \<subseteq> set lg" "range (\<lambda>_. e) \<subseteq> E" "?ms \<noteq> []" using p e by auto
  obtain st where "run_turn wk (\<lambda>_. e) accepts schema ?ms (fd_store s) = ((None, True), st)"
    using turn_rows [OF wk feed ms] by blast
  from feed_step.turn [OF _ _ _ _ o this, of cap E] cap p e show ?thesis by (intro exI conjI) auto
qed

text \<open>
  C4. The table follows the log, while no poll window holds more messages than a batch (a fuller one drops a message, as
  \<open>Delivery\<close> shows). On a topic whose key names the row, whatever such turns, failed commits and deaths inside a turn
  happen, at whatever clocks: each row is the one after some
  prefix of the log, never one before the committed offset or the position; so once the log is drained each row
  is that of its newest message, as if every message had been handled once; no other table is touched; and
  a turn that gets further is always possible.
\<close>

theorem table_follows_log:
  assumes "sound_worker wk" "row_feed wk E accepts schema tbl ks wr lg" "0 < cap" "cap \<le> mx" "e \<in> E"
    and "feed_reach wk accepts schema E lg mx cap \<lparr>fd_position = 0, fd_committed = 0, fd_store = st0\<rparr> s"
  shows "fd_committed s \<le> fd_position s \<and> follows E schema tbl ks wr lg st0 (fd_position s) (fd_store s)
    \<and> (fd_position s = length lg \<longrightarrow>
        row_after E (schema tbl) wr lg kv (lookup_row ks (st0 tbl) kv) (length lg) (lookup_row ks (fd_store s tbl) kv))
    \<and> (fd_position s < length lg \<longrightarrow> (\<exists>s'. feed_step wk accepts schema E lg mx cap s s'
        \<and> fd_position s < fd_position s' \<and> fd_committed s' = fd_position s'))"
proof -
  have ok: "feed_ok E schema tbl ks wr lg st0 s" by (rule feed_ok_reach [OF assms(6,1,2,4) feed_starts])
  then have f: "follows E schema tbl ks wr lg st0 (fd_position s) (fd_store s)" by (simp add: feed_ok_def)
  have "row_after E (schema tbl) wr lg kv (lookup_row ks (st0 tbl) kv) (length lg) (lookup_row ks (fd_store s tbl) kv)"
    if "fd_position s = length lg"
    using f that unfolding follows_def by (metis le_antisym)
  with ok f feed_progress [OF assms(1-4) _ assms(5), of s] show ?thesis by (simp add: feed_ok_def)
qed

section \<open>An example\<close>

text \<open>Two counts of one part, handled at two clocks: a death after the first message, then both in one turn.\<close>

definition later_env :: env where
  "later_env = sample_env\<lparr>e_now := 1767225700000000\<rparr>"

definition part_write_at :: "env \<Rightarrow> message \<Rightarrow> pg_write" where
  "part_write_at e m = written (handle_parts_availability e ''a'' (parts_of (the (msg_value m))))"

abbreviation part_log :: "message list" where
  "part_log \<equiv> [sample_message ''four'', sample_message ''five'']"

abbreviation part_clocks :: "env set" where
  "part_clocks \<equiv> {sample_env, later_env}"

definition part_answer :: "env \<Rightarrow> string \<Rightarrow> int \<Rightarrow> bool" where
  "part_answer e v n \<longleftrightarrow> (case handle_parts_availability e ''a'' (parts_of v) of
     Inr (Wrote w) \<Rightarrow> write_key w = [PStr ''s'', PStr ''p''] \<and> w_revive w = None \<and> w_mode w = ''upsert''
       \<and> map fst (w_row w) = map fst (w_row (part_write_at sample_env (sample_message ''four'')))
       \<and> overlay (w_row w) (\<lambda>_. PNone) ''on_hand'' = PInt n
   | _ \<Rightarrow> False)"

lemma part_answers:
  "part_answer sample_env ''four'' 4" "part_answer sample_env ''five'' 5"
  "part_answer later_env ''four'' 4" "part_answer later_env ''five'' 5"
  by code_simp+

lemma part_answerD:
  assumes "part_answer e v n"
  shows "handle_parts_availability e ''a'' (parts_of v) = Inr (Wrote (part_write_at e (sample_message v)))"
    "write_key (part_write_at e (sample_message v)) = [PStr ''s'', PStr ''p'']"
    "w_revive (part_write_at e (sample_message v)) = None" "w_mode (part_write_at e (sample_message v)) = ''upsert''"
    "map fst (w_row (part_write_at e (sample_message v))) = map fst (w_row (part_write_at sample_env (sample_message ''four'')))"
    "overlay (w_row (part_write_at e (sample_message v))) (\<lambda>_. PNone) ''on_hand'' = PInt n"
  using assms unfolding part_answer_def part_write_at_def [of e]
  by (simp_all split: sum.splits answer.splits add: sample_message_def written_def)

lemma part_logged:
  assumes "e \<in> part_clocks" "m \<in> set part_log"
  obtains v n where "m = sample_message v" "part_answer e v n"
  using assms part_answers by auto

lemma part_message_write:
  assumes "part_answer e v n"
  shows "message_write parts_worker e (sample_message v) = Some (part_write_at e (sample_message v))"
  using answered [OF part_answerD(1) [OF assms]]
  by (simp add: message_write_def sample_key) (simp add: parts_worker_def sample_message_def decode_json_def)

lemma part_log_feed:
  "row_feed parts_worker part_clocks (\<lambda>_. True) (\<lambda>_ _. PNone) ''parts_availability'' [''site'', ''part_ref''] part_write_at part_log"
proof -
  have one: "message_write parts_worker e m = Some (part_write_at e m) \<and> w_table (part_write_at e m) = ''parts_availability''
      \<and> ok_write (\<lambda>_. PNone) [''site'', ''part_ref''] (part_write_at e m)
      \<and> write_key (part_write_at e m) = [PStr ''s'', PStr ''p''] \<and> w_mode (part_write_at e m) = ''upsert''
      \<and> w_revive (part_write_at e m) = None
      \<and> map fst (w_row (part_write_at e m)) = map fst (w_row (part_write_at sample_env (sample_message ''four'')))
      \<and> msg_error m = None \<and> msg_key m = Some ''a''"
    if em: "e \<in> part_clocks" "m \<in> set part_log" for e m
  proof -
    obtain v n where v: "m = sample_message v" "part_answer e v n" using part_logged [OF em] by blast
    note a = part_answerD [OF v(2)]
    show ?thesis using part_message_write [OF v(2)] parts_handler_wf [OF a(1)] a(2-5)
      by (simp add: v(1) ok_write_def) (simp add: sample_message_def)
  qed
  have cols: "fst ` set (w_row (part_write_at e m)) = fst ` set (w_row (part_write_at sample_env (sample_message ''four'')))"
    if "e \<in> part_clocks" "m \<in> set part_log" for e m
    using one [OF that] by (metis list.set_map)
  show ?thesis unfolding row_feed_def
  proof (intro conjI ballI)
    fix m n e f assume a: "m \<in> set part_log" "n \<in> set part_log" "e \<in> part_clocks" "f \<in> part_clocks"
    note x = one [OF a(3,1)] one [OF a(4,2)]
    show "write_key (part_write_at e m) = write_key (part_write_at f n) \<longleftrightarrow> msg_key m = msg_key n" using x by metis
    show "msg_key m = msg_key n \<longrightarrow> covers_write (part_write_at e m) (part_write_at f n)"
      using x cols [OF a(3,1)] cols [OF a(4,2)] by (simp only: covers_write_def) blast
  qed (use one in blast)+
qed

theorem table_follows_log_witness:
  "\<exists>st. feed_reach parts_worker (\<lambda>_. True) (\<lambda>_ _. PNone) part_clocks part_log 500 10
      \<lparr>fd_position = 0, fd_committed = 0, fd_store = (\<lambda>_. [])\<rparr> \<lparr>fd_position = 2, fd_committed = 2, fd_store = st\<rparr>
    \<and> map_option (\<lambda>r. r ''on_hand'') (lookup_row [''site'', ''part_ref''] (st ''parts_availability'') [PStr ''s'', PStr ''p''])
      = Some (PInt 5)"
proof -
  have polled: "offsets_polled 500 0 2 = ([0..<0 + 2], 0 + 2)" by (rule offsets_polled_fits) simp_all
  have ms: "map ((!) part_log) [0..<0 + 2] = part_log" by (simp add: upt_rec)
  have real: "msg_error (sample_message v) = None" for v by (simp add: sample_message_def)
  have sub: "set part_log \<subseteq> set part_log" "range (\<lambda>_. sample_env) \<subseteq> part_clocks" "part_log \<noteq> []" by auto
  obtain x st1 where crash: "persist_all parts_worker (\<lambda>_. later_env) (\<lambda>_. True) (\<lambda>_ _. PNone)
      (take 1 (coalesce_batch (wk_mode parts_worker) part_log)) (\<lambda>_. []) = (x, st1)" by fastforce
  obtain st where turn: "run_turn parts_worker (\<lambda>_. sample_env) (\<lambda>_. True) (\<lambda>_ _. PNone) part_log st1 = ((None, True), st)"
    using turn_rows [OF parts_worker_sound part_log_feed sub] by blast
  have "feed_step parts_worker (\<lambda>_. True) (\<lambda>_ _. PNone) part_clocks part_log 500 10
      \<lparr>fd_position = 0, fd_committed = 0, fd_store = (\<lambda>_. [])\<rparr> \<lparr>fd_position = 0, fd_committed = 0, fd_store = st1\<rparr>"
    using feed_step.crash [of 2 10 "\<lparr>fd_position = 0, fd_committed = 0, fd_store = (\<lambda>_. [])\<rparr>" part_log "\<lambda>_. later_env" part_clocks
        500 "[0..<0 + 2]" "0 + 2" parts_worker "\<lambda>_. True" "\<lambda>_ _. PNone" 1 x st1] crash polled
    by (simp add: ms real)
  note step1 = feed_reach.next_step [OF feed_reach.start this]
  have "feed_step parts_worker (\<lambda>_. True) (\<lambda>_ _. PNone) part_clocks part_log 500 10
      \<lparr>fd_position = 0, fd_committed = 0, fd_store = st1\<rparr> \<lparr>fd_position = 2, fd_committed = 2, fd_store = st\<rparr>"
    using feed_step.turn [of 2 10 "\<lparr>fd_position = 0, fd_committed = 0, fd_store = st1\<rparr>" part_log "\<lambda>_. sample_env" part_clocks
        500 "[0..<0 + 2]" "0 + 2" parts_worker "\<lambda>_. True" "\<lambda>_ _. PNone" st] turn polled
    by (simp add: ms numeral_2_eq_2)
  note reach = feed_reach.next_step [OF step1 this]
  let ?kv = "[PStr ''s'', PStr ''p'']"
  have "row_after part_clocks (\<lambda>_. PNone) part_write_at part_log ?kv None (length part_log)
      (lookup_row [''site'', ''part_ref''] (st ''parts_availability'') ?kv)"
    using table_follows_log [OF parts_worker_sound part_log_feed _ _ _ reach, of sample_env ?kv] by simp
  moreover have "filter (hits part_clocks part_write_at ?kv) part_log = part_log"
    using part_answerD(2) [OF part_answers(1)] part_answerD(2) [OF part_answers(2)] by (simp add: hits_def)
  ultimately obtain e where e: "e \<in> part_clocks"
    "lookup_row [''site'', ''part_ref''] (st ''parts_availability'') ?kv = merge_row (\<lambda>_. PNone) (part_write_at e (sample_message ''five'')) None"
    by (auto simp: row_after_def)
  then have a: "part_answer e ''five'' 5" using part_answers by auto
  show ?thesis using reach e(2) part_answerD(4,6) [OF a] by (auto simp: merge_row_def)
qed

end
