(* ===== verification/Resupply.thy ===== *)
theory Resupply
  imports Engagement
begin

text \<open>
  The supply ledger: what one ResupplyReceived record adds to \<open>effector_resupply\<close>.
\<close>

section \<open>The totals of a record\<close>

text \<open>The quantities of the valid lines of one munition type.\<close>

definition supplied :: "py list \<Rightarrow> string \<Rightarrow> int list" where
  "supplied lines mt = List.map_filter (\<lambda>l. if line_munition l = Inr mt then supply_quantity l else None) lines"

definition lines_readable :: "py list \<Rightarrow> bool" where
  "lines_readable lines \<longleftrightarrow> list_all (\<lambda>l. supply_quantity l = None \<or> is_ok (line_munition l)) lines"

definition total_in :: "(string \<times> int) list \<Rightarrow> string \<Rightarrow> int" where
  "total_in acc mt = (case map_of acc mt of None \<Rightarrow> 0 | Some n \<Rightarrow> n)"

lemma supplied_simps:
  "supplied [] mt = []"
  "supplied (l # ls) mt = (case supply_quantity l of
      Some q \<Rightarrow> if line_munition l = Inr mt then q # supplied ls mt else supplied ls mt | None \<Rightarrow> supplied ls mt)"
  by (auto simp: supplied_def List.map_filter_def split: option.split)

lemma supply_totals_run:
  assumes "lines_readable lines"
  shows "\<exists>T ns. supply_totals lines acc s = (Inr T, s\<lparr>cs_notes := ns\<rparr>)
    \<and> (distinct (map fst acc) \<longrightarrow> distinct (map fst T))
    \<and> (\<forall>mt. map_of T mt = (if supplied lines mt = [] then map_of acc mt
                             else Some (total_in acc mt + sum_list (supplied lines mt))))"
  using assms
proof (induction lines acc arbitrary: s rule: supply_totals.induct)
  case (1 acc)
  have "s = s\<lparr>cs_notes := cs_notes s\<rparr>" by simp
  then show ?case by (auto simp: io_return_def supplied_simps intro!: exI [of _ "cs_notes s"])
next
  case (2 line lines acc)
  show ?case
  proof (cases "supply_quantity line")
    case None
    from 2(1) [OF None, of "s\<lparr>cs_notes := cs_notes s @ [Refusal ''effector_resupply'' ''bad_quantity'']\<rparr>"] 2(3) None
    show ?thesis by (auto simp: io_bind_def io_note_def lines_readable_def supplied_simps)
  next
    case (Some q)
    with 2(3) obtain mt where mt: "line_munition line = Inr mt"
      by (auto simp: lines_readable_def is_ok_def split: sum.splits)
    let ?acc = "dset acc mt (total_in acc mt + q)"
    have "lines_readable lines" using 2(3) by (simp add: lines_readable_def)
    from 2(2) [OF Some this, of mt s] obtain T ns where
      T: "supply_totals lines ?acc s = (Inr T, s\<lparr>cs_notes := ns\<rparr>)" "distinct (map fst ?acc) \<longrightarrow> distinct (map fst T)"
        "\<forall>mt'. map_of T mt' = (if supplied lines mt' = [] then map_of ?acc mt'
                             else Some (total_in ?acc mt' + sum_list (supplied lines mt')))"
      unfolding total_in_def by blast
    have "supply_totals (line # lines) acc s = (Inr T, s\<lparr>cs_notes := ns\<rparr>)"
      unfolding supply_totals.simps Some option.case io_bind_def io_lift_def mt prod.case sum.case
      using T(1) unfolding total_in_def .
    moreover have "distinct (map fst acc) \<longrightarrow> distinct (map fst T)" using T(2) distinct_dset [of acc] by simp
    moreover have "map_of T mt' = (if supplied (line # lines) mt' = [] then map_of acc mt'
        else Some (total_in acc mt' + sum_list (supplied (line # lines) mt')))" for mt'
      using T(3) [rule_format, of mt'] Some mt
      by (cases "mt' = mt"; cases "supplied lines mt'") (simp_all add: supplied_simps map_of_dset total_in_def)
    ultimately show ?thesis by blast
  qed
qed

section \<open>The rows of a record\<close>

lemma resupply_row_shape:
  assumes "resupply_row ti m t mt q = Inr row" "dget m ''event_urn'' \<noteq> PNone"
  shows "ok_write dflt [''event_urn'', ''munition_type''] (resupply_write row)"
    "write_key (resupply_write row) = [dget m ''event_urn'', PStr mt]"
    "overlay row dflt ''quantity'' = PInt q"
proof -
  from assms(1) obtain origin rel where r: "row =
      [(''event_urn'', dget m ''event_urn''), (''launcher_asset_id'', dget m ''launcher_urn''),
       (''supplier_asset_id'', dget m ''supplier_urn''), (''munition_type'', PStr mt), (''quantity'', PInt q),
       (''received_at'', t)] @ origin @ rel"
      and o: "resolve_provenance_from_dict (ti_env ti) (or_empty (dget m ''provenance'')) = Inr origin"
      and l: "releasability_from (or_empty (dget m ''provenance'')) = Inr rel"
    by (auto simp: resupply_row_def Let_def res_simps)
  have c: "map fst origin = [''edge_id'', ''region_id'']" "label_columns rel"
    using resolve_provenance_columns(1) [OF o] releasability_columns [OF l] by (simp_all add: label_columns_def)
  have "wf_write (resupply_write row)"
    by (rule wf_plain) (use c assms(2) in \<open>auto simp: resupply_write_def r label_columns_def simp flip: set_map\<close>)
  then show "ok_write dflt [''event_urn'', ''munition_type''] (resupply_write row)"
    by (simp add: ok_write_def resupply_write_def)
  show "write_key (resupply_write row) = [dget m ''event_urn'', PStr mt]" by (simp add: write_key_def resupply_write_def r)
  have "''quantity'' \<notin> fst ` set (origin @ rel)"
    using c by (auto simp: label_columns_def simp flip: set_map)
  then show "overlay row dflt ''quantity'' = PInt q" by (simp add: r overlay_def map_add_def)
qed

definition ledger :: "store \<Rightarrow> py \<Rightarrow> string \<Rightarrow> row option" where
  "ledger st e mt = lookup_row [''event_urn'', ''munition_type''] (st ''effector_resupply'') [e, PStr mt]"

definition rows_built :: "tier \<Rightarrow> dict \<Rightarrow> py \<Rightarrow> bool" where
  "rows_built ti m t \<longleftrightarrow> (\<forall>mt q. \<exists>row. resupply_row ti m t mt q = Inr row \<and> ti_accepts ti (resupply_write row))"

lemma write_supplies_run:
  assumes "rows_built ti m t" "dget m ''event_urn'' \<noteq> PNone" "distinct (map fst T)"
  shows "\<exists>s'. write_supplies ti m t T s = (Inr (), s')
    \<and> (\<forall>tbl. tbl \<noteq> ''effector_resupply'' \<longrightarrow> cs_store s' tbl = cs_store s tbl)
    \<and> (\<forall>mt. (ledger (cs_store s) (dget m ''event_urn'') mt \<noteq> None \<or> map_of T mt = None \<longrightarrow>
          ledger (cs_store s') (dget m ''event_urn'') mt = ledger (cs_store s) (dget m ''event_urn'') mt)
        \<and> (\<forall>q. ledger (cs_store s) (dget m ''event_urn'') mt = None \<longrightarrow> map_of T mt = Some q \<longrightarrow>
          map_option (\<lambda>r. r ''quantity'') (ledger (cs_store s') (dget m ''event_urn'') mt) = Some (PInt q)))"
  using assms(3)
proof (induction T arbitrary: s)
  case (Cons p T)
  obtain mt q where p: "p = (mt, q)" by (cases p)
  let ?e = "dget m ''event_urn''" and ?d = "ti_schema ti ''effector_resupply''"
  from assms(1) obtain row where row: "resupply_row ti m t mt q = Inr row" "ti_accepts ti (resupply_write row)"
    by (auto simp: rows_built_def)
  note shape = resupply_row_shape [OF row(1) assms(2)]
  have wf: "wf_write (resupply_write row)" using shape(1) by (simp add: ok_write_def)
  define s1 where "s1 = s\<lparr>cs_store := put_store (ti_schema ti) (resupply_write row) (cs_store s),
      cs_notes := cs_notes s @ [Counted ''effector_resupply_rows'' []]\<rparr>"
  have run: "write_supplies ti m t (p # T) s = write_supplies ti m t T s1"
    using row wf by (simp add: p io_bind_def io_lift_def pool_execute_def io_try_update_def store_write_wf io_note_def s1_def)
  have tbl: "w_table (resupply_write row) = ''effector_resupply''" by (simp add: resupply_write_def)
  have led: "ledger (cs_store s1) ?e mt' = (if mt' = mt then
      Some (case ledger (cs_store s) ?e mt of Some r \<Rightarrow> r | None \<Rightarrow> overlay row ?d) else ledger (cs_store s) ?e mt')" for mt'
    using pg.lookup_put [OF shape(1), of ?d "cs_store s ''effector_resupply''" "[?e, PStr mt']"]
    by (simp add: ledger_def s1_def put_store_def shape(2) tbl)
      (auto simp: resupply_write_def merge_row_def split: option.split)
  have other: "tbl \<noteq> ''effector_resupply'' \<Longrightarrow> cs_store s1 tbl = cs_store s tbl" for tbl
    by (simp add: s1_def put_store_def resupply_write_def)
  have mt: "map_of T mt = None" using Cons.prems p by (simp add: map_of_eq_None_iff)
  from Cons.IH [of s1] Cons.prems obtain s' where
    s': "write_supplies ti m t T s1 = (Inr (), s')" "\<forall>tbl. tbl \<noteq> ''effector_resupply'' \<longrightarrow> cs_store s' tbl = cs_store s1 tbl"
      "\<forall>mt. (ledger (cs_store s1) ?e mt \<noteq> None \<or> map_of T mt = None \<longrightarrow>
          ledger (cs_store s') ?e mt = ledger (cs_store s1) ?e mt)
        \<and> (\<forall>q. ledger (cs_store s1) ?e mt = None \<longrightarrow> map_of T mt = Some q \<longrightarrow>
          map_option (\<lambda>r. r ''quantity'') (ledger (cs_store s') ?e mt) = Some (PInt q))" by auto
  have "(ledger (cs_store s) ?e mt' \<noteq> None \<or> map_of (p # T) mt' = None \<longrightarrow>
          ledger (cs_store s') ?e mt' = ledger (cs_store s) ?e mt')
        \<and> (\<forall>q. ledger (cs_store s) ?e mt' = None \<longrightarrow> map_of (p # T) mt' = Some q \<longrightarrow>
          map_option (\<lambda>r. r ''quantity'') (ledger (cs_store s') ?e mt') = Some (PInt q))" for mt'
    using s'(3) [rule_format, of mt'] led [of mt'] mt shape(3)
    by (cases "mt' = mt") (auto simp: p split: option.splits)
  with s'(1,2) other run show ?case by auto
qed (simp add: io_return_def)

text \<open>
  C7. The supply ledger holds the total of a record. For an admitted launcher and readable lines, one
  record adds one row per munition type, with the sum of that type's valid lines (bools, fractions
  and negative quantities do not count); a row that the ledger holds already for the event stays as it
  is, so a replay adds nothing; and no other table changes.
\<close>

theorem resupply_ledger:
  assumes "dget m ''pdu_type'' = PStr ''resupply_received''" "truthy (dget m ''event_urn'')" "truthy (dget m ''launcher_urn'')"
    and "admitted (dget m ''launcher_urn'') st" "dget m ''supplies'' = PList lines" "lines \<noteq> []" "lines_readable lines"
    and "rows_built ti m (py_or (parse_timestamp (ti_env ti) (dget m ''ingest_timestamp'')) (PTime (ti_now1 ti)))"
  shows "\<exists>st'. run_custom (handle_effector_launch ti) key m st = (None, st')
    \<and> (\<forall>tbl. tbl \<noteq> ''effector_resupply'' \<longrightarrow> st' tbl = st tbl)
    \<and> (\<forall>mt. map_option (\<lambda>r. r ''quantity'') (ledger st' (dget m ''event_urn'') mt)
         = (case ledger st (dget m ''event_urn'') mt of
              Some r \<Rightarrow> Some (r ''quantity'')
            | None \<Rightarrow> if supplied lines mt = [] then None else Some (PInt (sum_list (supplied lines mt)))))"
proof -
  let ?e = "dget m ''event_urn''"
  let ?t = "py_or (parse_timestamp (ti_env ti) (dget m ''ingest_timestamp'')) (PTime (ti_now1 ti))"
  let ?s0 = "\<lparr>cs_store = st, cs_notes = [Counted ''effector_resupply_seen'' []]\<rparr>"
  from supply_totals_run [OF assms(7), of "[]" ?s0] obtain T ns where
    T: "supply_totals lines [] ?s0 = (Inr T, ?s0\<lparr>cs_notes := ns\<rparr>)" "distinct (map fst T)"
      "\<forall>mt. map_of T mt = (if supplied lines mt = [] then None else Some (sum_list (supplied lines mt)))"
    by (auto simp: total_in_def)
  have e: "?e \<noteq> PNone" using assms(2) by auto
  from write_supplies_run [OF assms(8) e T(2), of "?s0\<lparr>cs_notes := ns\<rparr>"] obtain s' where
    s': "write_supplies ti m ?t T (?s0\<lparr>cs_notes := ns\<rparr>) = (Inr (), s')"
      "\<forall>tbl. tbl \<noteq> ''effector_resupply'' \<longrightarrow> cs_store s' tbl = st tbl"
      "\<forall>mt. (ledger st ?e mt \<noteq> None \<or> map_of T mt = None \<longrightarrow> ledger (cs_store s') ?e mt = ledger st ?e mt)
        \<and> (\<forall>q. ledger st ?e mt = None \<longrightarrow> map_of T mt = Some q \<longrightarrow>
          map_option (\<lambda>r. r ''quantity'') (ledger (cs_store s') ?e mt) = Some (PInt q))"
    by auto
  have run: "run_custom (handle_effector_launch ti) key m st = (None, cs_store s')"
    using assms(1-6) T(1) s'(1)
    by (simp add: run_custom_def handle_effector_launch_def handle_resupply_def io_bind_def io_note_def io_read_def Let_def)
  have "map_option (\<lambda>r. r ''quantity'') (ledger (cs_store s') ?e mt)
         = (case ledger st ?e mt of Some r \<Rightarrow> Some (r ''quantity'')
            | None \<Rightarrow> if supplied lines mt = [] then None else Some (PInt (sum_list (supplied lines mt))))" for mt
    using s'(3) [rule_format, of mt] T(3) [rule_format, of mt] by (cases "ledger st ?e mt") auto
  with run s'(2) show ?thesis by blast
qed

end
