(* ===== verification/Engagement_Examples.thy ===== *)
theory Engagement_Examples
  imports Resupply
begin

text \<open>The engagement theorems on one concrete engagement: launcher l fires munition m in event u.\<close>

definition sample_tier :: tier where
  "sample_tier = \<lparr>ti_env = sample_env, ti_schema = (\<lambda>_ _. PNone), ti_accepts = (\<lambda>_. True), ti_trail = True,
     ti_rival1 = id, ti_rival2 = id, ti_now1 = 100, ti_now2 = 101, ti_now3 = 102\<rparr>"

definition fire_message :: dict where
  "fire_message = [(''pdu_type'', PStr ''fire''), (''event_urn'', PStr ''u''), (''launcher_urn'', PStr ''l''),
     (''munition_urn'', PStr ''m''), (''quantity'', PInt 1)]"

definition fire_row :: dict where
  "fire_row = (case launch_row sample_tier fire_message of Inr r \<Rightarrow> r | _ \<Rightarrow> [])"

definition sample_record :: dict where
  "sample_record = [(''munition_urn'', PStr ''m''), (''sample_time'', PStr ''2026-01-01T00:00:00Z''),
     (''location_ecef'', PDict [(''x'', PFloat (Fin 1)), (''y'', PFloat (Fin 2)), (''z'', PFloat (Fin 3))])]"

definition first_sample :: track_sample where
  "first_sample = \<lparr>ts_munition = PStr ''m'', ts_type = PStr ''0.0.0.0.0.0.0'', ts_x = Fin 1, ts_y = Fin 2, ts_z = Fin 3,
     ts_time = 1767225600000000, ts_edge = PStr ''edge-01'', ts_region = PStr ''region-01'', ts_now = 100\<rparr>"

definition hit_message :: "py \<Rightarrow> dict" where
  "hit_message code = [(''pdu_type'', PStr ''detonation''), (''event_urn'', PStr ''u''), (''detonation_result'', code)]"

definition supply_message :: dict where
  "supply_message = [(''pdu_type'', PStr ''resupply_received''), (''event_urn'', PStr ''u''), (''launcher_urn'', PStr ''l''),
     (''supplies'', PList [PDict [(''quantity'', PFloat (Fin 2))], PDict [(''quantity'', PBool True)],
        PDict [(''quantity'', PInt 3)]])]"

definition known_launcher :: store where
  "known_launcher t = (if t = ''telemetry_latest_state'' then [(\<lambda>_. PNone)(''asset_id'' := PStr ''l'')] else [])"

definition in_flight :: store where
  "in_flight t =
     (if t = ''effector_launch'' then [(\<lambda>_. PNone)(''event_urn'' := PStr ''u'', ''launcher_asset_id'' := PStr ''l'',
        ''munition_asset_id'' := PStr ''m'', ''terminal_state'' := PStr ''unresolved'')]
      else if t = ''munition_track'' then [(\<lambda>_. PNone)(''munition_asset_id'' := PStr ''m'')] else [])"

lemma fire_row_built: "launch_row sample_tier fire_message = Inr fire_row"
  unfolding fire_row_def by code_simp

lemma admitted_launcher: "admitted (PStr ''l'') known_launcher"
  by (simp add: admitted_def row_exists_def known_launcher_def)

lemma sample_fire_ok: "fire_ok sample_tier fire_message fire_row known_launcher"
  using fire_row_built admitted_launcher by (simp add: fire_ok_def) (simp add: fire_message_def sample_tier_def)

lemma first_sample_ok: "sample_ok sample_tier sample_record first_sample"
proof -
  have "ecef (dget sample_record ''location_ecef'') = Inr (Some (Fin 1, Fin 2, Fin 3))"
    by (simp add: sample_record_def ecef_def dindex_def)
  moreover have "parse_timestamp sample_env (dget sample_record ''sample_time'') = PTime 1767225600000000"
    by code_simp
  moreover have "resolve_provenance_from_dict sample_env (or_empty (dget sample_record ''provenance''))
      = Inr [(''edge_id'', PStr ''edge-01''), (''region_id'', PStr ''region-01'')]" by code_simp
  moreover have "munition_type_key (dget sample_record ''munition_type'') = Inr ''0.0.0.0.0.0.0''" by code_simp
  ultimately show ?thesis by (simp add: sample_ok_def first_sample_def sample_tier_def) (simp add: sample_record_def)
qed

theorem fire_admission_witness:
  "lookup_row [''event_urn''] (snd (run_custom (handle_effector_launch sample_tier) [] fire_message known_launcher)
     ''effector_launch'') [PStr ''u''] = Some (overlay fire_row (\<lambda>_. PNone))"
proof -
  have "dget fire_message ''pdu_type'' = PStr ''fire''" "truthy (dget fire_message ''event_urn'')"
      "truthy (dget fire_message ''launcher_urn'')" "dget fire_message ''event_urn'' = PStr ''u''"
    by (simp_all add: fire_message_def)
  with fire_admission [of fire_message known_launcher sample_tier "[]" fire_row "PStr ''u''"] sample_fire_ok
  show ?thesis by (auto simp: known_launcher_def sample_tier_def)
qed

theorem fire_and_sample_commute_witness:
  "\<exists>a b r1 r2. run_custom (handle_effector_launch sample_tier) [] fire_message
        (snd (run_custom (handle_munition_track sample_tier) [] sample_record known_launcher)) = (None, a)
    \<and> run_custom (handle_munition_track sample_tier) [] sample_record
        (snd (run_custom (handle_effector_launch sample_tier) [] fire_message known_launcher)) = (None, b)
    \<and> lookup_row [''munition_asset_id''] (a ''munition_track'') [PStr ''m''] = Some r1
    \<and> lookup_row [''munition_asset_id''] (b ''munition_track'') [PStr ''m''] = Some r2
    \<and> r1 ''launcher_asset_id'' = PStr ''l'' \<and> r2 ''launcher_asset_id'' = PStr ''l''"
proof -
  have m: "dget fire_message ''munition_urn'' = PStr ''m''" "dget fire_message ''launcher_urn'' = PStr ''l''"
    by (simp_all add: fire_message_def)
  have env: "e_edge_id (ti_env sample_tier) \<noteq> []" "e_region_id (ti_env sample_tier) \<noteq> []"
    by (simp_all add: sample_tier_def sample_env_def)
  have s: "ts_munition first_sample = PStr ''m''" by (simp add: first_sample_def)
  from fire_and_sample_commute [OF sample_fire_ok m(1) env first_sample_ok s, of "[]" "[]"] m(2)
  obtain a b r1 r2 where
    "run_custom (handle_effector_launch sample_tier) [] fire_message
        (snd (run_custom (handle_munition_track sample_tier) [] sample_record known_launcher)) = (None, a)"
    "run_custom (handle_munition_track sample_tier) [] sample_record
        (snd (run_custom (handle_effector_launch sample_tier) [] fire_message known_launcher)) = (None, b)"
    "lookup_row [''munition_asset_id''] (a ''munition_track'') [PStr ''m''] = Some r1"
    "lookup_row [''munition_asset_id''] (b ''munition_track'') [PStr ''m''] = Some r2"
    "r1 ''launcher_asset_id'' = PStr ''l''" "r1 ''launcher_asset_id'' = r2 ''launcher_asset_id''"
    by (auto simp: known_launcher_def sample_tier_def)
  then show ?thesis by (intro exI [of _ a] exI [of _ b] exI [of _ r1] exI [of _ r2]) simp
qed

theorem detonation_closes_both_witness:
  "\<exists>st' r' q'. run_custom (handle_effector_launch sample_tier) [] (hit_message (PInt 3)) in_flight = (None, st')
     \<and> lookup_row [''event_urn''] (st' ''effector_launch'') [PStr ''u''] = Some r'
     \<and> lookup_row [''munition_asset_id''] (st' ''munition_track'') [PStr ''m''] = Some q'
     \<and> verdict r' = (PStr ''ground_impact'', PInt 3, PTime 100, PBool True)
     \<and> verdict q' = (PStr ''ground_impact'', PInt 3, PTime 100, PBool False)"
proof -
  let ?m = "hit_message (PInt 3)"
  let ?d = "\<lparr>d_state = ''ground_impact'', d_result = 3, d_terminated_at = PTime 100, d_now = 101\<rparr>"
  have d: "detonation_of sample_tier ?m = Inr ?d" by code_simp
  have e: "dget ?m ''pdu_type'' = PStr ''detonation''" "dget ?m ''event_urn'' = PStr ''u''" "dget ?m ''munition_urn'' = PNone"
    by (simp_all add: hit_message_def)
  have k: "PStr ''m'' = track_key (dget ?m ''munition_urn'') (dget ?m ''event_urn'') (munition_view in_flight)"
    unfolding e by (simp add: track_key_def select_one_def launch_column_def munition_view_def in_flight_def py_or_def)
  show ?thesis
    using detonation_closes_both [OF e(1) _ d _ _ k, of "hd (in_flight ''effector_launch'')" "hd (in_flight ''munition_track'')" "[]"]
    unfolding e by (simp add: in_flight_def lookup_row_Cons)
qed

theorem resupply_ledger_witness:
  "map_option (\<lambda>r. r ''quantity'') (ledger (snd (run_custom (handle_effector_launch sample_tier) [] supply_message known_launcher))
     (PStr ''u'') ''0.0.0.0.0.0.0'') = Some (PInt 5)"
proof -
  let ?lines = "[PDict [(''quantity'', PFloat (Fin 2))], PDict [(''quantity'', PBool True)], PDict [(''quantity'', PInt 3)]]"
  have key: "munition_type_key PNone = Inr ''0.0.0.0.0.0.0''" by code_simp
  have m: "dget supply_message ''pdu_type'' = PStr ''resupply_received''" "dget supply_message ''event_urn'' = PStr ''u''"
      "dget supply_message ''launcher_urn'' = PStr ''l''" "dget supply_message ''supplies'' = PList ?lines"
      "dget supply_message ''provenance'' = PNone"
    by (simp_all add: supply_message_def)
  have s: "supplied ?lines ''0.0.0.0.0.0.0'' = [2, 3]" "lines_readable ?lines"
    by (simp_all add: supplied_def List.map_filter_def line_munition_def supply_quantity_def key lines_readable_def)
  have b: "rows_built sample_tier supply_message t" for t
    by (simp add: rows_built_def resupply_row_def m Let_def sample_tier_def resolve_provenance_from_dict_def releasability_from_def)
  have "map_option (\<lambda>r. r ''quantity'') (ledger (snd (run_custom (handle_effector_launch sample_tier) [] supply_message known_launcher))
     (PStr ''u'') ''0.0.0.0.0.0.0'') = (case ledger known_launcher (PStr ''u'') ''0.0.0.0.0.0.0'' of Some r \<Rightarrow> Some (r ''quantity'')
            | None \<Rightarrow> if supplied ?lines ''0.0.0.0.0.0.0'' = [] then None else Some (PInt (sum_list (supplied ?lines ''0.0.0.0.0.0.0''))))"
    using resupply_ledger [OF m(1) _ _ _ m(4) _ s(2) b, of known_launcher "[]"] admitted_launcher unfolding m by auto
  then show ?thesis unfolding s(1) by (simp add: ledger_def known_launcher_def)
qed

end
