(* ===== verification/Links.thy ===== *)
theory Links
  imports Handler_Base
begin

text \<open>
  \<open>link_monitor.py\<close> and the decoder of \<open>link_heartbeat.py\<close>: the reachability of each expected link
  from the arrival times of its heartbeats, the held traffic band, the rows built from them, and the
  planner that decides which rows are written.

  Monotonic readings are rationals; instants are microseconds. A heartbeat is what the generated
  class parses, None where \<open>ParseFromString\<close> or the conversion of the emission time raises; \<open>traffic_name\<close>
  is the enum's name of a value, None where it has none. The log lines are not modelled; the fields kept for them are.
\<close>

section \<open>Heartbeats\<close>

record link_pb =
  pb_link_id :: string
  pb_emitted_at :: int
  pb_traffic :: int
  pb_bridge_lag :: int

record heartbeat =
  hb_link_id :: string
  hb_emitted_at :: int
  hb_traffic :: string
  hb_bridge_lag :: int

definition traffic_prefix :: string where
  "traffic_prefix = ''LINK_TRAFFIC_''"

definition remove_prefix :: "string \<Rightarrow> string \<Rightarrow> string" where
  "remove_prefix p s = (if take (length p) s = p then drop (length p) s else s)"

text \<open>None is \<open>MalformedHeartbeat\<close>, or the exception of the conversion, which \<open>_consume\<close> catches.\<close>

definition decode_heartbeat :: "(string \<Rightarrow> link_pb option) \<Rightarrow> (int \<Rightarrow> string option) \<Rightarrow> string \<Rightarrow> heartbeat option" where
  "decode_heartbeat parse traffic_name raw =
     (case parse raw of
        None \<Rightarrow> None
      | Some m \<Rightarrow>
          (if pb_link_id m = [] then None
           else
             (let name = (case traffic_name (pb_traffic m) of None \<Rightarrow> [] | Some n \<Rightarrow> n);
                  traffic = (let t = remove_prefix traffic_prefix name in if t = [] then ''UNSPECIFIED'' else t)
              in Some \<lparr>hb_link_id = pb_link_id m, hb_emitted_at = pb_emitted_at m, hb_traffic = traffic,
                   hb_bridge_lag = pb_bridge_lag m\<rparr>)))"

section \<open>One link\<close>

record link_tracker =
  lt_down_after :: rat
  lt_start :: rat
  lt_restore_arrivals :: int
  lt_fresh_max_age :: rat
  lt_last :: "rat option"
  lt_down :: bool
  lt_restore_count :: int
  lt_ages :: "rat list"
  lt_stale_skipped :: nat
  lt_warned_no_emitted :: bool

definition make_tracker :: "rat \<Rightarrow> rat \<Rightarrow> int \<Rightarrow> rat \<Rightarrow> link_tracker" where
  "make_tracker down_after start arrivals max_age =
     \<lparr>lt_down_after = down_after, lt_start = start, lt_restore_arrivals = arrivals, lt_fresh_max_age = max_age,
      lt_last = None, lt_down = False, lt_restore_count = 0, lt_ages = [], lt_stale_skipped = 0,
      lt_warned_no_emitted = False\<rparr>"

definition go_down :: "link_tracker \<Rightarrow> link_tracker" where
  "go_down tk = tk\<lparr>lt_down := True, lt_restore_count := 0, lt_ages := [], lt_stale_skipped := 0\<rparr>"

definition too_old :: "link_tracker \<Rightarrow> rat option \<Rightarrow> bool" where
  "too_old tk age = (case age of None \<Rightarrow> False | Some a \<Rightarrow> \<bar>a\<bar> > lt_fresh_max_age tk)"

definition count_toward_restore :: "rat option \<Rightarrow> rat option \<Rightarrow> link_tracker \<Rightarrow> link_tracker" where
  "count_toward_restore gap age tk0 =
     (let tk = (if age = None then tk0\<lparr>lt_warned_no_emitted := True\<rparr> else tk0) in
      if too_old tk age then
        tk\<lparr>lt_restore_count := 0, lt_ages := [], lt_stale_skipped := lt_stale_skipped tk + 1\<rparr>
      else
        (let tk1 = (if gap \<noteq> None \<and> the gap \<le> lt_down_after tk
               then tk\<lparr>lt_restore_count := lt_restore_count tk + 1\<rparr>
               else tk\<lparr>lt_restore_count := 1, lt_ages := []\<rparr>);
             tk2 = (case age of None \<Rightarrow> tk1 | Some a \<Rightarrow> tk1\<lparr>lt_ages := lt_ages tk1 @ [\<bar>a\<bar>]\<rparr>)
         in if lt_restore_count tk2 \<ge> lt_restore_arrivals tk2
            then tk2\<lparr>lt_down := False, lt_restore_count := 0, lt_ages := [], lt_stale_skipped := 0\<rparr>
            else tk2))"

definition on_arrival :: "rat \<Rightarrow> rat option \<Rightarrow> link_tracker \<Rightarrow> link_tracker" where
  "on_arrival now age tk =
     (let gap = map_option (\<lambda>l. now - l) (lt_last tk);
          tk1 = (if gap \<noteq> None \<and> the gap > lt_down_after tk \<and> \<not> lt_down tk then go_down tk else tk);
          tk2 = (if lt_down tk1 then count_toward_restore gap age tk1 else tk1)
      in tk2\<lparr>lt_last := Some now\<rparr>)"

definition reach :: "rat \<Rightarrow> link_tracker \<Rightarrow> string \<times> link_tracker" where
  "reach now tk =
     (case lt_last tk of
        None \<Rightarrow>
          (if now - lt_start tk \<le> lt_down_after tk then (''unknown'', tk)
           else (''down'', if lt_down tk then tk else go_down tk))
      | Some l \<Rightarrow>
          (if now - l > lt_down_after tk then (''down'', if lt_down tk then tk else go_down tk)
           else (if lt_down tk then ''down'' else ''fresh'', tk)))"

definition classify :: "string \<Rightarrow> string \<Rightarrow> bool \<Rightarrow> string" where
  "classify reached traffic declared_idle =
     (if reached \<noteq> ''fresh'' then reached
      else if declared_idle then (if traffic = ''ACTIVE'' then ''up'' else ''idle'')
      else (if traffic = ''IDLE'' then ''idle'' else ''up''))"

section \<open>All links\<close>

record last_seen =
  ls_arrival :: rat
  ls_emitted_at :: int
  ls_traffic :: string
  ls_bridge_lag :: int

definition build_row ::
  "int \<Rightarrow> string \<Rightarrow> string \<Rightarrow> last_seen option \<Rightarrow> bool \<Rightarrow> rat \<Rightarrow> string option \<Rightarrow> pg_write" where
  "build_row now link_id state last_hb declared_idle now_mono traffic =
     (let band = (case traffic of Some b \<Rightarrow> b
        | None \<Rightarrow> (case last_hb of Some s \<Rightarrow> ls_traffic s | None \<Rightarrow> ''UNSPECIFIED''))
      in \<lparr>w_table = ''link_status'', w_mode = ''upsert'', w_key_columns = [''id''],
          w_row = [(''id'', PStr link_id), (''link_state'', PStr state), (''traffic'', PStr (lower band)),
            (''declared_idle'', PBool declared_idle),
            (''heartbeat_age_s'', case last_hb of Some s \<Rightarrow> PFloat (Fin (now_mono - ls_arrival s)) | None \<Rightarrow> PNone),
            (''last_heartbeat_at'', case last_hb of Some s \<Rightarrow> PTime (ls_emitted_at s) | None \<Rightarrow> PNone),
            (''bridge_lag'', PInt (case last_hb of Some s \<Rightarrow> ls_bridge_lag s | None \<Rightarrow> -1)),
            (''updated_at'', PTime now)],
          w_jsonb_columns = [], w_revive = None\<rparr>)"

text \<open>Per link its tracker, last payload, held band and candidate; \<open>LinkState\<close> keeps them in dicts.\<close>

record link_state =
  lk_expected :: "string list"
  lk_declared :: "string list"
  lk_hold_s :: rat
  lk_trackers :: "string \<Rightarrow> link_tracker option"
  lk_last :: "string \<Rightarrow> last_seen option"
  lk_held :: "string \<Rightarrow> string option"
  lk_candidate :: "string \<Rightarrow> (string \<times> rat) option"

definition make_links ::
  "string list \<Rightarrow> string list \<Rightarrow> rat \<Rightarrow> rat \<Rightarrow> int \<Rightarrow> rat \<Rightarrow> rat \<Rightarrow> link_state" where
  "make_links expected declared down_after start arrivals max_age hold =
     \<lparr>lk_expected = expected, lk_declared = declared, lk_hold_s = hold,
      lk_trackers = (\<lambda>i. if i \<in> set expected then Some (make_tracker down_after start arrivals max_age) else None),
      lk_last = (\<lambda>_. None), lk_held = (\<lambda>_. None), lk_candidate = (\<lambda>_. None)\<rparr>"

definition observe_band :: "string \<Rightarrow> string \<Rightarrow> rat \<Rightarrow> link_state \<Rightarrow> link_state" where
  "observe_band i band now lk =
     (case lk_held lk i of
        None \<Rightarrow> lk\<lparr>lk_held := (lk_held lk)(i := Some band)\<rparr>
      | Some held \<Rightarrow>
          (if band = held then lk\<lparr>lk_candidate := (lk_candidate lk)(i := None)\<rparr>
           else if lk_candidate lk i = None \<or> fst (the (lk_candidate lk i)) \<noteq> band
             then lk\<lparr>lk_candidate := (lk_candidate lk)(i := Some (band, now))\<rparr>
           else lk))"

definition held_band :: "string \<Rightarrow> rat \<Rightarrow> link_state \<Rightarrow> string \<times> link_state" where
  "held_band i now lk =
     (let lk1 = (case lk_candidate lk i of
        Some (band, since) \<Rightarrow>
          (if now - since \<ge> lk_hold_s lk
           then lk\<lparr>lk_held := (lk_held lk)(i := Some band), lk_candidate := (lk_candidate lk)(i := None)\<rparr>
           else lk)
      | None \<Rightarrow> lk)
      in (case lk_held lk1 i of Some b \<Rightarrow> b | None \<Rightarrow> ''UNSPECIFIED'', lk1))"

text \<open>An unset emitted_at decodes to the epoch and counts as absent.\<close>

definition heartbeat_age :: "int \<Rightarrow> heartbeat \<Rightarrow> rat option" where
  "heartbeat_age wall hb = (if hb_emitted_at hb \<le> 0 then None else Some (of_int (wall - hb_emitted_at hb) / 1000000))"

definition ingest :: "heartbeat option \<Rightarrow> rat \<Rightarrow> int \<Rightarrow> link_state \<Rightarrow> link_state" where
  "ingest decoded now_mono wall lk =
     (case decoded of
        None \<Rightarrow> lk
      | Some hb \<Rightarrow>
          (case lk_trackers lk (hb_link_id hb) of
             None \<Rightarrow> lk
           | Some tk \<Rightarrow>
               observe_band (hb_link_id hb) (hb_traffic hb) now_mono
                 (lk\<lparr>lk_trackers := (lk_trackers lk)(hb_link_id hb := Some (on_arrival now_mono (heartbeat_age wall hb) tk)),
                     lk_last := (lk_last lk)(hb_link_id hb := Some
                       \<lparr>ls_arrival = now_mono, ls_emitted_at = hb_emitted_at hb, ls_traffic = hb_traffic hb,
                        ls_bridge_lag = hb_bridge_lag hb\<rparr>)\<rparr>)))"

definition link_row :: "rat \<Rightarrow> int \<Rightarrow> string \<Rightarrow> link_state \<Rightarrow> pg_write \<times> link_state" where
  "link_row now_mono now i lk =
     (let (band, lk1) = held_band i now_mono lk;
          (reached, tk) = reach now_mono (the (lk_trackers lk1 i));
          declared = (i \<in> set (lk_declared lk1))
      in (build_row now i (classify reached band declared) (lk_last lk1 i) declared now_mono (Some band),
          lk1\<lparr>lk_trackers := (lk_trackers lk1)(i := Some tk)\<rparr>))"

fun link_rows :: "rat \<Rightarrow> int \<Rightarrow> string list \<Rightarrow> link_state \<Rightarrow> pg_write list \<times> link_state" where
  "link_rows now_mono now [] lk = ([], lk)"
| "link_rows now_mono now (i # is) lk =
     (let (w, lk1) = link_row now_mono now i lk; (ws, lk2) = link_rows now_mono now is lk1 in (w # ws, lk2))"

section \<open>Which rows are written\<close>

definition heartbeat_columns :: "string list" where
  "heartbeat_columns = [''updated_at'', ''last_heartbeat_at'', ''heartbeat_age_s'', ''bridge_lag'']"

type_synonym link_triple = "py \<times> py \<times> py"

record link_planner =
  lp_heartbeat_s :: rat
  lp_written :: "string \<Rightarrow> (link_triple \<times> rat) option"

definition triple :: "pg_write \<Rightarrow> link_triple" where
  "triple w = (dget (w_row w) ''link_state'', dget (w_row w) ''traffic'', dget (w_row w) ''declared_idle'')"

datatype plan_kind = Change | Beat

definition liveness_write :: "string \<Rightarrow> pg_write \<Rightarrow> pg_write" where
  "liveness_write i w = \<lparr>w_table = w_table w, w_mode = ''update'', w_key_columns = [''id''],
     w_row = (''id'', PStr i) # map (\<lambda>c. (c, dget (w_row w) c)) heartbeat_columns,
     w_jsonb_columns = [], w_revive = None\<rparr>"

definition plan :: "string \<Rightarrow> pg_write \<Rightarrow> rat \<Rightarrow> link_planner \<Rightarrow> (plan_kind \<times> pg_write) option" where
  "plan i w now lp =
     (case lp_written lp i of
        None \<Rightarrow> Some (Change, w)
      | Some (t, at_mono) \<Rightarrow>
          (if t \<noteq> triple w then Some (Change, w)
           else if now - at_mono \<ge> lp_heartbeat_s lp then Some (Beat, liveness_write i w)
           else None))"

definition record_write :: "string \<Rightarrow> pg_write \<Rightarrow> plan_kind \<Rightarrow> rat \<Rightarrow> link_planner \<Rightarrow> link_planner" where
  "record_write i w kind now lp = lp\<lparr>lp_written := (lp_written lp)(i := Some
     (if kind = Change then triple w else fst (the (lp_written lp i)), now))\<rparr>"

definition forget :: "string \<Rightarrow> link_planner \<Rightarrow> link_planner" where
  "forget i lp = lp\<lparr>lp_written := (lp_written lp)(i := None)\<rparr>"

text \<open>One built row of a tick of \<open>_upsert\<close>: planned, executed (\<open>ok\<close>), recorded.\<close>

definition upsert_link :: "row \<Rightarrow> bool \<Rightarrow> rat \<Rightarrow> string \<times> pg_write \<Rightarrow> link_planner \<times> table \<Rightarrow> link_planner \<times> table" where
  "upsert_link schema ok now iw st =
     (case st of (lp, tbl) \<Rightarrow>
       (case plan (fst iw) (snd iw) now lp of
          None \<Rightarrow> (lp, tbl)
        | Some (kind, w) \<Rightarrow>
            (if \<not> ok then (lp, tbl)
             else case run_write schema w tbl of
                Inl _ \<Rightarrow> (lp, tbl)
              | Inr (tbl1, n) \<Rightarrow>
                  (if kind = Beat \<and> n = 0 then forget (fst iw) lp else record_write (fst iw) (snd iw) kind now lp, tbl1))))"

text \<open>\<open>_csv\<close> of the environment variable's text.\<close>

definition csv :: "string \<Rightarrow> string list" where
  "csv s = filter (\<lambda>t. t \<noteq> []) (map strip (split_on (CHR '','') s))"

end
