(* ===== verification/Link_Spec.thy ===== *)
theory Link_Spec
  imports Links
begin

text \<open>
  What the link monitor reports, said of the heartbeats received: reachability from the gaps between
  arrivals and the freshness of the last run, whatever ticks were made in between; the band shown; and
  the rows the planner keeps in the table.
\<close>

section \<open>Reachability as a property of the arrivals\<close>

text \<open>Arrivals newest first, as pairs of arrival time and age.\<close>

type_synonym arrivals = "(rat \<times> rat option) list"

fun last_run :: "rat \<Rightarrow> arrivals \<Rightarrow> arrivals" where
  "last_run d [] = []"
| "last_run d [a] = [a]"
| "last_run d (a # b # xs) = (if fst a - fst b > d then [a] else a # last_run d (b # xs))"

fun broken :: "rat \<Rightarrow> arrivals \<Rightarrow> bool" where
  "broken d (a # b # xs) \<longleftrightarrow> fst a - fst b > d \<or> broken d (b # xs)"
| "broken d _ \<longleftrightarrow> False"

definition fresh_arrival :: "rat \<Rightarrow> rat \<times> rat option \<Rightarrow> bool" where
  "fresh_arrival m a \<longleftrightarrow> (case snd a of None \<Rightarrow> True | Some age \<Rightarrow> \<bar>age\<bar> \<le> m)"

text \<open>Some \<open>n\<close> consecutive arrivals are all fresh.\<close>

fun streak :: "nat \<Rightarrow> rat \<Rightarrow> arrivals \<Rightarrow> bool" where
  "streak n m [] \<longleftrightarrow> False"
| "streak n m (a # xs) \<longleftrightarrow> n \<le> length (takeWhile (fresh_arrival m) (a # xs)) \<or> streak n m xs"

lemma streak_iff:
  assumes "0 < n"
  shows "streak n m xs \<longleftrightarrow> (\<exists>us vs ws. xs = us @ vs @ ws \<and> length vs = n \<and> list_all (fresh_arrival m) vs)"
proof (induction xs)
  case (Cons a xs)
  let ?t = "takeWhile (fresh_arrival m) (a # xs)"
  show ?case
  proof
    assume "streak n m (a # xs)"
    then consider "n \<le> length ?t" | "streak n m xs" by auto
    then show "\<exists>us vs ws. a # xs = us @ vs @ ws \<and> length vs = n \<and> list_all (fresh_arrival m) vs"
    proof cases
      case 1
      have "a # xs = [] @ take n ?t @ (drop n ?t @ dropWhile (fresh_arrival m) (a # xs))"
        by (metis append.assoc append_Nil append_take_drop_id takeWhile_dropWhile_id)
      moreover have "list_all (fresh_arrival m) (take n ?t)"
        by (metis in_set_takeD list_all_iff set_takeWhileD)
      ultimately show ?thesis using 1 by (metis length_take min.absorb2)
    next
      case 2
      with Cons obtain us vs ws where "xs = us @ vs @ ws" "length vs = n" "list_all (fresh_arrival m) vs" by auto
      then have "a # xs = (a # us) @ vs @ ws \<and> length vs = n \<and> list_all (fresh_arrival m) vs" by simp
      then show ?thesis by blast
    qed
  next
    assume "\<exists>us vs ws. a # xs = us @ vs @ ws \<and> length vs = n \<and> list_all (fresh_arrival m) vs"
    then obtain us vs ws where v: "a # xs = us @ vs @ ws" "length vs = n" "list_all (fresh_arrival m) vs" by blast
    show "streak n m (a # xs)"
    proof (cases us)
      case Nil
      with v have "?t = vs @ takeWhile (fresh_arrival m) ws" by (simp add: list_all_iff takeWhile_append2)
      with v(2) show ?thesis by simp
    next
      case (Cons u us')
      with v have "\<exists>us vs ws. xs = us @ vs @ ws \<and> length vs = n \<and> list_all (fresh_arrival m) vs" by auto
      with Cons.IH show ?thesis by simp
    qed
  qed
qed (use assms in auto)

datatype tracker_event = Arrive rat "rat option" | Tick rat

fun tracker_time :: "tracker_event \<Rightarrow> rat" where
  "tracker_time (Arrive t age) = t"
| "tracker_time (Tick t) = t"

fun tracker_step :: "tracker_event \<Rightarrow> link_tracker \<Rightarrow> link_tracker" where
  "tracker_step (Arrive t age) tk = on_arrival t age tk"
| "tracker_step (Tick t) tk = snd (reach t tk)"

text \<open>Of a history, newest first: its arrivals, and whether a tick found the link silent past the warm-up.\<close>

fun arrivals_of :: "tracker_event list \<Rightarrow> arrivals" where
  "arrivals_of [] = []"
| "arrivals_of (Arrive t age # es) = (t, age) # arrivals_of es"
| "arrivals_of (Tick t # es) = arrivals_of es"

fun missed_warm_up :: "rat \<Rightarrow> rat \<Rightarrow> tracker_event list \<Rightarrow> bool" where
  "missed_warm_up d start [] \<longleftrightarrow> False"
| "missed_warm_up d start (Arrive t age # es) \<longleftrightarrow> missed_warm_up d start es"
| "missed_warm_up d start (Tick t # es) \<longleftrightarrow>
     missed_warm_up d start es \<or> arrivals_of es = [] \<and> t - start > d"

definition restored :: "link_tracker \<Rightarrow> arrivals \<Rightarrow> bool" where
  "restored tk xs \<longleftrightarrow> streak (nat (max 1 (lt_restore_arrivals tk))) (lt_fresh_max_age tk) (last_run (lt_down_after tk) xs)"

definition same_limits :: "link_tracker \<Rightarrow> link_tracker \<Rightarrow> bool" where
  "same_limits tk tk' \<longleftrightarrow> lt_down_after tk' = lt_down_after tk \<and> lt_start tk' = lt_start tk
     \<and> lt_restore_arrivals tk' = lt_restore_arrivals tk \<and> lt_fresh_max_age tk' = lt_fresh_max_age tk"

definition latch_ok :: "link_tracker \<Rightarrow> bool \<Rightarrow> arrivals \<Rightarrow> bool" where
  "latch_ok tk missed xs \<longleftrightarrow>
     (if \<not> missed \<and> \<not> broken (lt_down_after tk) xs then \<not> lt_down tk
      else (lt_down tk \<longleftrightarrow> \<not> restored tk xs)
        \<and> (lt_down tk \<longrightarrow> lt_restore_count tk =
             int (length (takeWhile (fresh_arrival (lt_fresh_max_age tk)) (last_run (lt_down_after tk) xs)))))"

definition tracker_ok :: "link_tracker \<Rightarrow> bool \<Rightarrow> arrivals \<Rightarrow> rat \<Rightarrow> bool" where
  "tracker_ok tk missed xs t \<longleftrightarrow>
     (if xs = [] then lt_last tk = None \<and> lt_restore_count tk = 0 \<and> (lt_down tk \<longleftrightarrow> missed)
      else lt_last tk = Some (fst (hd xs)) \<and> (t - fst (hd xs) > lt_down_after tk \<or> latch_ok tk missed xs))"

lemma too_old_fresh: "too_old tk age \<longleftrightarrow> \<not> fresh_arrival (lt_fresh_max_age tk) (t, age)"
  by (auto simp: too_old_def fresh_arrival_def split: option.split)

lemma count_limits: "same_limits tk (count_toward_restore g age tk)"
  by (auto simp: same_limits_def count_toward_restore_def Let_def split: option.split)

lemma arrival_limits: "same_limits tk (on_arrival t age tk)"
  using count_limits [of tk] count_limits [of "go_down tk"]
  by (auto simp: same_limits_def on_arrival_def go_down_def Let_def)

lemma reach_limits: "same_limits tk (snd (reach t tk))"
  by (auto simp: same_limits_def reach_def go_down_def split: option.split)

definition next_count :: "link_tracker \<Rightarrow> rat option \<Rightarrow> rat option \<Rightarrow> int" where
  "next_count tk g age = (if too_old tk age then 0
     else if g \<noteq> None \<and> the g \<le> lt_down_after tk then lt_restore_count tk + 1 else 1)"

lemma count_next:
  "lt_down tk \<Longrightarrow> lt_down (count_toward_restore g age tk) \<longleftrightarrow> too_old tk age \<or> next_count tk g age < lt_restore_arrivals tk"
  "lt_down tk \<Longrightarrow> lt_down (count_toward_restore g age tk) \<Longrightarrow>
     lt_restore_count (count_toward_restore g age tk) = next_count tk g age"
  by (auto simp: count_toward_restore_def next_count_def Let_def too_old_def split: option.splits if_splits)

text \<open>An arrival within the gap extends the run; one after it starts a run of its own.\<close>

lemma streak_single: "streak n m [a] \<longleftrightarrow> n \<le> (if fresh_arrival m a then 1 else 0)"
  by simp

lemma latch_in_run:
  assumes "latch_ok tk missed xs" "xs \<noteq> []" "lt_last tk = Some (fst (hd xs))" "t - fst (hd xs) \<le> lt_down_after tk"
  shows "latch_ok (on_arrival t age tk) missed ((t, age) # xs)"
proof -
  obtain b ys where xs: "xs = b # ys" using assms(2) by (cases xs) auto
  let ?tk = "on_arrival t age tk"
  let ?d = "lt_down_after tk" and ?m = "lt_fresh_max_age tk"
  have lim: "lt_down_after ?tk = ?d" "lt_fresh_max_age ?tk = ?m" "lt_restore_arrivals ?tk = lt_restore_arrivals tk"
    using arrival_limits [of tk t age] by (simp_all add: same_limits_def)
  have gap: "\<not> t - fst b > ?d" using assms(4) xs by simp
  have run: "last_run ?d ((t, age) # xs) = (t, age) # last_run ?d xs" "broken ?d ((t, age) # xs) = broken ?d xs"
    using gap xs by simp_all
  have step: "lt_down ?tk = lt_down (if lt_down tk then count_toward_restore (Some (t - fst b)) age tk else tk)"
    "lt_restore_count ?tk = lt_restore_count (if lt_down tk then count_toward_restore (Some (t - fst b)) age tk else tk)"
    using assms(3) gap xs by (simp_all add: on_arrival_def Let_def)
  show ?thesis
  proof (cases "\<not> missed \<and> \<not> broken ?d xs")
    case True
    with assms(1) have "\<not> lt_down tk" by (simp add: latch_ok_def)
    with True step run show ?thesis by (simp add: latch_ok_def lim)
  next
    case False
    let ?r = "last_run ?d xs"
    from False assms(1) have l: "lt_down tk \<longleftrightarrow> \<not> restored tk xs"
      "lt_down tk \<Longrightarrow> lt_restore_count tk = int (length (takeWhile (fresh_arrival ?m) ?r))"
      by (simp_all add: latch_ok_def)
    have res: "restored ?tk ((t, age) # xs) \<longleftrightarrow>
        nat (max 1 (lt_restore_arrivals tk)) \<le> length (takeWhile (fresh_arrival ?m) ((t, age) # ?r)) \<or> restored tk xs"
      by (simp only: restored_def lim run streak.simps)
    show ?thesis
    proof (cases "lt_down tk")
      case True
      have n: "next_count tk (Some (t - fst b)) age = int (length (takeWhile (fresh_arrival ?m) ((t, age) # ?r)))"
        using l(2) [OF True] gap by (simp add: next_count_def too_old_fresh [of tk age t])
      with True step count_next [of tk "Some (t - fst b)" age] l(1) res False run show ?thesis
        by (auto simp: latch_ok_def lim too_old_fresh [of tk age t] split: if_splits)
    next
      case False2: False
      with l(1) res step False run show ?thesis by (simp add: latch_ok_def lim)
    qed
  qed
qed

lemma latch_new_run:
  assumes "tracker_ok tk missed xs t0" "xs = [] \<or> t - fst (hd xs) > lt_down_after tk"
    "xs = [] \<Longrightarrow> lt_down tk = missed"
  shows "latch_ok (on_arrival t age tk) missed ((t, age) # xs)"
proof -
  let ?tk = "on_arrival t age tk"
  let ?d = "lt_down_after tk" and ?m = "lt_fresh_max_age tk"
  have lim: "lt_down_after ?tk = ?d" "lt_fresh_max_age ?tk = ?m" "lt_restore_arrivals ?tk = lt_restore_arrivals tk"
    using arrival_limits [of tk t age] by (simp_all add: same_limits_def)
  have run: "last_run ?d ((t, age) # xs) = [(t, age)]" using assms(2) by (cases xs) auto
  show ?thesis
  proof (cases "xs = [] \<and> \<not> missed")
    case True
    with assms(1,3) have "\<not> lt_down tk" "lt_last tk = None" by (simp_all add: tracker_ok_def)
    with True show ?thesis by (simp add: latch_ok_def on_arrival_def Let_def)
  next
    case False
    then have down: "missed \<or> broken ?d ((t, age) # xs)" using assms(2) by (cases xs) auto
    define g where "g = map_option (\<lambda>l. t - l) (lt_last tk)"
    define tk1 where "tk1 = (if lt_down tk then tk else go_down tk)"
    have g: "g = None \<or> the g > ?d" "xs = [] \<longrightarrow> g = None" "xs \<noteq> [] \<longrightarrow> g \<noteq> None"
      using assms(1,2) by (auto simp: g_def tracker_ok_def split: if_splits)
    have tk1: "lt_down tk1" "lt_down_after tk1 = ?d" "lt_fresh_max_age tk1 = ?m" "lt_restore_arrivals tk1 = lt_restore_arrivals tk"
      by (simp_all add: tk1_def go_down_def)
    have "lt_down tk \<or> g \<noteq> None" using False assms(3) g(3) by auto
    then have step: "lt_down ?tk = lt_down (count_toward_restore g age tk1)"
      "lt_restore_count ?tk = lt_restore_count (count_toward_restore g age tk1)"
      using g(1) by (auto simp: on_arrival_def Let_def g_def tk1_def go_down_def)
    have n: "next_count tk1 g age = int (length (takeWhile (fresh_arrival ?m) [(t, age)]))"
      using g(1) tk1 by (auto simp: next_count_def too_old_fresh [of tk1 age t])
    have "restored ?tk ((t, age) # xs) \<longleftrightarrow> nat (max 1 (lt_restore_arrivals tk)) \<le> length (takeWhile (fresh_arrival ?m) [(t, age)])"
      by (simp only: restored_def lim run) simp
    with n down run step count_next [of tk1 g age] tk1 show ?thesis
      by (auto simp: latch_ok_def lim too_old_fresh [of tk1 age t] split: if_splits)
  qed
qed

lemma tracker_ok_arrive:
  assumes "tracker_ok tk missed xs t0" "xs \<noteq> [] \<Longrightarrow> t0 \<le> t"
  shows "tracker_ok (on_arrival t age tk) missed ((t, age) # xs) t"
proof -
  have "latch_ok (on_arrival t age tk) missed ((t, age) # xs)"
  proof (cases "xs = [] \<or> t - fst (hd xs) > lt_down_after tk")
    case True
    with assms(1) show ?thesis by (intro latch_new_run [OF assms(1) True]) (simp add: tracker_ok_def)
  next
    case False
    then have "\<not> t0 - fst (hd xs) > lt_down_after tk" using assms(2) by auto
    with assms(1) False show ?thesis by (intro latch_in_run) (simp_all add: tracker_ok_def)
  qed
  moreover have "lt_last (on_arrival t age tk) = Some t" by (simp add: on_arrival_def Let_def)
  ultimately show ?thesis by (simp add: tracker_ok_def)
qed

lemma tracker_ok_tick:
  assumes "tracker_ok tk missed xs t0" "xs \<noteq> [] \<Longrightarrow> t0 \<le> t" "missed' = (missed \<or> xs = [] \<and> t - lt_start tk > lt_down_after tk)"
  shows "tracker_ok (snd (reach t tk)) missed' xs t"
proof (cases "xs = []")
  case True
  with assms show ?thesis by (auto simp: tracker_ok_def reach_def go_down_def)
next
  case False
  with assms(1) have "lt_last tk = Some (fst (hd xs))" by (simp add: tracker_ok_def)
  moreover have "t - fst (hd xs) \<le> lt_down_after tk \<Longrightarrow> latch_ok tk missed xs"
    using assms(1,2) False by (force simp: tracker_ok_def)
  ultimately show ?thesis using False assms(3) by (auto simp: tracker_ok_def reach_def go_down_def)
qed

lemma tracker_ok_run:
  assumes "sorted (rev (map tracker_time es))" "tk0 = make_tracker d start n m"
  shows "tracker_ok (foldr tracker_step es tk0) (missed_warm_up d start es) (arrivals_of es)
      (case es of [] \<Rightarrow> start | e # _ \<Rightarrow> tracker_time e)
    \<and> same_limits tk0 (foldr tracker_step es tk0)"
  using assms(1)
proof (induction es)
  case Nil
  then show ?case by (simp add: tracker_ok_def assms(2) make_tracker_def same_limits_def)
next
  case (Cons e es)
  let ?tk = "foldr tracker_step es tk0"
  let ?t0 = "case es of [] \<Rightarrow> start | e # _ \<Rightarrow> tracker_time e"
  from Cons have ok: "tracker_ok ?tk (missed_warm_up d start es) (arrivals_of es) ?t0" and lim: "same_limits tk0 ?tk"
    by (auto simp: sorted_append)
  have d: "lt_down_after ?tk = d" "lt_start ?tk = start" using lim by (simp_all add: same_limits_def assms(2) make_tracker_def)
  have later: "arrivals_of es \<noteq> [] \<Longrightarrow> ?t0 \<le> tracker_time e"
    using Cons.prems by (cases es) (auto simp: sorted_append)
  show ?case
  proof (cases e)
    case (Arrive t age)
    have "same_limits tk0 (on_arrival t age ?tk)"
      using lim arrival_limits [of ?tk t age] by (simp add: same_limits_def)
    with tracker_ok_arrive [OF ok, of t age] later Arrive show ?thesis by simp
  next
    case (Tick t)
    have "same_limits tk0 (snd (reach t ?tk))" using lim reach_limits [of ?tk t] by (simp add: same_limits_def)
    moreover have "missed_warm_up d start (e # es) = (missed_warm_up d start es \<or> arrivals_of es = [] \<and> t - lt_start ?tk > lt_down_after ?tk)"
      using Tick d by auto
    ultimately show ?thesis using tracker_ok_tick [OF ok, of t] later Tick by simp
  qed
qed

text \<open>What \<open>reach\<close> answers, said of the history alone.\<close>

definition reach_spec :: "rat \<Rightarrow> rat \<Rightarrow> int \<Rightarrow> rat \<Rightarrow> tracker_event list \<Rightarrow> rat \<Rightarrow> string" where
  "reach_spec d start n m es now =
     (case arrivals_of es of
        [] \<Rightarrow> (if now - start \<le> d then ''unknown'' else ''down'')
      | a # as \<Rightarrow>
          (if now - fst a \<le> d
              \<and> (\<not> missed_warm_up d start es \<and> \<not> broken d (a # as)
                 \<or> streak (nat (max 1 n)) m (last_run d (a # as)))
           then ''fresh'' else ''down''))"

lemma reach_is_spec:
  assumes "sorted (rev (map tracker_time (Tick now # es)))"
  shows "fst (reach now (foldr tracker_step es (make_tracker d start n m))) = reach_spec d start n m es now"
proof -
  let ?tk = "foldr tracker_step es (make_tracker d start n m)"
  let ?t0 = "case es of [] \<Rightarrow> start | e # _ \<Rightarrow> tracker_time e"
  from assms have "sorted (rev (map tracker_time es))" by (simp add: sorted_append)
  from tracker_ok_run [OF this refl, of d start n m] have
    ok: "tracker_ok ?tk (missed_warm_up d start es) (arrivals_of es) ?t0"
    and lim: "lt_down_after ?tk = d" "lt_start ?tk = start" "lt_restore_arrivals ?tk = n" "lt_fresh_max_age ?tk = m"
    by (simp_all add: same_limits_def make_tracker_def)
  show ?thesis
  proof (cases "arrivals_of es")
    case Nil
    with ok lim show ?thesis by (simp add: tracker_ok_def reach_def reach_spec_def)
  next
    case (Cons a as)
    have "?t0 \<le> now" using assms Cons by (cases es) (auto simp: sorted_append)
    with ok Cons have "lt_last ?tk = Some (fst a)"
      "now - fst a \<le> d \<Longrightarrow> latch_ok ?tk (missed_warm_up d start es) (a # as)"
      by (force simp: tracker_ok_def lim)+
    then show ?thesis using Cons
      by (auto simp: reach_def reach_spec_def latch_ok_def restored_def lim split: if_splits)
  qed
qed

section \<open>The rows of all links\<close>

datatype link_event = Received "heartbeat option" rat int | Ticked rat int

fun link_time :: "link_event \<Rightarrow> rat" where
  "link_time (Received hb t wall) = t"
| "link_time (Ticked t now) = t"

fun link_step :: "link_event \<Rightarrow> link_state \<Rightarrow> link_state" where
  "link_step (Received hb t wall) lk = ingest hb t wall lk"
| "link_step (Ticked t now) lk = snd (link_rows t now (lk_expected lk) lk)"

text \<open>What a history holds for one link: its heartbeats and the ticks; the bands reported, newest first.\<close>

fun events_of :: "string \<Rightarrow> link_event list \<Rightarrow> tracker_event list" where
  "events_of i [] = []"
| "events_of i (Received None t wall # es) = events_of i es"
| "events_of i (Received (Some hb) t wall # es) =
     (if hb_link_id hb = i then Arrive t (heartbeat_age wall hb) # events_of i es else events_of i es)"
| "events_of i (Ticked t now # es) = Tick t # events_of i es"

fun bands_of :: "string \<Rightarrow> link_event list \<Rightarrow> (rat \<times> string) list" where
  "bands_of i [] = []"
| "bands_of i (Received None t wall # es) = bands_of i es"
| "bands_of i (Received (Some hb) t wall # es) =
     (if hb_link_id hb = i then (t, hb_traffic hb) # bands_of i es else bands_of i es)"
| "bands_of i (Ticked t now # es) = bands_of i es"

lemma reach_again: "snd (reach t (snd (reach t tk))) = snd (reach t tk)" "fst (reach t (snd (reach t tk))) = fst (reach t tk)"
  by (cases "lt_last tk"; cases "lt_down tk"; simp add: reach_def go_down_def)+

lemma held_band_again: "held_band i t (snd (held_band i t lk)) = held_band i t lk"
  by (simp add: held_band_def split: option.split)

lemma held_band_keeps:
  "lk_expected (snd (held_band j t lk)) = lk_expected lk" "lk_declared (snd (held_band j t lk)) = lk_declared lk"
  "lk_hold_s (snd (held_band j t lk)) = lk_hold_s lk" "lk_trackers (snd (held_band j t lk)) = lk_trackers lk"
  "lk_last (snd (held_band j t lk)) = lk_last lk"
  "i \<noteq> j \<Longrightarrow> lk_held (snd (held_band j t lk)) i = lk_held lk i"
  "i \<noteq> j \<Longrightarrow> lk_candidate (snd (held_band j t lk)) i = lk_candidate lk i"
  by (auto simp: held_band_def Let_def split: option.split)

lemma link_row_state:
  "snd (link_row t now j lk) = (snd (held_band j t lk))
     \<lparr>lk_trackers := (lk_trackers lk)(j := Some (snd (reach t (the (lk_trackers lk j)))))\<rparr>"
  by (simp add: link_row_def split_def Let_def held_band_keeps)

text \<open>What a link's row is made of is left alone by the rows of the others.\<close>

definition link_view :: "string \<Rightarrow> link_state \<Rightarrow> link_tracker option \<times> last_seen option \<times> string option \<times> (string \<times> rat) option" where
  "link_view i lk = (lk_trackers lk i, lk_last lk i, lk_held lk i, lk_candidate lk i)"

definition shown :: "string \<Rightarrow> rat \<Rightarrow> link_state \<Rightarrow> string" where
  "shown i t lk = fst (held_band i t lk)"

lemma shown_cong:
  "lk_held lk i = lk_held lk' i \<Longrightarrow> lk_candidate lk i = lk_candidate lk' i \<Longrightarrow> lk_hold_s lk = lk_hold_s lk' \<Longrightarrow>
     shown i t lk = shown i t lk'"
  by (simp add: shown_def held_band_def Let_def split: option.split)

lemma shown_view:
  "link_view i lk = link_view i lk' \<Longrightarrow> lk_hold_s lk = lk_hold_s lk' \<Longrightarrow> shown i t lk = shown i t lk'
     \<and> lk_held (snd (held_band i t lk)) i = lk_held (snd (held_band i t lk')) i
     \<and> lk_candidate (snd (held_band i t lk)) i = lk_candidate (snd (held_band i t lk')) i"
  by (auto simp: shown_def link_view_def held_band_def Let_def split: option.split)

definition row_of :: "rat \<Rightarrow> int \<Rightarrow> string \<Rightarrow> link_state \<Rightarrow> pg_write" where
  "row_of t now i lk = build_row now i (classify (fst (reach t (the (lk_trackers lk i)))) (shown i t lk) (i \<in> set (lk_declared lk)))
     (lk_last lk i) (i \<in> set (lk_declared lk)) t (Some (shown i t lk))"

lemma fst_link_row: "fst (link_row t now i lk) = row_of t now i lk"
  by (simp add: link_row_def row_of_def shown_def split_def Let_def held_band_keeps)

lemma link_row_others:
  "i \<noteq> j \<Longrightarrow> link_view i (snd (link_row t now j lk)) = link_view i lk"
  by (simp add: link_row_state link_view_def held_band_keeps)

lemma link_row_limits:
  "lk_expected (snd (link_row t now j lk)) = lk_expected lk" "lk_declared (snd (link_row t now j lk)) = lk_declared lk"
  "lk_hold_s (snd (link_row t now j lk)) = lk_hold_s lk"
  by (simp_all add: link_row_state held_band_keeps)

lemma row_of_after:
  "row_of t now i (snd (link_row t now j lk)) = row_of t now i lk"
proof (cases "i = j")
  case True
  have "shown i t (snd (link_row t now i lk)) = shown i t (snd (held_band i t lk))"
    by (rule shown_cong) (simp_all add: link_row_state held_band_keeps)
  then have "shown i t (snd (link_row t now i lk)) = shown i t lk" by (simp add: shown_def held_band_again)
  with True show ?thesis
    by (simp add: row_of_def link_row_limits) (simp add: link_row_state held_band_keeps reach_again)
next
  case False
  from shown_view [OF link_row_others [OF False, of t now lk] link_row_limits(3)] link_row_others [OF False, of t now lk]
  show ?thesis by (simp add: row_of_def link_view_def link_row_limits)
qed

lemma link_rows_map: "fst (link_rows t now is lk) = map (\<lambda>i. row_of t now i lk) is"
proof (induction "is" arbitrary: lk)
  case (Cons i "is")
  show ?case using Cons [of "snd (link_row t now i lk)"]
    by (simp add: split_def Let_def fst_link_row row_of_after)
qed simp

section \<open>One link of a history\<close>

text \<open>A tick settles the view of an expected link as if it were the only one.\<close>

lemma link_view_limits:
  "lk_expected (snd (link_rows t now is lk)) = lk_expected lk" "lk_declared (snd (link_rows t now is lk)) = lk_declared lk"
  "lk_hold_s (snd (link_rows t now is lk)) = lk_hold_s lk"
  by (induction "is" arbitrary: lk) (simp_all add: split_def Let_def link_row_limits)

lemma link_view_self_again:
  "link_view i (snd (link_row t now i (snd (link_row t now i lk)))) = link_view i (snd (link_row t now i lk))"
proof -
  have h: "lk_held (snd (held_band i t (snd (link_row t now i lk)))) i = lk_held (snd (held_band i t lk)) i"
    "lk_candidate (snd (held_band i t (snd (link_row t now i lk)))) i = lk_candidate (snd (held_band i t lk)) i"
    unfolding link_row_state by (auto simp: held_band_def Let_def split: option.splits)
  show ?thesis
    unfolding link_view_def by (subst (1 2 3 4) link_row_state)
      (simp add: h held_band_keeps, simp add: link_row_state held_band_keeps reach_again)
qed

lemma link_view_cong_row:
  assumes "link_view i lk = link_view i lk'" "lk_hold_s lk = lk_hold_s lk'"
  shows "link_view i (snd (link_row t now i lk)) = link_view i (snd (link_row t now i lk'))"
  using shown_view [OF assms, of t] assms(1)
  by (simp add: link_view_def link_row_state held_band_keeps)

lemma link_view_rows:
  "link_view i (snd (link_rows t now is lk)) = (if i \<in> set is then link_view i (snd (link_row t now i lk)) else link_view i lk)"
proof (induction "is" arbitrary: lk)
  case (Cons j "is")
  let ?lk = "snd (link_row t now j lk)"
  have step: "link_view i (snd (link_rows t now (j # is) lk)) =
      (if i \<in> set is then link_view i (snd (link_row t now i ?lk)) else link_view i ?lk)"
    using Cons [of ?lk] by (simp add: split_def Let_def)
  show ?case
  proof (cases "i = j")
    case True
    with step link_view_self_again [of i t now lk] show ?thesis by simp
  next
    case False
    with step link_row_others [OF False, of t now lk] link_view_cong_row [OF link_row_others [OF False] link_row_limits(3)]
    show ?thesis by simp
  qed
qed simp

lemma observe_band_keeps:
  "lk_trackers (observe_band j b t lk) = lk_trackers lk" "lk_last (observe_band j b t lk) = lk_last lk"
  "lk_expected (observe_band j b t lk) = lk_expected lk" "lk_declared (observe_band j b t lk) = lk_declared lk"
  "lk_hold_s (observe_band j b t lk) = lk_hold_s lk"
  "i \<noteq> j \<Longrightarrow> lk_held (observe_band j b t lk) i = lk_held lk i"
  "i \<noteq> j \<Longrightarrow> lk_candidate (observe_band j b t lk) i = lk_candidate lk i"
  by (auto simp: observe_band_def split: option.split)

definition since :: "(rat \<times> string) list \<Rightarrow> rat" where
  "since rs = fst (last (takeWhile (\<lambda>r. snd r = snd (hd rs)) rs))"

definition band_ok :: "(rat \<times> string) list \<Rightarrow> string option \<Rightarrow> (string \<times> rat) option \<Rightarrow> bool" where
  "band_ok rs held cand \<longleftrightarrow>
     (case rs of
        [] \<Rightarrow> held = None \<and> cand = None
      | r # _ \<Rightarrow> (case held of None \<Rightarrow> False
           | Some h \<Rightarrow> (case cand of None \<Rightarrow> snd r = h | Some (b, c) \<Rightarrow> b = snd r \<and> b \<noteq> h \<and> c = since rs)))"

lemma since_Cons: "since ((t, b) # rs) = (if rs \<noteq> [] \<and> snd (hd rs) = b then since rs else t)"
  by (cases rs) (auto simp: since_def)

lemma band_ok_observe:
  assumes "band_ok rs (lk_held lk i) (lk_candidate lk i)"
  shows "band_ok ((t, b) # rs) (lk_held (observe_band i b t lk) i) (lk_candidate (observe_band i b t lk) i)"
  using assms
  by (cases rs; cases "lk_held lk i"; cases "lk_candidate lk i")
    (auto simp: band_ok_def observe_band_def since_Cons split: option.splits)

lemma band_ok_held:
  assumes "band_ok rs (lk_held lk i) (lk_candidate lk i)"
  shows "band_ok rs (lk_held (snd (held_band i t lk)) i) (lk_candidate (snd (held_band i t lk)) i)"
  using assms
  by (cases rs; cases "lk_held lk i"; cases "lk_candidate lk i") (auto simp: band_ok_def held_band_def Let_def)

lemma link_history:
  assumes "i \<in> set expected" "lk0 = make_links expected declared d start n m hold"
  shows "lk_trackers (foldr link_step es lk0) i = Some (foldr tracker_step (events_of i es) (make_tracker d start n m))
    \<and> band_ok (bands_of i es) (lk_held (foldr link_step es lk0) i) (lk_candidate (foldr link_step es lk0) i)
    \<and> lk_expected (foldr link_step es lk0) = expected \<and> lk_declared (foldr link_step es lk0) = declared
    \<and> lk_hold_s (foldr link_step es lk0) = hold"
proof (induction es)
  case Nil
  with assms show ?case by (simp add: make_links_def band_ok_def)
next
  case (Cons e es)
  let ?lk = "foldr link_step es lk0"
  show ?case
  proof (cases e)
    case (Received hb t wall)
    show ?thesis
    proof (cases hb)
      case (Some h)
      show ?thesis
      proof (cases "hb_link_id h = i")
        case True
        with Cons Received Some show ?thesis
          using band_ok_observe [of "bands_of i es" "?lk\<lparr>lk_trackers := (lk_trackers ?lk)(i := Some (on_arrival t (heartbeat_age wall h)
              (foldr tracker_step (events_of i es) (make_tracker d start n m)))),
              lk_last := (lk_last ?lk)(i := Some \<lparr>ls_arrival = t, ls_emitted_at = hb_emitted_at h, ls_traffic = hb_traffic h,
                ls_bridge_lag = hb_bridge_lag h\<rparr>)\<rparr>" i t "hb_traffic h"]
          by (simp add: ingest_def observe_band_keeps)
      next
        case False
        with Cons Received Some show ?thesis
          by (auto simp: ingest_def observe_band_keeps split: option.split)
      qed
    qed (use Cons Received in \<open>simp add: ingest_def\<close>)
  next
    case (Ticked t now)
    have v: "link_view i (snd (link_rows t now expected ?lk)) = link_view i (snd (link_row t now i ?lk))"
      using assms(1) by (simp add: link_view_rows)
    from Cons Ticked v band_ok_held [of "bands_of i es" ?lk i t] show ?thesis
      by (simp add: link_view_limits link_view_def link_row_state held_band_keeps)
  qed
qed

lemma links_expected: "lk_expected (foldr link_step es lk) = lk_expected lk"
proof (induction es)
  case (Cons e es)
  then show ?case
    by (cases e) (auto simp: ingest_def observe_band_keeps link_view_limits split: option.split)
qed simp

lemma tracker_time_le:
  "\<forall>e\<in>set es. link_time e \<le> t \<Longrightarrow> x \<in> set (events_of i es) \<Longrightarrow> tracker_time x \<le> t"
  by (induction i es rule: events_of.induct) (auto split: if_splits)

lemma tracker_times: "sorted (rev (map link_time es)) \<Longrightarrow> sorted (rev (map tracker_time (events_of i es)))"
  by (induction i es rule: events_of.induct) (auto simp: sorted_append tracker_time_le)

text \<open>
  The row built for a link tells the reachability its heartbeats show: unknown within the warm-up while
  nothing arrived; fresh exactly when the last heartbeat is no older than \<open>down_after_s\<close> and either no gap
  exceeded it since the start (nor the warm-up passed in silence), or the heartbeats since the last such
  gap contain the required number of consecutive fresh ones; otherwise down. Ticks in between and
  malformed or unexpected heartbeats change nothing.
\<close>

lemma row_reachability:
  assumes "sorted (rev (map link_time es))" "\<forall>e\<in>set es. link_time e \<le> t"
    and "lk = foldr link_step es (make_links expected declared d start n m hold)" "i \<in> set expected"
  shows "row_of t now i lk = build_row now i (classify (reach_spec d start n m (events_of i es) t) (shown i t lk) (i \<in> set declared))
      (lk_last lk i) (i \<in> set declared) t (Some (shown i t lk))"
proof -
  note h = link_history [OF assms(4) refl, of es declared d start n m hold, folded assms(3)]
  have "sorted (rev (map tracker_time (Tick t # events_of i es)))"
    using tracker_times [OF assms(1), of i] tracker_time_le [OF assms(2)] by (auto simp: sorted_append)
  from reach_is_spec [OF this, of d start n m] h show ?thesis by (simp add: row_of_def)
qed

text \<open>
  The band shown is held. On any tick an expected link shows the band reported last, unless that
  band has been reported for less than \<open>traffic_hold_s\<close> without interruption, in which case it may
  still show the band held before; and it leaves the held band only for the band reported last and
  only after that band was reported that long. With nothing reported it shows UNSPECIFIED.
\<close>

lemma traffic_band_held:
  assumes "i \<in> set expected" "lk = foldr link_step es (make_links expected declared d start n m hold)"
  shows "(case bands_of i es of
      [] \<Rightarrow> shown i t lk = ''UNSPECIFIED''
    | r # rs \<Rightarrow> (shown i t lk = snd r \<or> t - since (r # rs) < hold \<and> lk_held lk i = Some (shown i t lk))
        \<and> (lk_held lk i = Some (shown i t lk) \<or> shown i t lk = snd r \<and> t - since (r # rs) \<ge> hold))"
proof -
  note h = link_history [OF assms(1) refl, of es declared d start n m hold, folded assms(2)]
  then have "band_ok (bands_of i es) (lk_held lk i) (lk_candidate lk i)" "lk_hold_s lk = hold" by simp_all
  then show ?thesis
    by (cases "bands_of i es"; cases "lk_held lk i"; cases "lk_candidate lk i";
        cases "lk_hold_s lk \<le> t - since (bands_of i es)")
      (auto simp: band_ok_def shown_def held_band_def Let_def)
qed

text \<open>
  A link silent past its warm-up needs the full number of fresh heartbeats only when a tick noticed
  the silence; a first heartbeat that comes before that tick makes it fresh at once.
\<close>

lemma unnoticed_warm_up:
  "fst (reach 21 (on_arrival 20 (Some 0) (make_tracker 15 0 3 15))) = ''fresh''
   \<and> fst (reach 21 (on_arrival 20 (Some 0) (snd (reach 16 (make_tracker 15 0 3 15))))) = ''down''"
  by code_simp

section \<open>The rows in the table\<close>

definition row_triple :: "row \<Rightarrow> link_triple" where
  "row_triple r = (r ''link_state'', r ''traffic'', r ''declared_idle'')"

text \<open>A row the planner remembers is in the table with that triple, unless someone deleted it.\<close>

definition planner_ok :: "link_planner \<Rightarrow> table \<Rightarrow> bool" where
  "planner_ok lp tbl \<longleftrightarrow> (\<forall>i t at_mono r. lp_written lp i = Some (t, at_mono) \<longrightarrow>
     lookup_row [''id''] tbl [PStr i] = Some r \<longrightarrow> row_triple r = t)"

lemma planner_okD: "planner_ok lp tbl \<Longrightarrow> lp_written lp i = Some (t, at_mono) \<Longrightarrow>
    lookup_row [''id''] tbl [PStr i] = Some r \<Longrightarrow> row_triple r = t"
  unfolding planner_ok_def by metis

lemma planner_ok_step:
  assumes "planner_ok lp tbl"
    "\<And>j. j \<noteq> i \<Longrightarrow> lp_written lp' j = lp_written lp j \<and> lookup_row [''id''] tbl' [PStr j] = lookup_row [''id''] tbl [PStr j]"
    "\<And>t at_mono r. lp_written lp' i = Some (t, at_mono) \<Longrightarrow> lookup_row [''id''] tbl' [PStr i] = Some r \<Longrightarrow> row_triple r = t"
  shows "planner_ok lp' tbl'"
  unfolding planner_ok_def using assms planner_okD by metis

lemma build_row_ok: "ok_write dflt [''id''] (build_row now i state hb declared t band)
    \<and> write_key (build_row now i state hb declared t band) = [PStr i]"
  by (auto simp: ok_write_def build_row_def Let_def write_key_def dget_def dget_or_def intro!: wf_plain)

lemma liveness_ok: "ok_write dflt [''id''] (liveness_write i w) \<and> write_key (liveness_write i w) = [PStr i]"
  by (auto simp: ok_write_def liveness_write_def write_key_def dget_def dget_or_def heartbeat_columns_def intro!: wf_plain)

lemma lookup_other: "ok_write dflt [''id''] w \<Longrightarrow> write_key w = [PStr i] \<Longrightarrow> j \<noteq> i \<Longrightarrow>
    lookup_row [''id''] (apply_write dflt w tbl) [PStr j] = lookup_row [''id''] tbl [PStr j]"
  by (simp add: apply_write_lookup)

lemma beat_count:
  "write_count (liveness_write i w) tbl = 0 \<longleftrightarrow> lookup_row [''id''] tbl [PStr i] = None"
  by (auto simp: write_count_def lookup_row_None filter_empty_conv row_hit_def write_key_def liveness_write_def
      dget_def dget_or_def)

lemma build_row_triple:
  "merge_row dflt (build_row now i state hb declared t band) old = Some r \<Longrightarrow>
     row_triple r = triple (build_row now i state hb declared t band) \<and> r ''updated_at'' = PTime now"
  by (auto simp: merge_row_def build_row_def Let_def row_triple_def triple_def overlay_def dget_def dget_or_def
      revived_def split: option.splits)

lemma liveness_triple:
  "merge_row dflt (liveness_write i (build_row now i state hb declared t band)) (Some r) = Some r' \<Longrightarrow>
     row_triple r' = row_triple r \<and> r' ''updated_at'' = PTime now"
  by (auto simp: merge_row_def liveness_write_def build_row_def Let_def row_triple_def overlay_def dget_def dget_or_def
      revived_def heartbeat_columns_def)

text \<open>The three things one built row can lead to when its write goes through.\<close>

lemma upsert_link_cases:
  assumes w: "w = build_row now i state hb declared t band"
    and step: "upsert_link schema True t (i, w) (lp, tbl) = (lp', tbl')"
  obtains (idle) at_mono where "lp_written lp i = Some (triple w, at_mono)" "t - at_mono < lp_heartbeat_s lp" "lp' = lp" "tbl' = tbl"
  | (beat) at_mono v where "lp_written lp i = Some (triple w, at_mono)" "v = liveness_write i w" "tbl' = apply_write schema v tbl"
      "lp' = (if lookup_row [''id''] tbl [PStr i] = None then forget i lp else record_write i w Beat t lp)"
  | (change) "tbl' = apply_write schema w tbl" "lp' = record_write i w Change t lp"
proof -
  have ok: "wf_write w" "wf_write (liveness_write i w)"
    using build_row_ok [of undefined now i state hb declared t band] liveness_ok [of undefined i w] w
    by (simp_all add: ok_write_def)
  show ?thesis
  proof (cases "plan i w t lp")
    case None
    with step show ?thesis
      by (intro idle [of "snd (the (lp_written lp i))"]) (auto simp: upsert_link_def plan_def split: option.splits if_splits)
  next
    case (Some kw)
    obtain kind v where kv: "kw = (kind, v)" by (cases kw)
    show ?thesis
    proof (cases kind)
      case Change
      with Some kv have "v = w" by (auto simp: plan_def split: option.splits if_splits)
      with Some kv Change step show ?thesis
        by (intro change) (simp_all add: upsert_link_def run_write_refines [OF ok(1)])
    next
      case Beat
      with Some kv have "v = liveness_write i w" "lp_written lp i = Some (triple w, snd (the (lp_written lp i)))"
        by (auto simp: plan_def split: option.splits if_splits)
      with Some kv Beat step beat_count [of i w tbl] show ?thesis
        by (intro beat) (auto simp: upsert_link_def run_write_refines [OF ok(2)])
    qed
  qed
qed

text \<open>The full write, and the liveness write on a row that is not there or is there.\<close>

lemma change_written:
  assumes "planner_ok lp tbl" "w = build_row now i state hb declared t band"
    "lookup_row [''id''] tbl' [PStr i] = merge_row schema w (lookup_row [''id''] tbl [PStr i])"
    "\<And>j. j \<noteq> i \<Longrightarrow> lookup_row [''id''] tbl' [PStr j] = lookup_row [''id''] tbl [PStr j]"
  shows "planner_ok (record_write i w Change t lp) tbl'
    \<and> (case lookup_row [''id''] tbl' [PStr i] of Some r \<Rightarrow> row_triple r = triple w \<and> r ''updated_at'' = PTime now | None \<Rightarrow> False)"
proof -
  have "w_mode w = ''upsert''" by (simp add: assms(2) build_row_def Let_def)
  then obtain r where r: "merge_row schema w (lookup_row [''id''] tbl [PStr i]) = Some r"
    by (cases "lookup_row [''id''] tbl [PStr i]") (auto simp: merge_row_def)
  from build_row_triple [OF r [unfolded assms(2)], folded assms(2)] have
    t: "row_triple r = triple w" "r ''updated_at'' = PTime now" by simp_all
  have "planner_ok (record_write i w Change t lp) tbl'"
    by (rule planner_ok_step [OF assms(1), of i]) (use assms(3,4) r t in \<open>auto simp: record_write_def\<close>)
  with assms(3) r t show ?thesis by simp
qed

lemma beat_absent:
  assumes "planner_ok lp tbl" "lookup_row [''id''] tbl' [PStr i] = None"
    "\<And>j. j \<noteq> i \<Longrightarrow> lookup_row [''id''] tbl' [PStr j] = lookup_row [''id''] tbl [PStr j]"
  shows "planner_ok (forget i lp) tbl' \<and> plan i w t (forget i lp) = Some (Change, w)"
proof
  show "planner_ok (forget i lp) tbl'"
    by (rule planner_ok_step [OF assms(1), of i]) (use assms(2,3) in \<open>auto simp: forget_def\<close>)
qed (simp add: forget_def plan_def)

lemma beat_present:
  assumes "planner_ok lp tbl" "w = build_row now i state hb declared t band" "lp_written lp i = Some (triple w, at_mono)"
    "lookup_row [''id''] tbl [PStr i] = Some r0"
    "lookup_row [''id''] tbl' [PStr i] = merge_row schema (liveness_write i w) (Some r0)"
    "\<And>j. j \<noteq> i \<Longrightarrow> lookup_row [''id''] tbl' [PStr j] = lookup_row [''id''] tbl [PStr j]"
  shows "planner_ok (record_write i w Beat t lp) tbl'
    \<and> (case lookup_row [''id''] tbl' [PStr i] of Some r \<Rightarrow> row_triple r = triple w \<and> r ''updated_at'' = PTime now | None \<Rightarrow> False)"
proof -
  have "w_mode (liveness_write i w) = ''update''" by (simp add: liveness_write_def)
  then obtain r where r: "merge_row schema (liveness_write i w) (Some r0) = Some r" by (simp add: merge_row_def)
  from liveness_triple [OF r [unfolded assms(2)]] have
    t: "row_triple r = row_triple r0" "r ''updated_at'' = PTime now" by simp_all
  have t0: "row_triple r0 = triple w" using planner_okD [OF assms(1,3,4)] .
  have "planner_ok (record_write i w Beat t lp) tbl'"
    by (rule planner_ok_step [OF assms(1), of i]) (use assms(3-6) r t t0 in \<open>auto simp: record_write_def\<close>)
  with assms(5) r t t0 show ?thesis by simp
qed

text \<open>
  What one write does to the table. While nobody else writes the rows (deleting them is allowed), what
  the planner remembers of a row is what the row says. After a tick whose write went through, the row
  of the link, if there is one, tells the state just built, and it was written now or less than
  \<open>heartbeat_s\<close> ago; if there is none, then either the planner has forgotten the link, so that the next tick writes
  it in full, or its heartbeat is not due yet. The other rows are untouched, and a failed write changes
  nothing.
\<close>

lemma link_table_current:
  assumes "planner_ok lp tbl" "w = build_row now i state hb declared t band"
    and step: "upsert_link schema True t (i, w) (lp, tbl) = (lp', tbl')"
  shows "planner_ok lp' tbl'
    \<and> (case lookup_row [''id''] tbl' [PStr i] of
         Some r \<Rightarrow> row_triple r = triple w \<and> (r ''updated_at'' = PTime now
           \<or> tbl' = tbl \<and> (\<exists>at_mono. lp_written lp i = Some (triple w, at_mono) \<and> t - at_mono < lp_heartbeat_s lp))
       | None \<Rightarrow> plan i w t lp' = Some (Change, w)
           \<or> (\<exists>at_mono. lp_written lp i = Some (triple w, at_mono) \<and> t - at_mono < lp_heartbeat_s lp))
    \<and> (\<forall>j. j \<noteq> i \<longrightarrow> lookup_row [''id''] tbl' [PStr j] = lookup_row [''id''] tbl [PStr j])
    \<and> upsert_link schema False t (i, w) (lp, tbl) = (lp, tbl)"
proof -
  note bok = build_row_ok [of schema now i state hb declared t band, folded assms(2)]
  note lok = liveness_ok [of schema i w]
  have fail: "upsert_link schema False t (i, w) (lp, tbl) = (lp, tbl)"
    by (simp add: upsert_link_def split: option.split prod.split)
  from assms(2) step show ?thesis
  proof (cases rule: upsert_link_cases)
    case (idle at_mono)
    with assms(1) have "lookup_row [''id''] tbl [PStr i] = Some r \<Longrightarrow> row_triple r = triple w" for r
      using planner_okD by metis
    with idle assms(1) fail show ?thesis by (auto split: option.split)
  next
    case change
    have own: "lookup_row [''id''] tbl' [PStr i] = merge_row schema w (lookup_row [''id''] tbl [PStr i])"
      using bok by (simp add: change apply_write_lookup)
    have other: "j \<noteq> i \<Longrightarrow> lookup_row [''id''] tbl' [PStr j] = lookup_row [''id''] tbl [PStr j]" for j
      using lookup_other bok change(1) by metis
    from change_written [OF assms(1,2) own other] other fail show ?thesis by (auto simp: change(2) split: option.splits)
  next
    case (beat at_mono v)
    have own: "lookup_row [''id''] tbl' [PStr i] = merge_row schema v (lookup_row [''id''] tbl [PStr i])"
      using lok by (simp add: beat apply_write_lookup)
    have other: "j \<noteq> i \<Longrightarrow> lookup_row [''id''] tbl' [PStr j] = lookup_row [''id''] tbl [PStr j]" for j
      using lookup_other lok beat(2,3) by metis
    show ?thesis
    proof (cases "lookup_row [''id''] tbl [PStr i]")
      case None
      have "merge_row schema v None = None" by (simp add: merge_row_def beat(2) liveness_write_def)
      with None own have gone: "lookup_row [''id''] tbl' [PStr i] = None" by simp
      from beat_absent [OF assms(1) gone other] gone other fail None show ?thesis by (simp add: beat(4))
    next
      case (Some r0)
      from beat_present [OF assms(1,2) beat(1) Some own [unfolded beat(2) Some] other] other fail Some
      show ?thesis by (auto simp: beat(4) split: option.splits)
    qed
  qed
qed

end
