(* ===== verification/Edge_Buffer.thy ===== *)
theory Edge_Buffer
  imports Handler_Base
begin

text \<open>
  \<open>edge_buffer_monitor.py\<close>: the lag and the committed sum read from the bridge's consumer group, the
  reachability of the uplink drawn from them, the row a turn of the probe loop writes, and the traffic
  meter of the heartbeat. The sending of the heartbeat is in \<open>Heartbeat\<close>.

  A probe is what the broker answers: the group's committed offsets as topic, partition and offset
  (None where the client reports none), and the watermarks of a partition, None where the request
  raises. Monotonic readings are rationals.
\<close>

section \<open>The probe\<close>

record group_offset =
  go_topic :: string
  go_partition :: nat
  go_offset :: "int option"

datatype probe_error = BridgeGroupAbsent | ProbeFailed

definition lag_unknown :: int where
  "lag_unknown = -1"

definition default_sever_after_s :: "rat \<Rightarrow> rat \<Rightarrow> rat" where
  "default_sever_after_s exchange_period_s probe_interval_s = 2 * (exchange_period_s + probe_interval_s)"

definition known_offset :: "group_offset \<Rightarrow> int option" where
  "known_offset tp = (case go_offset tp of Some i \<Rightarrow> (if i \<ge> 0 then Some i else None) | None \<Rightarrow> None)"

fun sum_partitions :: "(group_offset \<Rightarrow> (int \<times> int) option) \<Rightarrow> group_offset list \<Rightarrow> int \<times> int \<Rightarrow> (int \<times> int) option" where
  "sum_partitions watermarks [] acc = Some acc"
| "sum_partitions watermarks (tp # tps) acc =
     (case watermarks tp of
        None \<Rightarrow> None
      | Some (lo, hi) \<Rightarrow>
          (let pos = (case known_offset tp of Some i \<Rightarrow> i | None \<Rightarrow> lo);
               total = fst acc + max 0 (hi - pos);
               committed = snd acc + (case known_offset tp of Some i \<Rightarrow> i | None \<Rightarrow> 0)
           in sum_partitions watermarks tps (total, committed)))"

text \<open>\<open>None\<close> as the listing is the admin client's own failure.\<close>

definition probe_bridge_lag ::
  "string list \<Rightarrow> group_offset list option \<Rightarrow> (group_offset \<Rightarrow> (int \<times> int) option) \<Rightarrow> probe_error + (int \<times> int)" where
  "probe_bridge_lag topics listing watermarks =
     (case listing of
        None \<Rightarrow> Inl ProbeFailed
      | Some tps \<Rightarrow>
          (let committed = filter (\<lambda>tp. go_topic tp \<in> set topics) tps in
           if committed = [] then Inl BridgeGroupAbsent
           else (case sum_partitions watermarks committed (0, 0) of None \<Rightarrow> Inl ProbeFailed | Some r \<Rightarrow> Inr r)))"

section \<open>Reachability of the uplink\<close>

record uplink =
  ul_sever_after_s :: rat
  ul_restore_exchanges :: int
  ul_start_time :: "rat option"
  ul_baseline_sum :: "int option"
  ul_last_exchange :: "rat option"
  ul_severed :: "bool option"
  ul_restore_count :: int

definition make_uplink :: "rat \<Rightarrow> int \<Rightarrow> uplink" where
  "make_uplink sever_after restore =
     \<lparr>ul_sever_after_s = sever_after, ul_restore_exchanges = restore, ul_start_time = None, ul_baseline_sum = None,
      ul_last_exchange = None, ul_severed = None, ul_restore_count = 0\<rparr>"

definition last_exchange_age :: "rat \<Rightarrow> uplink \<Rightarrow> rat option" where
  "last_exchange_age now ul =
     (case ul_start_time ul of
        None \<Rightarrow> None
      | Some s \<Rightarrow> Some (now - (case ul_last_exchange ul of Some l \<Rightarrow> l | None \<Rightarrow> s)))"

text \<open>Evidence of an exchange: the committed sum grew, or the lag is zero.\<close>

definition is_exchange :: "int option \<Rightarrow> int option \<Rightarrow> int option \<Rightarrow> bool" where
  "is_exchange baseline committed_sum lag \<longleftrightarrow>
     (case (committed_sum, baseline) of (Some c, Some b) \<Rightarrow> c > b | _ \<Rightarrow> False) \<or> lag = Some 0"

definition note_exchange :: "rat \<Rightarrow> uplink \<Rightarrow> uplink" where
  "note_exchange now ul =
     (if ul_severed ul = Some True then
        (let n = (case ul_last_exchange ul of
               Some l \<Rightarrow> (if now - l \<le> ul_sever_after_s ul then ul_restore_count ul + 1 else 1)
             | None \<Rightarrow> 1)
         in if n \<ge> ul_restore_exchanges ul
            then ul\<lparr>ul_severed := Some False, ul_restore_count := 0, ul_last_exchange := Some now\<rparr>
            else ul\<lparr>ul_restore_count := n, ul_last_exchange := Some now\<rparr>)
      else ul\<lparr>ul_severed := Some False, ul_restore_count := 0, ul_last_exchange := Some now\<rparr>)"

definition observe :: "rat \<Rightarrow> int option \<Rightarrow> int option \<Rightarrow> uplink \<Rightarrow> uplink" where
  "observe now committed_sum lag ul =
     (let ul1 = (if ul_start_time ul = None then ul\<lparr>ul_start_time := Some now\<rparr> else ul);
          exchange = is_exchange (ul_baseline_sum ul1) committed_sum lag;
          ul2 = (if committed_sum \<noteq> None then ul1\<lparr>ul_baseline_sum := committed_sum\<rparr> else ul1)
      in if exchange then note_exchange now ul2
         else (case last_exchange_age now ul2 of
             Some age \<Rightarrow>
               (if age > ul_sever_after_s ul2 \<and> ul_severed ul2 \<noteq> Some True
                then ul2\<lparr>ul_restore_count := 0, ul_severed := Some True\<rparr> else ul2)
           | None \<Rightarrow> ul2))"

section \<open>A turn of the probe loop\<close>

definition build_buffer_write :: "string \<Rightarrow> int \<Rightarrow> int \<Rightarrow> bool \<Rightarrow> bool \<Rightarrow> pg_write" where
  "build_buffer_write row_id now lag severed healthy =
     \<lparr>w_table = ''edge_buffer_status'', w_mode = ''upsert'', w_key_columns = [''id''],
      w_row = [(''id'', PStr row_id), (''bridge_group_lag'', PInt lag), (''hq_link_severed'', PBool severed),
        (''probe_healthy'', PBool healthy), (''updated_at'', PTime now)],
      w_jsonb_columns = [], w_revive = None\<rparr>"

text \<open>The answer: the last lag the heartbeat carries, the write, and the reachability after it.\<close>

definition probe_turn ::
  "string \<Rightarrow> rat \<Rightarrow> int \<Rightarrow> probe_error + (int \<times> int) \<Rightarrow> uplink \<Rightarrow> int \<times> pg_write \<times> uplink" where
  "probe_turn row_id now_mono now probe ul =
     (let healthy = (case probe of Inl _ \<Rightarrow> False | Inr _ \<Rightarrow> True);
          lag = (case probe of Inl _ \<Rightarrow> lag_unknown | Inr (l, _) \<Rightarrow> l);
          committed_sum = (case probe of Inl _ \<Rightarrow> None | Inr (_, c) \<Rightarrow> Some c);
          ul1 = observe now_mono committed_sum (if healthy then Some lag else None) ul
      in (if healthy then lag else lag_unknown,
          build_buffer_write row_id now lag (ul_severed ul1 = Some True) (healthy \<and> ul_severed ul1 \<noteq> None),
          ul1))"

section \<open>The traffic meter\<close>

record traffic_meter =
  tm_idle_after_s :: rat
  tm_first_time :: "rat option"
  tm_last_sum :: int
  tm_last_advance :: rat

definition make_meter :: "rat \<Rightarrow> traffic_meter" where
  "make_meter idle_after = \<lparr>tm_idle_after_s = idle_after, tm_first_time = None, tm_last_sum = 0, tm_last_advance = 0\<rparr>"

definition observe_traffic :: "rat \<Rightarrow> int option \<Rightarrow> traffic_meter \<Rightarrow> string \<times> traffic_meter" where
  "observe_traffic now offset_sum tm =
     (case offset_sum of
        None \<Rightarrow> (''UNSPECIFIED'', tm)
      | Some s \<Rightarrow>
          (case tm_first_time tm of
             None \<Rightarrow> (''UNSPECIFIED'', tm\<lparr>tm_first_time := Some now, tm_last_sum := s, tm_last_advance := now\<rparr>)
           | Some first_time \<Rightarrow>
               (let advance = (if s > tm_last_sum tm then now else tm_last_advance tm);
                    tm1 = tm\<lparr>tm_last_advance := advance, tm_last_sum := s\<rparr>
                in (if now - first_time < tm_idle_after_s tm then ''UNSPECIFIED''
                    else if now - advance \<le> tm_idle_after_s tm then ''ACTIVE'' else ''IDLE'', tm1))))"

text \<open>
  \<open>_probe_traffic_sum\<close>: per topic the log-end offsets of its partitions, None where the topic is
  unreadable; a topic that fails after some partitions still counts those (the second component).
\<close>

fun topic_ends :: "int option list \<Rightarrow> int \<times> bool \<Rightarrow> int \<times> bool" where
  "topic_ends [] acc = acc"
| "topic_ends (None # ps) acc = acc"
| "topic_ends (Some hi # ps) acc = topic_ends ps (fst acc + hi, True)"

definition probe_traffic_sum :: "int option list option list \<Rightarrow> int option" where
  "probe_traffic_sum topics =
     (if topics = [] then None
      else (let (total, readable) = foldl (\<lambda>acc t. case t of None \<Rightarrow> acc | Some ps \<Rightarrow> topic_ends ps acc) (0, False) topics
            in if readable then Some total else None))"

end
