(* ===== verification/Uplink.thy ===== *)
theory Uplink
  imports Edge_Buffer Pg_Store
begin

text \<open>
  What the edge buffer monitor reports: the verdict on the uplink said of the exchanges seen, the row
  a failed probe writes, and the meter's answer said of the readings.
\<close>

section \<open>Exchanges of a history\<close>

text \<open>Observations newest first: the time, the committed sum and the lag, as \<open>observe\<close> gets them.\<close>

type_synonym observations = "(rat \<times> int option \<times> int option) list"

fun last_sum :: "observations \<Rightarrow> int option" where
  "last_sum [] = None"
| "last_sum ((t, s, lag) # es) = (if s = None then last_sum es else s)"

fun exchanges :: "observations \<Rightarrow> rat list" where
  "exchanges [] = []"
| "exchanges ((t, s, lag) # es) = (if is_exchange (last_sum es) s lag then t # exchanges es else exchanges es)"

text \<open>How many of the newest exchanges follow each other within the limit, and whether all do.\<close>

fun run_length :: "rat \<Rightarrow> rat list \<Rightarrow> nat" where
  "run_length d [] = 0"
| "run_length d [t] = 1"
| "run_length d (t # u # xs) = (if t - u \<le> d then Suc (run_length d (u # xs)) else 1)"

fun unbroken :: "rat \<Rightarrow> rat \<Rightarrow> rat list \<Rightarrow> bool" where
  "unbroken d start [] \<longleftrightarrow> True"
| "unbroken d start [t] \<longleftrightarrow> t - start \<le> d"
| "unbroken d start (t # u # xs) \<longleftrightarrow> t - u \<le> d \<and> unbroken d start (u # xs)"

definition observe_all :: "rat \<Rightarrow> int \<Rightarrow> observations \<Rightarrow> uplink" where
  "observe_all d n es = foldr (\<lambda>e. observe (fst e) (fst (snd e)) (snd (snd e))) es (make_uplink d n)"

text \<open>The last exchange, or the first observation when there was none.\<close>

definition anchor :: "observations \<Rightarrow> rat" where
  "anchor es = (case exchanges es of t # _ \<Rightarrow> t | [] \<Rightarrow> fst (last es))"

definition verdict_ok :: "rat \<Rightarrow> int \<Rightarrow> observations \<Rightarrow> uplink \<Rightarrow> bool" where
  "verdict_ok d n es ul \<longleftrightarrow>
     (if fst (hd es) - anchor es > d then ul_severed ul = Some True
      else case exchanges es of
          [] \<Rightarrow> ul_severed ul = None
        | x # xs \<Rightarrow> ul_severed ul = Some False
            \<or> ul_severed ul = Some True \<and> ul_restore_count ul = int (run_length d (x # xs))
              \<and> ul_restore_count ul < n \<and> \<not> unbroken d (fst (last es)) (x # xs))"

definition uplink_ok :: "rat \<Rightarrow> int \<Rightarrow> observations \<Rightarrow> uplink \<Rightarrow> bool" where
  "uplink_ok d n es ul \<longleftrightarrow>
     ul_sever_after_s ul = d \<and> ul_restore_exchanges ul = n \<and> ul_baseline_sum ul = last_sum es
     \<and> ul_start_time ul = (if es = [] then None else Some (fst (last es)))
     \<and> ul_last_exchange ul = (case exchanges es of [] \<Rightarrow> None | t # _ \<Rightarrow> Some t)
     \<and> (if es = [] then ul_severed ul = None else verdict_ok d n es ul)"

lemma exchange_run:
  assumes "es \<noteq> []" "verdict_ok d n es ul" "ul_sever_after_s ul = d" "ul_restore_exchanges ul = n"
    "ul_last_exchange ul = (case exchanges es of [] \<Rightarrow> None | t # _ \<Rightarrow> Some t)" "fst (hd es) \<le> t" "0 \<le> d"
  shows "ul_severed (note_exchange t ul) = Some False
    \<or> ul_severed (note_exchange t ul) = Some True
      \<and> ul_restore_count (note_exchange t ul) = int (run_length d (t # exchanges es))
      \<and> ul_restore_count (note_exchange t ul) < n \<and> \<not> unbroken d (fst (last es)) (t # exchanges es)"
proof (cases "ul_severed ul = Some True")
  case False
  then show ?thesis by (simp add: note_exchange_def)
next
  case True
  show ?thesis
  proof (cases "exchanges es")
    case Nil
    with assms(2) True have "fst (hd es) - fst (last es) > d"
      by (auto simp: verdict_ok_def anchor_def split: if_splits)
    with assms(6) have "t - fst (last es) > d" by simp
    with True Nil assms(4,5) show ?thesis by (auto simp: note_exchange_def Let_def)
  next
    case (Cons x xs)
    show ?thesis
    proof (cases "t - x \<le> d")
      case False
      with True Cons assms(3-5) show ?thesis by (auto simp: note_exchange_def Let_def)
    next
      case near: True
      with assms(6) have "\<not> fst (hd es) - anchor es > d" by (simp add: anchor_def Cons)
      with assms(2) True have "ul_restore_count ul = int (run_length d (x # xs))" "\<not> unbroken d (fst (last es)) (x # xs)"
        by (auto simp: verdict_ok_def Cons)
      with True Cons near assms(3-5) show ?thesis by (auto simp: note_exchange_def Let_def)
    qed
  qed
qed

lemma observe_fields:
  "ul_sever_after_s (note_exchange t ul) = ul_sever_after_s ul" "ul_restore_exchanges (note_exchange t ul) = ul_restore_exchanges ul"
  "ul_baseline_sum (note_exchange t ul) = ul_baseline_sum ul" "ul_start_time (note_exchange t ul) = ul_start_time ul"
  "ul_last_exchange (note_exchange t ul) = Some t"
  by (simp_all add: note_exchange_def Let_def)

text \<open>The state a reading is judged in: started, and with the new baseline.\<close>

definition based :: "rat \<Rightarrow> int option \<Rightarrow> uplink \<Rightarrow> uplink" where
  "based t s ul =
     (let ul1 = (if ul_start_time ul = None then ul\<lparr>ul_start_time := Some t\<rparr> else ul)
      in if s \<noteq> None then ul1\<lparr>ul_baseline_sum := s\<rparr> else ul1)"

lemma observe_based:
  "observe t s lag ul = (if is_exchange (ul_baseline_sum ul) s lag then note_exchange t (based t s ul)
     else (case last_exchange_age t (based t s ul) of
         Some age \<Rightarrow> (if age > ul_sever_after_s ul \<and> ul_severed ul \<noteq> Some True
            then (based t s ul)\<lparr>ul_restore_count := 0, ul_severed := Some True\<rparr> else based t s ul)
       | None \<Rightarrow> based t s ul))"
  by (cases s; cases "ul_start_time ul") (simp_all add: observe_def based_def Let_def cong: option.case_cong if_cong)

lemma based_fields:
  assumes "uplink_ok d n es ul"
  shows "ul_sever_after_s (based t s ul) = d" "ul_restore_exchanges (based t s ul) = n"
    "ul_baseline_sum (based t s ul) = last_sum ((t, s, lag) # es)"
    "ul_start_time (based t s ul) = Some (fst (last ((t, s, lag) # es)))" "ul_severed (based t s ul) = ul_severed ul"
    "ul_last_exchange (based t s ul) = (case exchanges es of [] \<Rightarrow> None | t # _ \<Rightarrow> Some t)"
    "ul_restore_count (based t s ul) = ul_restore_count ul" "es \<noteq> [] \<Longrightarrow> verdict_ok d n es (based t s ul)"
  using assms by (auto simp: based_def uplink_ok_def verdict_ok_def Let_def split: list.splits)

lemma exchange_step:
  assumes "uplink_ok d n es ul" "0 \<le> d" "es \<noteq> [] \<Longrightarrow> fst (hd es) \<le> t" "is_exchange (last_sum es) s lag"
  shows "uplink_ok d n ((t, s, lag) # es) (note_exchange t (based t s ul))"
proof -
  let ?e = "(t, s, lag)"
  note u = based_fields(1,2) [OF assms(1), where t = t and s = s]
    based_fields(3,4) [OF assms(1), where t = t and s = s and lag = lag]
    based_fields(5-8) [OF assms(1), where t = t and s = s]
  have hd: "exchanges (?e # es) = t # exchanges es" "anchor (?e # es) = t" using assms(4) by (simp_all add: anchor_def)
  have "verdict_ok d n (?e # es) (note_exchange t (based t s ul))"
  proof (cases "es = []")
    case True
    then show ?thesis using assms(1,2) hd u(5) by (simp add: verdict_ok_def note_exchange_def uplink_ok_def)
  next
    case False
    from exchange_run [OF False u(8) [OF False] u(1,2,6) assms(3) [OF False] assms(2)] False assms(2) hd
    show ?thesis by (simp add: verdict_ok_def)
  qed
  with u hd show ?thesis by (simp add: uplink_ok_def observe_fields)
qed

lemma quiet_step:
  assumes "uplink_ok d n es ul" "es \<noteq> [] \<Longrightarrow> fst (hd es) \<le> t" "\<not> is_exchange (last_sum es) s lag"
  shows "uplink_ok d n ((t, s, lag) # es) (observe t s lag ul)"
proof -
  let ?e = "(t, s, lag)"
  note u = based_fields(1,2) [OF assms(1), where t = t and s = s]
    based_fields(3,4) [OF assms(1), where t = t and s = s and lag = lag]
    based_fields(5-8) [OF assms(1), where t = t and s = s]
  have "ul_baseline_sum ul = last_sum es" "ul_sever_after_s ul = d" using assms(1) by (simp_all add: uplink_ok_def)
  note obs = observe_based [of t s lag ul, unfolded this]
  have xs: "exchanges (?e # es) = exchanges es" using assms(3) by simp
  have anchor: "anchor (?e # es) = (case exchanges es of t # _ \<Rightarrow> t | [] \<Rightarrow> fst (last (?e # es)))"
    by (simp only: anchor_def xs)
  have age: "last_exchange_age t (based t s ul) = Some (t - anchor (?e # es))"
    by (simp add: last_exchange_age_def u anchor split: list.split)
  show ?thesis
  proof (cases "t - anchor (?e # es) > d")
    case True
    with assms(3) obs age u xs show ?thesis by (auto simp: uplink_ok_def verdict_ok_def)
  next
    case young: False
    have "verdict_ok d n (?e # es) (based t s ul)"
    proof (cases "es = []")
      case True
      with young assms(1) u(5) xs show ?thesis by (simp add: verdict_ok_def uplink_ok_def)
    next
      case ne: False
      have "anchor (?e # es) = anchor es" using ne assms(3) by (simp add: anchor_def cong: list.case_cong)
      with young assms(2) [OF ne] u(8) [OF ne] xs ne show ?thesis by (auto simp: verdict_ok_def split: list.splits)
    qed
    with young assms(3) obs age u xs show ?thesis by (simp add: uplink_ok_def)
  qed
qed

lemma uplink_ok_all:
  assumes "0 \<le> d" "sorted (rev (map fst es))"
  shows "uplink_ok d n es (observe_all d n es)"
  using assms(2)
proof (induction es)
  case Nil
  then show ?case by (simp add: uplink_ok_def observe_all_def make_uplink_def)
next
  case (Cons e es)
  obtain t s lag where e: "e = (t, s, lag)" by (cases e)
  let ?ul = "observe_all d n es"
  from Cons have ok: "uplink_ok d n es ?ul" by (simp add: sorted_append)
  have later: "es \<noteq> [] \<Longrightarrow> fst (hd es) \<le> t"
    using Cons.prems e by (cases es) (auto simp: sorted_append)
  have obs: "observe_all d n (e # es) = observe t s lag ?ul" by (simp add: observe_all_def e)
  have base: "ul_baseline_sum ?ul = last_sum es" using ok by (simp add: uplink_ok_def)
  show ?case
  proof (cases "is_exchange (last_sum es) s lag")
    case True
    with exchange_step [OF ok assms(1) later True] show ?thesis by (simp only: obs) (simp add: e observe_based base)
  next
    case False
    from quiet_step [OF ok later False] show ?thesis by (simp only: obs) (simp add: e)
  qed
qed

text \<open>
  A cut and what ends it: at some probe the last exchange was older than \<open>d\<close>, and since then no \<open>n\<close> exchanges
  followed each other within \<open>d\<close>. The observations since are a prefix of the history, which has the newest first.
\<close>

definition cut_holds :: "rat \<Rightarrow> int \<Rightarrow> observations \<Rightarrow> bool" where
  "cut_holds d n es \<longleftrightarrow> (\<exists>later earlier. es = later @ earlier \<and> earlier \<noteq> [] \<and> fst (hd earlier) - anchor earlier > d
     \<and> (\<forall>l1 l2. later = l1 @ l2 \<and> exchanges (l2 @ earlier) \<noteq> exchanges earlier \<longrightarrow>
          int (run_length d (exchanges (l2 @ earlier))) < n))"

lemma exchanges_append: "\<exists>xs. exchanges (l @ es) = xs @ exchanges es"
  by (induction l) auto

lemma cut_holds_Cons:
  "cut_holds d n (e # es) \<longleftrightarrow> fst e - anchor (e # es) > d
     \<or> cut_holds d n es \<and> (exchanges (e # es) \<noteq> exchanges es \<longrightarrow> int (run_length d (exchanges (e # es))) < n)"
    (is "?l \<longleftrightarrow> ?now \<or> ?before")
proof
  have longer: "exchanges (e # es) \<noteq> exchanges es \<Longrightarrow> es = later @ earlier \<Longrightarrow> exchanges (e # es) \<noteq> exchanges earlier" for later earlier
    using exchanges_append [of later earlier] by (cases e) (auto split: if_splits)
  show "?now \<or> ?before" if ?l
  proof -
    from that obtain later earlier where h: "e # es = later @ earlier" "earlier \<noteq> []" "fst (hd earlier) - anchor earlier > d"
      "\<And>l1 l2. later = l1 @ l2 \<Longrightarrow> exchanges (l2 @ earlier) \<noteq> exchanges earlier \<Longrightarrow>
         int (run_length d (exchanges (l2 @ earlier))) < n" unfolding cut_holds_def by blast
    show ?thesis
    proof (cases later)
      case Nil
      with h(1,3) show ?thesis by auto
    next
      case (Cons x later')
      with h(1) have c: "x = e" "es = later' @ earlier" by simp_all
      have "cut_holds d n es"
        unfolding cut_holds_def
      proof (intro exI conjI allI impI)
        fix l1 l2 assume "later' = l1 @ l2 \<and> exchanges (l2 @ earlier) \<noteq> exchanges earlier"
        then show "int (run_length d (exchanges (l2 @ earlier))) < n" using h(4) [of "x # l1" l2] Cons by simp
      qed (use c h(2,3) in simp_all)
      moreover have "exchanges (e # es) \<noteq> exchanges es \<longrightarrow> int (run_length d (exchanges (e # es))) < n"
        using h(4) [of "[]" later] longer [OF _ c(2)] c Cons by auto
      ultimately show ?thesis by blast
    qed
  qed
  show ?l if "?now \<or> ?before"
    using that
  proof
    assume ?now
    then show ?l unfolding cut_holds_def by (intro exI [of _ "[]"] exI [of _ "e # es"]) simp
  next
    assume b: ?before
    then obtain later earlier where h: "es = later @ earlier" "earlier \<noteq> []" "fst (hd earlier) - anchor earlier > d"
      "\<And>l1 l2. later = l1 @ l2 \<Longrightarrow> exchanges (l2 @ earlier) \<noteq> exchanges earlier \<Longrightarrow>
         int (run_length d (exchanges (l2 @ earlier))) < n" unfolding cut_holds_def by blast
    have "int (run_length d (exchanges (l2 @ earlier))) < n"
      if "e # later = l1 @ l2" "exchanges (l2 @ earlier) \<noteq> exchanges earlier" for l1 l2
    proof (cases l1)
      case Nil
      with that h(1) have l2: "l2 @ earlier = e # es" by simp
      show ?thesis
      proof (cases "exchanges (e # es) = exchanges es")
        case True
        with h(1) h(4) [of "[]" later] that(2) l2 show ?thesis by simp
      qed (use b l2 in simp)
    qed (use that h(4) in auto)
    with h(1-3) show ?l unfolding cut_holds_def by (intro exI [of _ "e # later"] exI [of _ earlier]) auto
  qed
qed

text \<open>An exchange, seen from the run it belongs to.\<close>

lemma note_exchange_severed:
  assumes "es \<noteq> []" "verdict_ok d n es ul" "ul_sever_after_s ul = d" "ul_restore_exchanges ul = n"
    "ul_last_exchange ul = (case exchanges es of [] \<Rightarrow> None | t # _ \<Rightarrow> Some t)" "fst (hd es) \<le> t"
  shows "ul_severed (note_exchange t ul)
    = Some (ul_severed ul = Some True \<and> int (run_length d (t # exchanges es)) < n)"
proof (cases "ul_severed ul = Some True")
  case True
  show ?thesis
  proof (cases "exchanges es")
    case Nil
    with True assms(4,5) show ?thesis by (auto simp: note_exchange_def Let_def)
  next
    case (Cons x xs)
    show ?thesis
    proof (cases "t - x \<le> d")
      case near: True
      with assms(6) have "\<not> fst (hd es) - anchor es > d" by (simp add: anchor_def Cons)
      with assms(2) True have "ul_restore_count ul = int (run_length d (x # xs))" by (auto simp: verdict_ok_def Cons)
      with True Cons near assms(3-5) show ?thesis by (auto simp: note_exchange_def Let_def)
    qed (use True Cons assms(3-5) in \<open>auto simp: note_exchange_def Let_def\<close>)
  qed
qed (simp add: note_exchange_def)

lemma severed_iff:
  assumes "0 \<le> d" "sorted (rev (map fst es))"
  shows "ul_severed (observe_all d n es) = Some True \<longleftrightarrow> cut_holds d n es"
  using assms(2)
proof (induction es)
  case Nil
  then show ?case by (simp add: observe_all_def make_uplink_def cut_holds_def)
next
  case (Cons e es)
  obtain t s lag where e: "e = (t, s, lag)" by (cases e)
  let ?ul = "observe_all d n es"
  have ok: "uplink_ok d n es ?ul" "uplink_ok d n (e # es) (observe_all d n (e # es))"
    using uplink_ok_all [OF assms(1)] Cons.prems by (simp_all add: sorted_append)
  have IH: "ul_severed ?ul = Some True \<longleftrightarrow> cut_holds d n es" using Cons by (simp add: sorted_append)
  have later: "es \<noteq> [] \<Longrightarrow> fst (hd es) \<le> t" using Cons.prems e by (cases es) (auto simp: sorted_append)
  have obs: "observe_all d n (e # es) = observe t s lag ?ul" by (simp add: observe_all_def e)
  have base: "ul_baseline_sum ?ul = last_sum es" using ok(1) by (simp add: uplink_ok_def)
  note u = based_fields [OF ok(1), where t = t and s = s]
  show ?case
  proof (cases "is_exchange (last_sum es) s lag")
    case True
    then have x: "exchanges (e # es) = t # exchanges es" "anchor (e # es) = t" by (simp_all add: e anchor_def)
    have "ul_severed (observe_all d n (e # es)) = Some (ul_severed ?ul = Some True \<and> int (run_length d (t # exchanges es)) < n)"
    proof (cases "es = []")
      case True
      then have "ul_severed ?ul = None" by (simp add: observe_all_def make_uplink_def)
      with \<open>is_exchange (last_sum es) s lag\<close> u(5) show ?thesis by (simp add: obs observe_based base note_exchange_def)
    next
      case False
      from note_exchange_severed [OF False u(8) [OF False] u(1,2,6) later [OF False]] True u(5)
      show ?thesis by (simp add: obs observe_based base)
    qed
    with x assms(1) IH show ?thesis by (simp add: cut_holds_Cons e)
  next
    case False
    then have x: "exchanges (e # es) = exchanges es" by (simp add: e)
    show ?thesis
    proof (cases "t - anchor (e # es) > d")
      case True
      with ok(2) show ?thesis by (simp add: uplink_ok_def verdict_ok_def cut_holds_Cons e)
    next
      case young: False
      have "last_exchange_age t (based t s ?ul) = Some (t - anchor (e # es))"
        using u(4) [where lag = lag] u(6) x by (simp add: last_exchange_age_def anchor_def e split: list.split)
      with False young u(5) have "ul_severed (observe_all d n (e # es)) = ul_severed ?ul"
        using ok(1) by (simp add: obs observe_based base uplink_ok_def)
      with young IH x show ?thesis by (simp add: cut_holds_Cons e)
    qed
  qed
qed

text \<open>
  C22. The verdict on the uplink is what the exchanges show. After any sequence of probes in time order, failed ones
  included, and for any threshold \<open>sever_after_s\<close> that is not negative, the link reads severed exactly when some probe found no exchange for longer than \<open>sever_after_s\<close> and
  since then the required number of exchanges has not followed each other within that time; it reads undecided exactly
  before the first exchange and within that time; else it reads up. So a silence of longer than that reads severed at once,
  a link whose exchanges, from the start on, never lay further apart reads up, and after any cut it reads up
  with the required number of exchanges in a row, and no sooner.
\<close>

theorem uplink_verdict:
  assumes "0 \<le> d" "sorted (rev (map fst es))" "es \<noteq> []"
  shows "(ul_severed (observe_all d n es) = Some True \<longleftrightarrow> cut_holds d n es)
    \<and> (ul_severed (observe_all d n es) = None \<longleftrightarrow> exchanges es = [] \<and> fst (hd es) - fst (last es) \<le> d)
    \<and> (fst (hd es) - anchor es > d \<longrightarrow> ul_severed (observe_all d n es) = Some True)
    \<and> (fst (hd es) - anchor es \<le> d \<longrightarrow>
        (exchanges es \<noteq> [] \<and> unbroken d (fst (last es)) (exchanges es) \<longrightarrow> ul_severed (observe_all d n es) = Some False)
        \<and> (exchanges es \<noteq> [] \<and> n \<le> int (run_length d (exchanges es)) \<longrightarrow> ul_severed (observe_all d n es) = Some False))"
proof -
  have "verdict_ok d n es (observe_all d n es)" using uplink_ok_all [OF assms(1,2), of n] assms(3) by (simp add: uplink_ok_def)
  moreover have "anchor es = fst (last es)" if "exchanges es = []" using that by (simp add: anchor_def)
  ultimately show ?thesis
    using severed_iff [OF assms(1,2), of n] by (auto simp: verdict_ok_def split: list.splits if_splits)
qed

section \<open>The row of a probe\<close>

lemma sum_partitions_lag:
  "sum_partitions wm tps acc = Some (lag, c) \<Longrightarrow> fst acc \<le> lag
     \<and> (lag = fst acc \<longleftrightarrow> (\<forall>tp\<in>set tps. \<exists>lo hi. wm tp = Some (lo, hi)
          \<and> hi \<le> (case known_offset tp of Some i \<Rightarrow> i | None \<Rightarrow> lo)))"
proof (induction tps arbitrary: acc)
  case (Cons tp tps)
  then obtain lo hi where w: "wm tp = Some (lo, hi)" by (auto split: option.splits)
  let ?pos = "case known_offset tp of Some i \<Rightarrow> i | None \<Rightarrow> lo"
  let ?acc = "(fst acc + max 0 (hi - ?pos), snd acc + (case known_offset tp of Some i \<Rightarrow> i | None \<Rightarrow> 0))"
  from Cons.prems w have "sum_partitions wm tps ?acc = Some (lag, c)" by (simp add: Let_def)
  from Cons.IH [OF this] w show ?case by (auto simp: max_def split: if_splits)
qed simp

text \<open>Every partition the group has on the bridge topics is caught up, and there is one.\<close>

definition caught_up :: "string list \<Rightarrow> group_offset list option \<Rightarrow> (group_offset \<Rightarrow> (int \<times> int) option) \<Rightarrow> bool" where
  "caught_up topics listing wm \<longleftrightarrow>
     (\<exists>tps. listing = Some tps \<and> filter (\<lambda>tp. go_topic tp \<in> set topics) tps \<noteq> []
       \<and> (\<forall>tp\<in>set tps. go_topic tp \<in> set topics \<longrightarrow> (\<exists>lo hi. wm tp = Some (lo, hi)
            \<and> hi \<le> (case known_offset tp of Some i \<Rightarrow> i | None \<Rightarrow> lo))))"

lemma sum_partitions_unread: "sum_partitions wm tps acc = None \<Longrightarrow> \<exists>tp\<in>set tps. wm tp = None"
  by (induction tps arbitrary: acc) (auto split: option.splits simp: Let_def)

lemma probe_caught_up:
  "case probe_bridge_lag topics listing wm of
     Inl _ \<Rightarrow> \<not> caught_up topics listing wm
   | Inr (l, _) \<Rightarrow> 0 \<le> l \<and> (l = 0 \<longleftrightarrow> caught_up topics listing wm)"
proof (cases "probe_bridge_lag topics listing wm")
  case (Inl e)
  then have "listing = None \<or> filter (\<lambda>tp. go_topic tp \<in> set topics) (the listing) = []
      \<or> sum_partitions wm (filter (\<lambda>tp. go_topic tp \<in> set topics) (the listing)) (0, 0) = None"
    by (auto simp: probe_bridge_lag_def Let_def split: option.splits if_splits)
  with Inl show ?thesis using sum_partitions_unread by (fastforce simp: caught_up_def)
next
  case (Inr r)
  obtain l c where r: "r = (l, c)" by (cases r)
  with Inr obtain tps where t: "listing = Some tps" "filter (\<lambda>tp. go_topic tp \<in> set topics) tps \<noteq> []"
    "sum_partitions wm (filter (\<lambda>tp. go_topic tp \<in> set topics) tps) (0, 0) = Some (l, c)"
    by (auto simp: probe_bridge_lag_def Let_def split: option.splits if_splits)
  from sum_partitions_lag [OF t(3)] t(1,2) Inr r show ?thesis by (auto simp: caught_up_def)
qed

text \<open>
  C24. A probe cannot pass for healthy. The row of a turn carries the lag -1 exactly when the probe failed (a
  group without commits on the bridge topics included), and then it says the probe is not healthy;
  a reading is never negative, and it is zero exactly when every partition of the group is caught
  up; the row claims health only with a verdict on the link, and a failed probe leaves verdict and
  baseline as a silent link would.
\<close>

theorem probe_row_honest:
  assumes "probe = probe_bridge_lag topics listing wm" "probe_turn row_id t now probe ul = (hb_lag, w, ul')"
  shows "(dget (w_row w) ''bridge_group_lag'' = PInt (-1) \<longleftrightarrow> (\<exists>e. probe = Inl e))
    \<and> dget (w_row w) ''bridge_group_lag'' = PInt hb_lag \<and> -1 \<le> hb_lag
    \<and> (hb_lag = 0 \<longleftrightarrow> caught_up topics listing wm)
    \<and> (dget (w_row w) ''probe_healthy'' = PBool True \<longleftrightarrow> (\<exists>r. probe = Inr r) \<and> ul_severed ul' \<noteq> None)
    \<and> (dget (w_row w) ''hq_link_severed'' = PBool True \<longleftrightarrow> ul_severed ul' = Some True)
    \<and> ((\<exists>e. probe = Inl e) \<longrightarrow> ul' = observe t None (Some (hb_lag + 2)) ul \<and> ul_baseline_sum ul' = ul_baseline_sum ul)"
proof -
  have row: "dget (w_row w) ''bridge_group_lag'' = PInt hb_lag"
    "hb_lag = (case probe of Inl _ \<Rightarrow> -1 | Inr (l, _) \<Rightarrow> l)"
    "dget (w_row w) ''hq_link_severed'' = PBool (ul_severed ul' = Some True)"
    "dget (w_row w) ''probe_healthy'' = PBool ((\<exists>r. probe = Inr r) \<and> ul_severed ul' \<noteq> None)"
    using assms(2)
    by (auto simp: probe_turn_def Let_def build_buffer_write_def dget_def dget_or_def lag_unknown_def split: sum.splits)
  have quiet: "ul' = observe t None (Some (hb_lag + 2)) ul \<and> ul_baseline_sum ul' = ul_baseline_sum ul" if "probe = Inl e" for e
    using assms(2) that row(2)
    by (auto simp: probe_turn_def Let_def observe_def is_exchange_def lag_unknown_def split: option.splits)
  note read = probe_caught_up [of topics listing wm, folded assms(1)]
  show ?thesis
  proof (cases probe)
    case (Inl e)
    from quiet [OF Inl] have "ul_baseline_sum ul' = ul_baseline_sum ul" "ul' = observe t None (Some (hb_lag + 2)) ul"
      by blast+
    with row read Inl show ?thesis by auto
  next
    case (Inr r)
    with row read show ?thesis by (cases r) auto
  qed
qed

section \<open>The traffic meter\<close>

text \<open>
  The answer of the meter to a reading: unspecified until a window has passed since the first one, then
  active exactly when the sum last grew within the window, the first reading counting as growth; so a
  source that never moved reads active at the very instant the window ends.
\<close>

lemma meter_reading:
  assumes "tm_first_time tm = Some f"
  shows "fst (observe_traffic t (Some s) tm) =
    (if t - f < tm_idle_after_s tm then ''UNSPECIFIED''
     else if s > tm_last_sum tm \<or> t - tm_last_advance tm \<le> tm_idle_after_s tm then
       (if s > tm_last_sum tm \<and> 0 > tm_idle_after_s tm then ''IDLE'' else ''ACTIVE'')
     else ''IDLE'')"
  using assms by (auto simp: observe_traffic_def Let_def)

lemma meter_boundary:
  "fst (observe_traffic 30 (Some 5) (snd (observe_traffic 0 (Some 5) (make_meter 30)))) = ''ACTIVE''
   \<and> fst (observe_traffic 31 (Some 5) (snd (observe_traffic 0 (Some 5) (make_meter 30)))) = ''IDLE''"
  by code_simp

section \<open>Examples\<close>

text \<open>Exchanges until 8, a cut noticed at 24, and two exchanges of the restored link.\<close>

definition sample_probes :: observations where
  "sample_probes = [(30, Some 14, Some 3), (28, Some 12, Some 3), (24, Some 10, Some 9), (16, None, None),
     (8, Some 10, Some 4), (4, Some 8, Some 4), (0, Some 8, Some 4)]"

text \<open>One exchange after the cut leaves the link severed, the second within the limit brings it up.\<close>

theorem uplink_verdict_witness:
  "ul_severed (observe_all 14 2 sample_probes) = Some False \<and> ul_severed (observe_all 14 2 (drop 1 sample_probes)) = Some True
   \<and> ul_severed (observe_all 14 2 (drop 2 sample_probes)) = Some True"
proof -
  have s: "sorted (rev (map fst sample_probes))" "sorted (rev (map fst (drop 1 sample_probes)))"
    "sorted (rev (map fst (drop 2 sample_probes)))"
    by (simp_all add: sample_probes_def)
  have f: "exchanges sample_probes = [30, 28, 8]" "exchanges (drop 1 sample_probes) = [28, 8]" "exchanges (drop 2 sample_probes) = [8]"
    "anchor sample_probes = 30" "anchor (drop 1 sample_probes) = 28" "anchor (drop 2 sample_probes) = 8"
    by (simp_all add: sample_probes_def anchor_def is_exchange_def)
  have d: "drop 1 sample_probes = (28, Some 12, Some 3) # drop 2 sample_probes"
    "drop 2 sample_probes = (24, Some 10, Some 9) # drop 3 sample_probes" by (simp_all add: sample_probes_def)
  have "cut_holds 14 2 (drop 2 sample_probes)" using f(6) by (simp add: d(2) cut_holds_Cons)
  then have "cut_holds 14 2 (drop 1 sample_probes)" using f(2,5) unfolding d(1) cut_holds_Cons by simp
  with uplink_verdict [OF _ s(1), of 14 2] uplink_verdict [OF _ s(2), of 14 2] uplink_verdict [OF _ s(3), of 14 2]
  show ?thesis by (simp add: f) (simp add: sample_probes_def)
qed

theorem probe_row_honest_witness:
  "dget (w_row (fst (snd (probe_turn ''edge'' 5 0 (probe_bridge_lag [''tactical-events''] (Some []) (\<lambda>_. None)) (make_uplink 14 2)))))
     ''bridge_group_lag'' = PInt (-1)"
proof -
  let ?p = "probe_bridge_lag [''tactical-events''] (Some []) (\<lambda>_. None)"
  have "?p = Inl BridgeGroupAbsent" by (simp add: probe_bridge_lag_def)
  with probe_row_honest [OF refl, where row_id = "''edge''" and t = 5 and now = 0 and ul = "make_uplink 14 2"
      and topics = "[''tactical-events'']" and listing = "Some []" and wm = "\<lambda>_. None"]
  show ?thesis by (metis prod.collapse)
qed

end
