(* ===== verification/Heartbeat.thy ===== *)
theory Heartbeat
  imports Link_Spec Uplink
begin

text \<open>
  The heartbeat on its way: \<open>edge_buffer_monitor.link_heartbeat_loop\<close> and \<open>link_heartbeat.encode_heartbeat\<close> at the
  edge, \<open>decode_heartbeat\<close> and the link monitor at the other end. The generated classes are parameters:
  \<open>serialize\<close> is None where a field does not fit, \<open>traffic_value\<close> is None where the enum has no such name.
\<close>

section \<open>The sender\<close>

definition encode_heartbeat ::
  "(link_pb \<Rightarrow> string option) \<Rightarrow> (string \<Rightarrow> int option) \<Rightarrow> heartbeat \<Rightarrow> string option" where
  "encode_heartbeat serialize traffic_value hb =
     (case traffic_value (traffic_prefix @ hb_traffic hb) of
        None \<Rightarrow> None
      | Some v \<Rightarrow> serialize \<lparr>pb_link_id = hb_link_id hb, pb_emitted_at = hb_emitted_at hb, pb_traffic = v,
          pb_bridge_lag = hb_bridge_lag hb\<rparr>)"

text \<open>
  One turn: the sum the traffic probe gives (None when it fails or reads nothing), the clocks, the lag the
  buffer probe found last, and whether the producer takes the payload. The answer is the payload
  produced, if any, and the meter.
\<close>

definition heartbeat_turn ::
  "(link_pb \<Rightarrow> string option) \<Rightarrow> (string \<Rightarrow> int option) \<Rightarrow> string \<Rightarrow> rat \<Rightarrow> int \<Rightarrow> int option \<Rightarrow> int \<Rightarrow> bool
     \<Rightarrow> traffic_meter \<Rightarrow> string option \<times> traffic_meter" where
  "heartbeat_turn serialize traffic_value link_id now_mono now offset_sum lag takes tm =
     (let (traffic, tm1) = observe_traffic now_mono offset_sum tm;
          payload = encode_heartbeat serialize traffic_value
            \<lparr>hb_link_id = link_id, hb_emitted_at = now, hb_traffic = traffic, hb_bridge_lag = lag\<rparr>
      in (if takes then payload else None, tm1))"

text \<open>\<open>start_link_heartbeat\<close>: a heartbeat runs when it is enabled and the link has an id.\<close>

definition start_link_heartbeat :: "string option \<Rightarrow> string \<Rightarrow> bool" where
  "start_link_heartbeat enabled_var link_id \<longleftrightarrow>
     lower (case enabled_var of Some s \<Rightarrow> s | None \<Rightarrow> ''false'') = ''true'' \<and> link_id \<noteq> []"

section \<open>What arrives\<close>

text \<open>What the generated classes promise: a serialised message parses to itself, names and values belong together.\<close>

definition wire_format ::
  "(link_pb \<Rightarrow> string option) \<Rightarrow> (string \<Rightarrow> link_pb option) \<Rightarrow> (string \<Rightarrow> int option) \<Rightarrow> (int \<Rightarrow> string option) \<Rightarrow> bool" where
  "wire_format serialize parse traffic_value traffic_name \<longleftrightarrow>
     (\<forall>m bs. serialize m = Some bs \<longrightarrow> parse bs = Some m)
     \<and> (\<forall>n v. traffic_value n = Some v \<longrightarrow> traffic_name v = Some n)"

lemma remove_prefix_append: "remove_prefix p (p @ s) = s"
  by (simp add: remove_prefix_def)

lemma observe_traffic_name: "fst (observe_traffic now s tm) \<in> {''UNSPECIFIED'', ''ACTIVE'', ''IDLE''}"
  by (auto simp: observe_traffic_def Let_def split: option.splits)

lemma decode_encode:
  assumes "wire_format serialize parse traffic_value traffic_name"
    and "encode_heartbeat serialize traffic_value hb = Some bs" "hb_link_id hb \<noteq> []" "hb_traffic hb \<noteq> []"
  shows "decode_heartbeat parse traffic_name bs = Some hb"
  using assms
  by (auto simp: wire_format_def encode_heartbeat_def decode_heartbeat_def remove_prefix_append split: option.splits)

lemma probe_lag_nonneg: "probe_bridge_lag topics listing wm = Inr (l, c) \<Longrightarrow> 0 \<le> l"
  by (auto simp: probe_bridge_lag_def Let_def split: option.splits if_splits dest!: sum_partitions_lag)

lemma ingest_row:
  assumes "lk_trackers lk (hb_link_id hb) = Some tk"
  shows "dget (w_row (fst (link_row t now (hb_link_id hb) (ingest (Some hb) arrival wall lk)))) ''bridge_lag'' = PInt (hb_bridge_lag hb)
    \<and> dget (w_row (fst (link_row t now (hb_link_id hb) (ingest (Some hb) arrival wall lk)))) ''last_heartbeat_at'' = PTime (hb_emitted_at hb)
    \<and> dget (w_row (fst (link_row t now (hb_link_id hb) (ingest (Some hb) arrival wall lk)))) ''id'' = PStr (hb_link_id hb)"
  using assms
  by (auto simp: ingest_def link_row_def observe_band_def held_band_def build_row_def Let_def split: option.splits prod.splits)

text \<open>
  C25. A heartbeat arrives as it was sent. Whatever the meter and the probes said, a payload that is produced decodes
  to the link, the emission time, the traffic and the lag of the turn; and the next row of that
  link carries the lag and the emission time of that turn. In particular the row shows -1 exactly when the
  last probe of the bridge failed at the edge.
\<close>

theorem heartbeat_travels:
  assumes "wire_format serialize parse traffic_value traffic_name" "start_link_heartbeat enabled_var link_id"
    and "probe_turn row_id t0 now0 (probe_bridge_lag topics listing wm) ul = (lag, w, ul1)"
    and "heartbeat_turn serialize traffic_value link_id t now s lag True tm = (Some bs, tm1)"
  shows "decode_heartbeat parse traffic_name bs = Some \<lparr>hb_link_id = link_id, hb_emitted_at = now,
        hb_traffic = fst (observe_traffic t s tm), hb_bridge_lag = lag\<rparr>
    \<and> (lk_trackers lk link_id \<noteq> None \<longrightarrow>
        (let r = w_row (fst (link_row t2 now2 link_id (ingest (decode_heartbeat parse traffic_name bs) t1 wall lk))) in
         dget r ''id'' = PStr link_id \<and> dget r ''last_heartbeat_at'' = PTime now \<and> dget r ''bridge_lag'' = PInt lag
         \<and> (dget r ''bridge_lag'' = PInt lag_unknown \<longleftrightarrow>
            (case probe_bridge_lag topics listing wm of Inl _ \<Rightarrow> True | Inr _ \<Rightarrow> False))))"
proof -
  let ?hb = "\<lparr>hb_link_id = link_id, hb_emitted_at = now, hb_traffic = fst (observe_traffic t s tm), hb_bridge_lag = lag\<rparr>"
  have "encode_heartbeat serialize traffic_value ?hb = Some bs"
    using assms(4) by (auto simp: heartbeat_turn_def Let_def split: prod.splits)
  from decode_encode [OF assms(1) this] assms(2) observe_traffic_name [of t s tm]
  have d: "decode_heartbeat parse traffic_name bs = Some ?hb" by (auto simp: start_link_heartbeat_def)
  have "lag = (case probe_bridge_lag topics listing wm of Inl _ \<Rightarrow> lag_unknown | Inr (l, _) \<Rightarrow> l)"
    using assms(3) by (auto simp: probe_turn_def Let_def split: sum.splits)
  then have "lag = lag_unknown \<longleftrightarrow> (case probe_bridge_lag topics listing wm of Inl _ \<Rightarrow> True | Inr _ \<Rightarrow> False)"
    using probe_lag_nonneg [of topics listing wm] by (auto simp: lag_unknown_def split: sum.splits)
  then show ?thesis using d ingest_row [of lk ?hb _ t2 now2 t1 wall] by (auto simp: Let_def)
qed

section \<open>An example\<close>

text \<open>A wire of one message, a group without commits, and the row of link l1 after its heartbeat.\<close>

definition sample_pb :: link_pb where
  "sample_pb = \<lparr>pb_link_id = ''l1'', pb_emitted_at = 5, pb_traffic = 0, pb_bridge_lag = -1\<rparr>"

definition sample_serialize :: "link_pb \<Rightarrow> string option" where
  "sample_serialize m = (if m = sample_pb then Some ''hb'' else None)"

definition sample_links :: link_state where
  "sample_links = make_links [''l1''] [] 15 0 3 15 10"

theorem heartbeat_travels_witness:
  "dget (w_row (fst (link_row 2 9 ''l1'' (ingest (decode_heartbeat (\<lambda>bs. if bs = ''hb'' then Some sample_pb else None)
       (\<lambda>v. if v = 0 then Some ''LINK_TRAFFIC_UNSPECIFIED'' else None) ''hb'') 1 6 sample_links)))) ''bridge_lag'' = PInt (-1)"
proof -
  let ?parse = "\<lambda>bs. if bs = ''hb'' then Some sample_pb else None"
  let ?val = "\<lambda>n. if n = ''LINK_TRAFFIC_UNSPECIFIED'' then Some (0 :: int) else None"
  let ?name = "\<lambda>v :: int. if v = 0 then Some ''LINK_TRAFFIC_UNSPECIFIED'' else None"
  let ?ul = "make_uplink 14 2" and ?tm = "make_meter 30"
  have wire: "wire_format sample_serialize ?parse ?val ?name"
    by (auto simp: wire_format_def sample_serialize_def split: if_splits)
  have start: "start_link_heartbeat (Some ''true'') ''l1''" by code_simp
  have probe: "probe_turn ''edge'' 0 0 (probe_bridge_lag [] (Some []) (\<lambda>_. None)) ?ul
      = (- 1, fst (snd (probe_turn ''edge'' 0 0 (probe_bridge_lag [] (Some []) (\<lambda>_. None)) ?ul)),
         snd (snd (probe_turn ''edge'' 0 0 (probe_bridge_lag [] (Some []) (\<lambda>_. None)) ?ul)))"
    by (simp add: probe_turn_def probe_bridge_lag_def lag_unknown_def Let_def)
  have turn: "heartbeat_turn sample_serialize ?val ''l1'' 0 5 None (- 1) True ?tm = (Some ''hb'', ?tm)"
    by (simp add: heartbeat_turn_def observe_traffic_def encode_heartbeat_def traffic_prefix_def sample_serialize_def sample_pb_def)
  have "lk_trackers sample_links ''l1'' \<noteq> None" by (simp add: sample_links_def make_links_def)
  with heartbeat_travels [OF wire start probe turn, THEN conjunct2, of sample_links 2 9 1 6] show ?thesis by (simp only: Let_def) simp
qed

end
