(* ===== verification/Uplink_Loop.thy ===== *)
theory Uplink_Loop
  imports Heartbeat
begin

text \<open>
  The edge buffer monitor as it runs: its settings from the environment, the loop of probe turns over
  them, and how its verdict relates to what the relay really does. The relay is the sum of the offsets it
  has committed, as a function of time; the loop sees that sum only when a probe succeeds. So a verdict comes
  late, and the threshold must leave room for that: the lemmas bound how much.
\<close>

section \<open>The settings\<close>

text \<open>\<open>os.getenv(name, default)\<close>, and the numbers the module reads from it when it is imported.\<close>

definition getenv_or :: "(string \<Rightarrow> string option) \<Rightarrow> string \<Rightarrow> string \<Rightarrow> string" where
  "getenv_or getenv name dflt = (case getenv name of Some s \<Rightarrow> s | None \<Rightarrow> dflt)"

fun flt_add :: "flt \<Rightarrow> flt \<Rightarrow> flt" where
  "flt_add (Fin x) (Fin y) = to_float (x + y)"
| "flt_add NaN f = NaN"
| "flt_add f NaN = NaN"
| "flt_add PosInf NegInf = NaN"
| "flt_add NegInf PosInf = NaN"
| "flt_add PosInf f = PosInf"
| "flt_add NegInf f = NegInf"
| "flt_add f g = g"

record buffer_settings =
  bs_brokers :: string
  bs_group :: string
  bs_row_id :: string
  bs_topics :: "string list"
  bs_probe_interval_s :: flt
  bs_exchange_period_s :: flt
  bs_sever_after_s :: flt
  bs_restore_exchanges :: int

text \<open>\<open>float(os.getenv(...) or default_sever_after_s(...))\<close>; doubling a float is adding it to itself.\<close>

definition sever_after :: "string \<Rightarrow> flt \<Rightarrow> flt \<Rightarrow> flt res" where
  "sever_after raw exchange_period_s probe_interval_s =
     (if raw \<noteq> [] then py_float (PStr raw)
      else (let s = flt_add exchange_period_s probe_interval_s in Inr (flt_add s s)))"

definition read_buffer_settings :: "(string \<Rightarrow> string option) \<Rightarrow> buffer_settings res" where
  "read_buffer_settings getenv =
     rbind (py_float (PStr (getenv_or getenv ''EDGE_BUFFER_PROBE_INTERVAL_S'' ''2''))) (\<lambda>h.
     rbind (py_float (PStr (getenv_or getenv ''LINK_EXCHANGE_PERIOD_S'' ''5.0''))) (\<lambda>e.
     rbind (sever_after (getenv_or getenv ''LINK_SEVER_AFTER_S'' []) e h) (\<lambda>d.
     rbind (py_int (PStr (getenv_or getenv ''LINK_RESTORE_EXCHANGES'' ''2''))) (\<lambda>n.
       Inr \<lparr>bs_brokers = getenv_or getenv ''KAFKA_BROKERS'' ''redpanda-edge:9092'',
         bs_group = getenv_or getenv ''BRIDGE_CONSUMER_GROUP'' ''bridge-group'',
         bs_row_id = getenv_or getenv ''BUFFER_ROW_ID'' ''edge'',
         bs_topics = csv (getenv_or getenv ''BRIDGE_TOPICS'' ''raw-sensor-stream,tactical-events''),
         bs_probe_interval_s = h, bs_exchange_period_s = e, bs_sever_after_s = d, bs_restore_exchanges = n\<rparr>))))"

lemma default_buffer_settings:
  "read_buffer_settings (\<lambda>_. None) = Inr \<lparr>bs_brokers = ''redpanda-edge:9092'', bs_group = ''bridge-group'', bs_row_id = ''edge'',
     bs_topics = [''raw-sensor-stream'', ''tactical-events''], bs_probe_interval_s = Fin 2, bs_exchange_period_s = Fin 5,
     bs_sever_after_s = Fin 14, bs_restore_exchanges = 2\<rparr>"
  by code_simp

text \<open>Without an override the threshold is the one derived from the two periods.\<close>

lemma derived_threshold:
  assumes "read_buffer_settings getenv = Inr bs" "getenv_or getenv ''LINK_SEVER_AFTER_S'' [] = []"
    and "bs_exchange_period_s bs = Fin e" "bs_probe_interval_s bs = Fin h" "bs_sever_after_s bs = Fin d"
  shows "d = default_sever_after_s e h"
  using assms
  by (auto simp: read_buffer_settings_def sever_after_def default_sever_after_s_def to_float_def res_simps Let_def split: if_splits)

section \<open>The loop\<close>

text \<open>What a turn gets: the two clocks, and what the broker answers.\<close>

record probe_input =
  pi_mono :: rat
  pi_now :: int
  pi_listing :: "group_offset list option"
  pi_watermarks :: "group_offset \<Rightarrow> (int \<times> int) option"

definition probe_of :: "string list \<Rightarrow> probe_input \<Rightarrow> probe_error + (int \<times> int)" where
  "probe_of topics i = probe_bridge_lag topics (pi_listing i) (pi_watermarks i)"

fun run_probes :: "string list \<Rightarrow> string \<Rightarrow> probe_input list \<Rightarrow> uplink \<Rightarrow> pg_write list \<times> uplink" where
  "run_probes topics row_id [] ul = ([], ul)"
| "run_probes topics row_id (i # ins) ul =
     (let (_, w, ul1) = probe_turn row_id (pi_mono i) (pi_now i) (probe_of topics i) ul;
          (ws, ul2) = run_probes topics row_id ins ul1
      in (w # ws, ul2))"

text \<open>
  Whether the heartbeat task is started, and the rows the turns write; a write that fails is logged and
  nothing else. A threshold that is infinite or NaN is outside the model.
\<close>

definition edge_buffer_loop ::
  "(string \<Rightarrow> string option) \<Rightarrow> buffer_settings \<Rightarrow> probe_input list \<Rightarrow> (bool \<times> pg_write list) option" where
  "edge_buffer_loop getenv bs inputs =
     (case bs_sever_after_s bs of
        Fin d \<Rightarrow> Some (start_link_heartbeat (getenv ''LINK_HEARTBEAT_ENABLED'') (getenv_or getenv ''LINK_ID'' []),
          fst (run_probes (bs_topics bs) (bs_row_id bs) inputs (make_uplink d (bs_restore_exchanges bs))))
      | _ \<Rightarrow> None)"

text \<open>The turns as observations, newest first.\<close>

definition reading :: "string list \<Rightarrow> probe_input \<Rightarrow> rat \<times> int option \<times> int option" where
  "reading topics i = (pi_mono i, (case probe_of topics i of Inl _ \<Rightarrow> None | Inr (l, c) \<Rightarrow> Some c),
     (case probe_of topics i of Inl _ \<Rightarrow> None | Inr (l, c) \<Rightarrow> Some l))"

definition readings :: "string list \<Rightarrow> probe_input list \<Rightarrow> observations" where
  "readings topics inputs = rev (map (reading topics) inputs)"

lemma probe_turn_reading:
  assumes "probe_turn row_id (pi_mono i) now (probe_of topics i) ul = (hb, w, ul')"
  shows "ul' = observe (fst (reading topics i)) (fst (snd (reading topics i))) (snd (snd (reading topics i))) ul"
    "dget (w_row w) ''hq_link_severed'' = PBool (ul_severed ul' = Some True)"
  using assms by (auto simp: probe_turn_def reading_def build_buffer_write_def dget_def dget_or_def Let_def split: sum.splits)

lemma run_probes_length: "length (fst (run_probes topics row_id ins ul)) = length ins"
  by (induction ins arbitrary: ul) (auto simp: split_beta)

lemma run_probes_rows:
  assumes "inputs \<noteq> []"
  shows "dget (w_row (last (fst (run_probes topics row_id inputs (observe_all d n es))))) ''hq_link_severed''
    = PBool (ul_severed (observe_all d n (readings topics inputs @ es)) = Some True)"
  using assms
proof (induction inputs arbitrary: es)
  case (Cons i ins)
  obtain hb w ul where p: "probe_turn row_id (pi_mono i) (pi_now i) (probe_of topics i) (observe_all d n es) = (hb, w, ul)"
    by (cases "probe_turn row_id (pi_mono i) (pi_now i) (probe_of topics i) (observe_all d n es)") auto
  have ul: "ul = observe_all d n (reading topics i # es)"
    using probe_turn_reading(1) [OF p] by (simp add: observe_all_def)
  obtain ws ul2 where r: "run_probes topics row_id ins ul = (ws, ul2)" by fastforce
  show ?case
  proof (cases "ins = []")
    case True
    with p ul probe_turn_reading(2) [OF p] show ?thesis by (simp add: readings_def)
  next
    case False
    with run_probes_length [of topics row_id ins ul] r have "ws \<noteq> []" by auto
    with Cons.IH [OF False, of "reading topics i # es"] r p ul show ?thesis by (simp add: readings_def)
  qed
qed simp

section \<open>What the probes see of a relay\<close>

text \<open>The time of the newest reading.\<close>

fun newest_reading :: "observations \<Rightarrow> rat" where
  "newest_reading [] = 0"
| "newest_reading ((t, s, lag) # es) = (if s = None then newest_reading es else t)"

text \<open>
  The observations of a relay, newest first: the first probe succeeded, each reading is the relay's sum at
  its time, and no probe comes later than \<open>q\<close> after the newest reading before it.
\<close>

fun watched :: "rat \<Rightarrow> (rat \<Rightarrow> int) \<Rightarrow> observations \<Rightarrow> bool" where
  "watched q relay [] \<longleftrightarrow> False"
| "watched q relay [(t, s, lag)] \<longleftrightarrow> s = Some (relay t)"
| "watched q relay ((t, s, lag) # e # es) \<longleftrightarrow>
     (s = None \<and> lag = None \<or> s = Some (relay t)) \<and> fst e \<le> t \<and> t \<le> newest_reading (e # es) + q
     \<and> watched q relay (e # es)"

lemma watched_sorted: "watched q relay es \<Longrightarrow> sorted (rev (map fst es)) \<and> es \<noteq> []"
proof (induction q relay es rule: watched.induct)
  case (3 q relay t s lag e es)
  then have "\<forall>x\<in>set (e # es). fst x \<le> fst e" by (cases e) (auto simp: sorted_append)
  with 3 show ?case by (auto simp: sorted_append)
qed auto

lemma watched_Cons:
  assumes "watched q relay ((t, s, lag) # es)" "es \<noteq> []"
  shows "s = None \<and> lag = None \<or> s = Some (relay t)" "fst (hd es) \<le> t" "t \<le> newest_reading es + q" "watched q relay es"
  using assms by (cases es; auto)+

lemma watched_reading:
  "watched q relay es \<Longrightarrow> last_sum es = Some (relay (newest_reading es)) \<and> newest_reading es \<le> fst (hd es)"
  by (induction q relay es rule: watched.induct) auto

lemma anchor_Cons:
  "es \<noteq> [] \<Longrightarrow> anchor ((t, s, lag) # es) = (if is_exchange (last_sum es) s lag then t else anchor es)"
  by (simp add: anchor_def cong: list.case_cong)

text \<open>The newest reading is no higher than the sum at the last exchange.\<close>

lemma anchor_reading:
  assumes "watched q relay es"
  shows "relay (newest_reading es) \<le> relay (anchor es) \<and> anchor es \<le> newest_reading es"
  using assms
proof (induction q relay es rule: watched.induct)
  case (2 q relay t s lag)
  then show ?case by (simp add: anchor_def)
next
  case (3 q relay t s lag e es)
  let ?es = "e # es"
  note w = watched_Cons [OF 3(2) list.distinct(2)] and IH = 3(1) [OF watched_Cons(4) [OF 3(2) list.distinct(2)]]
  note r = watched_reading [OF w(4)]
  consider "s = None" "lag = None" | "s = Some (relay t)" using w(1) by auto
  then show ?case
  proof cases
    case 1
    then have "\<not> is_exchange (last_sum ?es) s lag" by (simp add: is_exchange_def)
    with 1 IH anchor_Cons [of ?es t s lag] show ?thesis by simp
  next
    case 2
    show ?thesis
    proof (cases "is_exchange (last_sum ?es) s lag")
      case False
      with 2 r have "relay t \<le> relay (newest_reading ?es)" by (auto simp: is_exchange_def)
      moreover have "newest_reading ?es \<le> t" using r w(2) by simp
      ultimately show ?thesis using 2 IH False anchor_Cons [of ?es t s lag] by simp
    qed (use 2 anchor_Cons [of ?es t s lag] in simp)
  qed
qed simp

section \<open>How late a verdict can be\<close>

text \<open>The relay commits at least once in every stretch of \<open>p\<close> from \<open>r\<close> on.\<close>

definition commits :: "rat \<Rightarrow> rat \<Rightarrow> (rat \<Rightarrow> int) \<Rightarrow> bool" where
  "commits p r relay \<longleftrightarrow> mono relay \<and> (\<forall>t\<ge>r. relay t < relay (t + p))"

text \<open>At a probe at \<open>t\<close>, the last exchange with a relay that commits lies less than \<open>p + q\<close> back.\<close>

lemma anchor_recent:
  assumes "watched q relay es" "commits p r relay" "t \<le> newest_reading es + q"
  shows "anchor es \<ge> r \<Longrightarrow> t - anchor es < p + q" "anchor es \<le> r \<Longrightarrow> t < r + p + q"
proof -
  note a = anchor_reading [OF assms(1)]
  have mono: "x \<le> y \<Longrightarrow> relay x \<le> relay y" for x y using assms(2) by (auto simp: commits_def mono_def)
  have before: "newest_reading es < y + p" if "r \<le> y" "relay (newest_reading es) \<le> relay y" for y
    using that assms(2) mono [of "y + p" "newest_reading es"] unfolding commits_def by (meson le_less_trans not_le)
  show "anchor es \<ge> r \<Longrightarrow> t - anchor es < p + q" using before [of "anchor es"] a assms(3) by simp
  show "anchor es \<le> r \<Longrightarrow> t < r + p + q" using before [of r] a mono [of "anchor es" r] assms(3) by simp
qed

lemma oldest_anchor: "watched q relay es \<Longrightarrow> fst (last es) \<le> anchor es"
proof (induction q relay es rule: watched.induct)
  case (3 q relay t s lag e es)
  then have "fst (last (e # es)) \<le> anchor (e # es)" "fst (last (e # es)) \<le> t"
    using watched_sorted [of q relay "(t, s, lag) # e # es"] by (auto simp: sorted_append split: if_splits)
  with anchor_Cons [of "e # es" t s lag] show ?case by simp
qed (auto simp: anchor_def)

lemma newest_to_head: "watched q relay es \<Longrightarrow> 0 \<le> q \<Longrightarrow> fst (hd es) \<le> newest_reading es + q"
  by (induction q relay es rule: watched.induct) auto

lemma steady_unbroken:
  assumes "watched q relay es" "commits p (fst (last es)) relay" "p + q \<le> d" "0 \<le> d"
  shows "unbroken d (fst (last es)) (exchanges es)"
  using assms
proof (induction q relay es rule: watched.induct)
  case (3 q relay t s lag e es)
  let ?es = "e # es"
  note w = watched_Cons [OF 3(2) list.distinct(2)]
  have IH: "unbroken d (fst (last ?es)) (exchanges ?es)" using 3 w(4) by simp
  have c: "commits p (fst (last ?es)) relay" using 3(3) by simp
  have "t - anchor ?es \<le> d"
    using anchor_recent(1) [OF w(4) c w(3)] oldest_anchor [OF w(4)] 3(4) by simp
  with IH show ?case by (cases "exchanges ?es") (auto simp: anchor_def)
qed auto

lemma run_length_pos: "Suc 0 \<le> run_length d (x # xs)"
  by (cases xs) auto

lemma restored_run:
  assumes "watched q relay es" "commits p r relay" "fst (last es) \<le> r" "p + q \<le> d" "0 < p + q"
    and "exchanges es = x # xs" "r + of_nat j * (p + q) \<le> x"
  shows "Suc j \<le> run_length d (x # xs)"
  using assms
proof (induction q relay es arbitrary: j x xs rule: watched.induct)
  case (2 q relay t s lag)
  then have "of_nat j * (p + q) \<le> 0" by (auto split: if_splits)
  moreover have "0 < of_nat j * (p + q)" if "0 < j" using 2(5) that by simp
  ultimately show ?case using run_length_pos [of d x xs] by (cases "j = 0") auto
next
  case (3 q relay t s lag e es)
  let ?es = "e # es"
  note w = watched_Cons [OF 3(2) list.distinct(2)]
  show ?case
  proof (cases "is_exchange (last_sum ?es) s lag")
    case False
    with 3 w(4) show ?thesis by simp
  next
    case True
    then have x: "x = t" "xs = exchanges ?es" using 3(7) by auto
    show ?thesis
    proof (cases j)
      case 0
      then show ?thesis using run_length_pos [of d x xs] by simp
    next
      case (Suc i)
      have far: "r + of_nat i * (p + q) + p + q \<le> t" using 3(8) x(1) Suc by (simp add: algebra_simps)
      have "0 \<le> of_nat i * (p + q)" using 3(6) by simp
      then have "r + p + q \<le> t" using far by simp
      then have old: "r < anchor ?es" using anchor_recent(2) [OF w(4) 3(3) w(3)] by (meson not_le)
      have near: "t - anchor ?es < p + q" using anchor_recent(1) [OF w(4) 3(3) w(3)] old by simp
      obtain y ys where y: "exchanges ?es = y # ys"
        using old 3(4) by (cases "exchanges ?es") (auto simp: anchor_def)
      then have a: "anchor ?es = y" by (simp add: anchor_def)
      have "Suc i \<le> run_length d (y # ys)"
        using 3(1) [OF w(4) 3(3) _ 3(5,6) y] 3(4) far near a by (simp add: algebra_simps)
      with near a x y Suc 3(5) show ?thesis by simp
    qed
  qed
qed simp

lemma cut_anchor:
  assumes "watched q relay es" "\<forall>t\<ge>c. relay t = relay c" "\<forall>(t, s, lag)\<in>set es. c < t \<longrightarrow> lag \<noteq> Some 0"
    and "fst (last es) \<le> c" "0 \<le> q"
  shows "anchor es \<le> c + q"
  using assms
proof (induction q relay es rule: watched.induct)
  case (3 q relay t s lag e es)
  let ?es = "e # es"
  note w = watched_Cons [OF 3(2) list.distinct(2)] and r = watched_reading [OF watched_Cons(4) [OF 3(2) list.distinct(2)]]
  have "\<forall>(t, s, lag)\<in>set ?es. c < t \<longrightarrow> lag \<noteq> Some 0" "fst (last ?es) \<le> c" using 3(4,5) by simp_all
  note IH = 3(1) [OF w(4) 3(3) this 3(6)]
  have "t \<le> c + q" if ex: "is_exchange (last_sum ?es) s lag"
  proof (cases "newest_reading ?es \<le> c \<or> t \<le> c")
    case True
    with w(3) 3(6) show ?thesis by auto
  next
    case False
    then have late: "c \<le> newest_reading ?es" "c \<le> t" "c < t" by simp_all
    then have "relay (newest_reading ?es) = relay t" using 3(3) by metis
    moreover have "lag \<noteq> Some 0" using 3(4) late(3) by simp
    moreover have "relay (newest_reading ?es) < relay t \<or> lag = Some 0"
      using ex w(1) unfolding conjunct1 [OF r] is_exchange_def by (elim disjE) simp_all
    ultimately show ?thesis by simp
  qed
  with IH anchor_Cons [of ?es t s lag] show ?case by simp
qed (auto simp: anchor_def)

section \<open>The row and the relay\<close>

lemma steady_up:
  assumes "watched q relay es" "commits p (fst (last es)) relay" "p + q \<le> d" "0 \<le> d" "0 \<le> q"
  shows "ul_severed (observe_all d n es) \<noteq> Some True"
proof -
  have ok: "es \<noteq> []" "verdict_ok d n es (observe_all d n es)"
    using uplink_ok_all [OF assms(4)] watched_sorted [OF assms(1)] by (auto simp: uplink_ok_def)
  have "fst (hd es) - anchor es < p + q"
    using anchor_recent(1) [OF assms(1,2) newest_to_head [OF assms(1,5)]] oldest_anchor [OF assms(1)] by simp
  with ok(2) assms(3) steady_unbroken [OF assms(1-4)] show ?thesis
    by (auto simp: verdict_ok_def split: if_splits list.splits)
qed

lemma cut_severed:
  assumes "watched q relay es" "\<forall>t\<ge>c. relay t = relay c" "\<forall>(t, s, lag)\<in>set es. c < t \<longrightarrow> lag \<noteq> Some 0"
    and "fst (last es) \<le> c" "0 \<le> q" "0 \<le> d" "c + q + d < fst (hd es)"
  shows "ul_severed (observe_all d n es) = Some True"
proof -
  have ok: "verdict_ok d n es (observe_all d n es)"
    using uplink_ok_all [OF assms(6), of es n] watched_sorted [OF assms(1)] by (auto simp: uplink_ok_def)
  have "fst (hd es) - anchor es > d" using cut_anchor [OF assms(1-5)] assms(7) by simp
  with ok show ?thesis by (simp add: verdict_ok_def)
qed

lemma restored_up:
  assumes "watched q relay es" "commits p r relay" "p + q \<le> d" "0 < p + q" "0 \<le> q"
    and "fst (last es) \<le> r" "r + of_int (max 1 n) * (p + q) \<le> fst (hd es)"
  shows "ul_severed (observe_all d n es) \<noteq> Some True"
proof -
  have d: "0 \<le> d" using assms(3,4) by simp
  have ok: "verdict_ok d n es (observe_all d n es)"
    using uplink_ok_all [OF d, of es n] watched_sorted [OF assms(1)] by (auto simp: uplink_ok_def)
  note h = newest_to_head [OF assms(1,5)]
  define j where "j = nat (max 1 n - 1)"
  have j: "of_int (max 1 n) = (of_nat j + 1 :: rat)" "n \<le> int (Suc j)" by (cases "1 \<le> n"; simp add: j_def)+
  have far: "r + of_nat j * (p + q) + p + q \<le> fst (hd es)" using assms(7) unfolding j by (simp add: algebra_simps)
  moreover have "0 \<le> of_nat j * (p + q)" using assms(4) by simp
  ultimately have "r + p + q \<le> fst (hd es)" by simp
  then have old: "r < anchor es" using anchor_recent(2) [OF assms(1,2) h] by (meson not_le)
  have near: "fst (hd es) - anchor es < p + q" using anchor_recent(1) [OF assms(1,2) h] old by simp
  obtain x xs where x: "exchanges es = x # xs"
    using old assms(6) by (cases "exchanges es") (auto simp: anchor_def)
  then have a: "anchor es = x" by (simp add: anchor_def)
  have "Suc j \<le> run_length d (x # xs)"
    using restored_run [OF assms(1,2,6,3,4) x] far near a by simp
  with j(2) have "n \<le> int (run_length d (x # xs))" by simp
  with ok near a x assms(3) show ?thesis by (auto simp: verdict_ok_def)
qed

text \<open>
  C23. The row tells of the relay, and in time. Let no probe come later than \<open>q\<close> after the newest reading, and let
  the threshold \<open>d\<close> leave room for \<open>q\<close> and the period \<open>p\<close> of the relay's commits. A relay that keeps committing
  never shows severed; one that stops with data waiting shows severed at every probe later than \<open>q + d\<close> after its
  last commit; and one that commits again shows up at every probe from the required number of times \<open>p + q\<close> on.
  Without an override the threshold is twice the sum of the two periods, which leaves room for
  a relay that misses every other commit watched by a probe that misses every other reading.
\<close>

theorem buffer_row_timely:
  assumes "read_buffer_settings getenv = Inr bs" "bs_sever_after_s bs = Fin d" "edge_buffer_loop getenv bs inputs = Some (hb, ws)"
    and "es = readings (bs_topics bs) inputs" "watched q relay es" "0 \<le> q" "0 < p + q" "p + q \<le> d"
  shows "(commits p (fst (last es)) relay \<longrightarrow> dget (w_row (last ws)) ''hq_link_severed'' = PBool False)
    \<and> ((\<forall>t\<ge>c. relay t = relay c) \<and> (\<forall>(t, s, lag)\<in>set es. c < t \<longrightarrow> lag \<noteq> Some 0) \<and> fst (last es) \<le> c
        \<and> c + q + d < fst (hd es) \<longrightarrow> dget (w_row (last ws)) ''hq_link_severed'' = PBool True)
    \<and> (commits p r relay \<and> fst (last es) \<le> r \<and> r + of_int (max 1 (bs_restore_exchanges bs)) * (p + q) \<le> fst (hd es) \<longrightarrow>
        dget (w_row (last ws)) ''hq_link_severed'' = PBool False)
    \<and> (getenv_or getenv ''LINK_SEVER_AFTER_S'' [] = [] \<and> bs_exchange_period_s bs = Fin e \<and> bs_probe_interval_s bs = Fin h \<longrightarrow>
        d = 2 * e + 2 * h)"
proof -
  let ?n = "bs_restore_exchanges bs"
  have "inputs \<noteq> []" using watched_sorted [OF assms(5)] assms(4) by (auto simp: readings_def)
  note rows = run_probes_rows [OF this, of "bs_topics bs" "bs_row_id bs" d ?n "[]"]
  have "ws = fst (run_probes (bs_topics bs) (bs_row_id bs) inputs (make_uplink d ?n))"
    using assms(2,3) by (simp add: edge_buffer_loop_def)
  with rows have row: "dget (w_row (last ws)) ''hq_link_severed'' = PBool (ul_severed (observe_all d ?n es) = Some True)"
    by (simp add: assms(4)) (simp add: observe_all_def)
  have d: "0 \<le> d" using assms(7,8) by simp
  have "getenv_or getenv ''LINK_SEVER_AFTER_S'' [] = [] \<and> bs_exchange_period_s bs = Fin e \<and> bs_probe_interval_s bs = Fin h
      \<Longrightarrow> d = 2 * e + 2 * h"
    using derived_threshold [OF assms(1) _ _ _ assms(2), of e h] by (simp add: default_sever_after_s_def)
  with steady_up [OF assms(5) _ assms(8) d assms(6), of ?n] cut_severed [OF assms(5) _ _ _ assms(6) d, of c ?n]
    restored_up [OF assms(5) _ assms(8,7,6), of r ?n]
  show ?thesis unfolding row py.inject by blast
qed

section \<open>An example\<close>

text \<open>
  The settings of an empty environment: probes every 2 s, a threshold of 14 s. A relay whose last commit is at
  1 shows severed at 18, 17 s after it; at 16, more than 14 s after it, it still shows up. A relay that misses
  every other commit, watched by a probe that misses every other reading, never shows severed.
\<close>

definition plain_settings :: buffer_settings where
  "plain_settings = (case read_buffer_settings (\<lambda>_. None) of Inr bs \<Rightarrow> bs
     | Inl _ \<Rightarrow> \<lparr>bs_brokers = [], bs_group = [], bs_row_id = [], bs_topics = [], bs_probe_interval_s = NaN,
         bs_exchange_period_s = NaN, bs_sever_after_s = NaN, bs_restore_exchanges = 0\<rparr>)"

definition sample_input :: "rat \<Rightarrow> int option \<Rightarrow> probe_input" where
  "sample_input t committed = \<lparr>pi_mono = t, pi_now = 0,
     pi_listing = map_option (\<lambda>c. [\<lparr>go_topic = ''tactical-events'', go_partition = 0, go_offset = Some c\<rparr>]) committed,
     pi_watermarks = (\<lambda>_. Some (0, 9))\<rparr>"

definition cut_inputs :: "probe_input list" where
  "cut_inputs = sample_input 0 (Some 0) # map (\<lambda>t. sample_input t (Some 1)) [2, 4, 6, 8, 10, 12, 14, 16, 18]"

definition slow_inputs :: "probe_input list" where
  "slow_inputs = [sample_input 0 (Some 0), sample_input 2 None, sample_input 4 (Some 0), sample_input 6 None,
     sample_input 8 (Some 1), sample_input 10 None, sample_input 12 (Some 2)]"

lemma plain_settings_read:
  "read_buffer_settings (\<lambda>_. None) = Inr plain_settings" "bs_sever_after_s plain_settings = Fin 14"
  "edge_buffer_loop (\<lambda>_. None) plain_settings inputs
     = Some (False, fst (run_probes [''raw-sensor-stream'', ''tactical-events''] ''edge'' inputs (make_uplink 14 2)))"
  by (simp_all add: plain_settings_def default_buffer_settings edge_buffer_loop_def start_link_heartbeat_def getenv_or_def)

abbreviation early_readings :: observations where
  "early_readings \<equiv> map (\<lambda>t. (t, Some 1, Some 8)) [16, 14, 12, 10, 8, 6, 4, 2] @ [(0, Some 0, Some 9)]"

lemma sample_readings:
  "readings (bs_topics plain_settings) cut_inputs
     = map (\<lambda>t. (t, Some 1, Some 8)) [18, 16, 14, 12, 10, 8, 6, 4, 2] @ [(0, Some 0, Some 9)]"
  "readings (bs_topics plain_settings) (butlast cut_inputs) = early_readings"
  "readings (bs_topics plain_settings) slow_inputs = [(12, Some 2, Some 7), (10, None, None), (8, Some 1, Some 8),
     (6, None, None), (4, Some 0, Some 9), (2, None, None), (0, Some 0, Some 9)]"
  by code_simp+

text \<open>At 16 the exchange seen at 2 is 14 s old, and not yet too old.\<close>

lemma early_verdict: "ul_severed (observe_all 14 2 early_readings) = Some False"
proof -
  have "exchanges early_readings = [2]" "anchor early_readings = 2" by (simp_all add: is_exchange_def anchor_def)
  with uplink_ok_all [of 14 early_readings 2] show ?thesis by (simp add: uplink_ok_def verdict_ok_def)
qed

theorem buffer_row_timely_witness:
  "\<exists>ws early slow. edge_buffer_loop (\<lambda>_. None) plain_settings cut_inputs = Some (False, ws)
     \<and> dget (w_row (last ws)) ''hq_link_severed'' = PBool True
     \<and> edge_buffer_loop (\<lambda>_. None) plain_settings (butlast cut_inputs) = Some (False, early)
     \<and> dget (w_row (last early)) ''hq_link_severed'' = PBool False
     \<and> edge_buffer_loop (\<lambda>_. None) plain_settings slow_inputs = Some (False, slow)
     \<and> dget (w_row (last slow)) ''hq_link_severed'' = PBool False"
proof -
  note run = plain_settings_read(3)
  let ?cut = "\<lambda>t. if t < (1::rat) then 0 else 1 :: int" and ?slow = "\<lambda>t. \<lfloor>t / 5\<rfloor> :: int"
  have "watched 2 ?cut (readings (bs_topics plain_settings) cut_inputs)" unfolding sample_readings by simp
  from buffer_row_timely [OF plain_settings_read(1,2) run refl this, of 12 1]
  have cut: "dget (w_row (last (fst (run_probes [''raw-sensor-stream'', ''tactical-events''] ''edge'' cut_inputs (make_uplink 14 2)))))
      ''hq_link_severed'' = PBool True"
    unfolding sample_readings by simp
  have "watched 4 ?slow (readings (bs_topics plain_settings) slow_inputs)" unfolding sample_readings by (simp add: floor_eq_iff)
  moreover have "\<lfloor>(t + 10) / 5\<rfloor> = \<lfloor>t / 5\<rfloor> + 2" for t :: rat by (simp add: add_divide_distrib)
  then have "commits 10 (fst (last (readings (bs_topics plain_settings) slow_inputs))) ?slow"
    unfolding sample_readings commits_def by (auto simp: mono_def intro!: floor_mono)
  ultimately have slow: "dget (w_row (last (fst (run_probes [''raw-sensor-stream'', ''tactical-events''] ''edge'' slow_inputs
      (make_uplink 14 2))))) ''hq_link_severed'' = PBool False"
    using buffer_row_timely [OF plain_settings_read(1,2) run refl, where inputs = slow_inputs and q = 4 and p = 10 and relay = ?slow]
    by simp
  have "dget (w_row (last (fst (run_probes [''raw-sensor-stream'', ''tactical-events''] ''edge'' (butlast cut_inputs)
      (make_uplink 14 2))))) ''hq_link_severed'' = PBool False"
    using run_probes_rows [of "butlast cut_inputs" "bs_topics plain_settings" "''edge''" 14 2 "[]"] early_verdict
    unfolding sample_readings append_Nil2
    by (simp add: plain_settings_def default_buffer_settings) (simp add: cut_inputs_def observe_all_def)
  with cut slow show ?thesis unfolding run by blast
qed

end
