(* ===== verification/Link_Monitor.thy ===== *)
theory Link_Monitor
  imports Link_Spec
begin

text \<open>
  The two tasks of \<open>link_monitor.link_monitor_loop\<close> over one state: \<open>_consume\<close> ingests what the broker hands
  over, \<open>_upsert\<close> writes the rows that are due; and what the table \<open>link_status\<close> shows after any run
  of them. The rows of a tick are built before its first write, and only \<open>_upsert\<close> touches planner and
  table, so a tick is one step. A deletion of rows by others is a step too. The Kafka client and the
  sleeps are outside.
\<close>

section \<open>The monitor\<close>

text \<open>What one turn of \<open>_consume\<close> gets from \<open>poll\<close>; an empty value is an empty payload.\<close>

datatype polled = No_Message | Error_Frame | Payload string | Poll_Raises

record link_monitor =
  mn_opened :: bool
  mn_links :: link_state
  mn_planner :: link_planner
  mn_table :: table

record monitor_env =
  me_expected :: string
  me_declared :: string
  me_down_after :: rat
  me_start :: rat
  me_restore_arrivals :: int
  me_fresh_max_age :: rat
  me_traffic_hold :: rat
  me_status_heartbeat :: rat
  me_parse :: "string \<Rightarrow> link_pb option"
  me_traffic_name :: "int \<Rightarrow> string option"
  me_schema :: row

definition link_monitor_loop :: "monitor_env \<Rightarrow> table \<Rightarrow> link_monitor" where
  "link_monitor_loop me tbl =
     \<lparr>mn_opened = False,
      mn_links = make_links (csv (me_expected me)) (csv (me_declared me)) (me_down_after me) (me_start me)
        (me_restore_arrivals me) (me_fresh_max_age me) (me_traffic_hold me),
      mn_planner = \<lparr>lp_heartbeat_s = me_status_heartbeat me, lp_written = (\<lambda>_. None)\<rparr>,
      mn_table = tbl\<rparr>"

text \<open>
  A consumer that could not be opened is opened on the next turn; one that raised later is kept.
  The exceptions are caught, and the state is as it was.
\<close>

definition consume_turn :: "monitor_env \<Rightarrow> bool \<Rightarrow> polled \<Rightarrow> rat \<Rightarrow> int \<Rightarrow> link_monitor \<Rightarrow> link_monitor" where
  "consume_turn me opens answer now_mono wall mn =
     (if \<not> mn_opened mn \<and> \<not> opens then mn
      else (case answer of
          Payload raw \<Rightarrow> mn\<lparr>mn_opened := True, mn_links :=
            ingest (decode_heartbeat (me_parse me) (me_traffic_name me) raw) now_mono wall (mn_links mn)\<rparr>
        | _ \<Rightarrow> mn\<lparr>mn_opened := True\<rparr>))"

text \<open>The writes of a tick in the order of the rows; where \<open>oks\<close> ends, the tick was cancelled.\<close>

fun upsert_links ::
  "row \<Rightarrow> rat \<Rightarrow> (string \<times> pg_write) list \<Rightarrow> bool list \<Rightarrow> link_planner \<times> table \<Rightarrow> link_planner \<times> table" where
  "upsert_links schema t [] oks st = st"
| "upsert_links schema t (iw # iws) oks st =
     upsert_links schema t iws (tl oks) (upsert_link schema (oks \<noteq> [] \<and> hd oks) t iw st)"

definition upsert_turn :: "monitor_env \<Rightarrow> bool list \<Rightarrow> rat \<Rightarrow> int \<Rightarrow> link_monitor \<Rightarrow> link_monitor" where
  "upsert_turn me oks t now mn =
     (let (rows, lk) = link_rows t now (lk_expected (mn_links mn)) (mn_links mn);
          (lp, tbl) = upsert_links (me_schema me) t (zip (lk_expected (mn_links mn)) rows) oks (mn_planner mn, mn_table mn)
      in mn\<lparr>mn_links := lk, mn_planner := lp, mn_table := tbl\<rparr>)"

datatype monitor_event =
    Polled bool polled rat int
  | Upserted "bool list" rat int
  | Deleted "string list" rat

fun event_time :: "monitor_event \<Rightarrow> rat" where
  "event_time (Polled opens answer t wall) = t"
| "event_time (Upserted oks t now) = t"
| "event_time (Deleted ids t) = t"

fun monitor_step :: "monitor_env \<Rightarrow> monitor_event \<Rightarrow> link_monitor \<Rightarrow> link_monitor" where
  "monitor_step me (Polled opens answer t wall) mn = consume_turn me opens answer t wall mn"
| "monitor_step me (Upserted oks t now) mn = upsert_turn me oks t now mn"
| "monitor_step me (Deleted ids t) mn = mn\<lparr>mn_table := filter (\<lambda>r. r ''id'' \<notin> PStr ` set ids) (mn_table mn)\<rparr>"

text \<open>The latest event comes first.\<close>

definition monitor_run :: "monitor_env \<Rightarrow> table \<Rightarrow> monitor_event list \<Rightarrow> link_monitor" where
  "monitor_run me tbl es = foldr (monitor_step me) es (link_monitor_loop me tbl)"

fun is_deletion :: "monitor_event \<Rightarrow> bool" where
  "is_deletion (Deleted ids t) \<longleftrightarrow> True"
| "is_deletion e \<longleftrightarrow> False"

section \<open>What the links have heard\<close>

definition was_opened :: "monitor_event list \<Rightarrow> bool" where
  "was_opened es \<longleftrightarrow> list_ex (\<lambda>e. case e of Polled opens _ _ _ \<Rightarrow> opens | _ \<Rightarrow> False) es"

fun heard :: "monitor_env \<Rightarrow> monitor_event list \<Rightarrow> link_event list" where
  "heard me [] = []"
| "heard me (Polled opens answer t wall # es) =
     (case answer of
        Payload raw \<Rightarrow> (if opens \<or> was_opened es
          then Received (decode_heartbeat (me_parse me) (me_traffic_name me) raw) t wall # heard me es else heard me es)
      | _ \<Rightarrow> heard me es)"
| "heard me (Upserted oks t now # es) = Ticked t now # heard me es"
| "heard me (Deleted ids t # es) = heard me es"

lemma monitor_links:
  "mn_opened (monitor_run me tbl es) = was_opened es
   \<and> mn_links (monitor_run me tbl es) = foldr link_step (heard me es) (mn_links (link_monitor_loop me tbl))"
proof (induction es)
  case Nil
  show ?case by (simp add: monitor_run_def was_opened_def link_monitor_loop_def)
next
  case (Cons e es)
  then show ?case
    by (cases e) (auto simp: monitor_run_def was_opened_def consume_turn_def upsert_turn_def split_def Let_def split: polled.splits)
qed

lemma heard_times:
  "\<forall>e\<in>set es. event_time e \<le> t \<Longrightarrow> e \<in> set (heard me es) \<Longrightarrow> link_time e \<le> t"
  by (induction me es rule: heard.induct) (auto split: polled.splits if_splits)

lemma heard_sorted: "sorted (rev (map event_time es)) \<Longrightarrow> sorted (rev (map link_time (heard me es)))"
  by (induction me es rule: heard.induct) (auto simp: sorted_append heard_times split: polled.splits)

section \<open>What the planner and the table keep\<close>

definition has_row :: "string \<Rightarrow> table \<Rightarrow> bool" where
  "has_row i tbl \<longleftrightarrow> lookup_row [''id''] tbl [PStr i] \<noteq> None"

text \<open>A row that is missing although the planner remembers it was remembered by \<open>T\<close>.\<close>

definition missing_by :: "string \<Rightarrow> (rat \<Rightarrow> bool) \<Rightarrow> link_planner \<times> table \<Rightarrow> bool" where
  "missing_by i P st \<longleftrightarrow> has_row i (snd st) \<or> (case lp_written (fst st) i of None \<Rightarrow> True | Some (_, at_mono) \<Rightarrow> P at_mono)"

lemma has_row_merge:
  "lookup_row [''id''] tbl' [PStr i] = merge_row dflt w (lookup_row [''id''] tbl [PStr i]) \<Longrightarrow>
     has_row i tbl \<or> w_mode w = ''upsert'' \<Longrightarrow> has_row i tbl'"
  by (auto simp: has_row_def merge_row_def split: option.splits)

lemma missing_never: "missing_by i (\<lambda>_. False) (lp, tbl) \<longleftrightarrow> has_row i tbl \<or> lp_written lp i = None"
  by (auto simp: missing_by_def split: option.split)

lemma build_row_upserts: "w_mode (build_row now i state hb declared t band) = ''upsert''"
  by (simp add: build_row_def Let_def)

lemma liveness_updates: "w_mode (liveness_write i w) = ''update''"
  by (simp add: liveness_write_def)

lemma upsert_link_failed: "upsert_link schema False t iw st = st"
  by (simp add: upsert_link_def split: option.split prod.split)

text \<open>One built row: what is there stays; a row the planner does not remember is written; one it remembers in vain is forgotten.\<close>

definition built :: "rat \<Rightarrow> int \<Rightarrow> string \<times> pg_write \<Rightarrow> bool" where
  "built t now iw \<longleftrightarrow> (\<exists>state hb declared band. snd iw = build_row now (fst iw) state hb declared t band)"

lemma built_row_of: "built t now (i, row_of t now i lk)"
  by (auto simp: built_def row_of_def)

lemma upsert_link_rows:
  assumes "built t now (i, w)"
    and "upsert_link schema ok t (i, w) (lp, tbl) = (lp', tbl')"
  shows "(has_row i tbl \<longrightarrow> has_row i tbl') \<and> (missing_by i P (lp, tbl) \<longrightarrow> missing_by i P (lp', tbl'))
    \<and> (ok \<longrightarrow> (lp_written lp i = None \<longrightarrow> has_row i tbl')
        \<and> (missing_by i (\<lambda>at_mono. t - at_mono \<ge> lp_heartbeat_s lp) (lp, tbl) \<longrightarrow> missing_by i (\<lambda>_. False) (lp', tbl')))
    \<and> lp_heartbeat_s lp' = lp_heartbeat_s lp
    \<and> (j \<noteq> i \<longrightarrow> lp_written lp' j = lp_written lp j \<and> lookup_row [''id''] tbl' [PStr j] = lookup_row [''id''] tbl [PStr j])"
proof (cases ok)
  case False
  with assms(2) show ?thesis by (simp add: upsert_link_failed)
next
  case True
  obtain state hb declared band where w: "w = build_row now i state hb declared t band"
    using assms(1) by (auto simp: built_def)
  note bok = build_row_ok [of schema now i state hb declared t band, folded w]
  note lok = liveness_ok [of schema i w]
  note up = build_row_upserts [of now i state hb declared t band, folded w]
  from True assms(2) have "upsert_link schema True t (i, w) (lp, tbl) = (lp', tbl')" by simp
  with w show ?thesis
  proof (cases rule: upsert_link_cases)
    case (idle at_mono)
    then show ?thesis by (auto simp: missing_by_def)
  next
    case change
    have "has_row i tbl'"
      by (rule has_row_merge [of _ _ schema w tbl]) (use bok up in \<open>simp_all add: change(1) apply_write_lookup\<close>)
    with change lookup_other bok show ?thesis
      by (simp add: missing_by_def record_write_def)
  next
    case (beat at_mono v)
    have own: "lookup_row [''id''] tbl' [PStr i] = merge_row schema v (lookup_row [''id''] tbl [PStr i])"
      using lok by (simp add: beat apply_write_lookup)
    have other: "j \<noteq> i \<Longrightarrow> lookup_row [''id''] tbl' [PStr j] = lookup_row [''id''] tbl [PStr j]"
      using lookup_other lok beat(2,3) by metis
    show ?thesis
    proof (cases "has_row i tbl")
      case True
      with own has_row_merge have "has_row i tbl'" by blast
      with True other beat(1) show ?thesis
        by (auto simp: missing_by_def beat(4) record_write_def has_row_def)
    next
      case False
      with other beat(1) show ?thesis by (auto simp: missing_by_def beat(4) forget_def has_row_def)
    qed
  qed
qed

text \<open>What one tick does to the row of link \<open>i\<close>; \<open>sure\<close> says that its writes go through.\<close>

lemma upsert_links_row:
  assumes "\<forall>iw\<in>set iws. built t now iw" "upsert_links schema t iws oks (lp, tbl) = (lp', tbl')"
  shows "(has_row i tbl \<longrightarrow> has_row i tbl') \<and> (missing_by i P (lp, tbl) \<longrightarrow> missing_by i P (lp', tbl'))
    \<and> lp_heartbeat_s lp' = lp_heartbeat_s lp
    \<and> (i \<in> fst ` set iws \<and> oks = replicate (length iws) True \<longrightarrow>
        (missing_by i (\<lambda>_. False) (lp, tbl) \<longrightarrow> has_row i tbl')
        \<and> (missing_by i (\<lambda>at_mono. t - at_mono \<ge> lp_heartbeat_s lp) (lp, tbl) \<longrightarrow> missing_by i (\<lambda>_. False) (lp', tbl')))"
  using assms
proof (induction iws arbitrary: oks lp tbl P)
  case Nil
  then show ?case by simp
next
  case (Cons iw iws)
  obtain j w where iw: "iw = (j, w)" by (cases iw)
  obtain lp1 tbl1 where one: "upsert_link schema (oks \<noteq> [] \<and> hd oks) t (j, w) (lp, tbl) = (lp1, tbl1)"
    by (cases "upsert_link schema (oks \<noteq> [] \<and> hd oks) t (j, w) (lp, tbl)")
  have "built t now (j, w)" using Cons.prems(1) iw by simp
  note step = upsert_link_rows [OF this one, of _ i]
  have "\<forall>iw\<in>set iws. built t now iw" "upsert_links schema t iws (tl oks) (lp1, tbl1) = (lp', tbl')"
    using Cons.prems iw one by simp_all
  note rest = Cons.IH [OF this]
  show ?case
  proof (cases "j = i")
    case True
    let ?due = "\<lambda>at_mono. t - at_mono \<ge> lp_heartbeat_s lp"
    have keeps: "has_row i tbl \<longrightarrow> has_row i tbl1" "missing_by i P (lp, tbl) \<longrightarrow> missing_by i P (lp1, tbl1)"
      "lp_heartbeat_s lp1 = lp_heartbeat_s lp"
      "missing_by i ?due (lp, tbl) \<longrightarrow> missing_by i ?due (lp1, tbl1)"
      using step [of P] step [of ?due] True by simp_all
    have "missing_by i (\<lambda>_. False) (lp, tbl) \<longrightarrow> has_row i tbl1" "missing_by i ?due (lp, tbl) \<longrightarrow> missing_by i (\<lambda>_. False) (lp1, tbl1)"
      if "oks = replicate (length (iw # iws)) True"
      using step [of P] True that by (simp_all add: missing_never)
    with keeps rest [of P] rest [of "\<lambda>_. False"] show ?thesis unfolding missing_never by auto
  next
    case False
    then have same: "missing_by i Q (lp, tbl) \<longleftrightarrow> missing_by i Q (lp1, tbl1)" "has_row i tbl \<longleftrightarrow> has_row i tbl1" for Q
      using step [of P] by (simp_all add: missing_by_def has_row_def)
    have "lp_heartbeat_s lp1 = lp_heartbeat_s lp" using step [of P] by simp
    with rest [of P] False iw show ?thesis unfolding same by auto
  qed
qed

text \<open>What the row of a link says, where there is one.\<close>

definition row_shows :: "string \<Rightarrow> link_triple \<Rightarrow> table \<Rightarrow> bool" where
  "row_shows i tr tbl \<longleftrightarrow> (case lookup_row [''id''] tbl [PStr i] of Some r \<Rightarrow> row_triple r = tr | None \<Rightarrow> True)"

lemma upsert_link_shows:
  assumes "built t now (i, w)" "planner_ok lp tbl" "upsert_link schema ok t (i, w) (lp, tbl) = (lp', tbl')"
  shows "planner_ok lp' tbl' \<and> (ok \<longrightarrow> row_shows i (triple w) tbl') \<and> (j \<noteq> i \<longrightarrow> row_shows j tr tbl' = row_shows j tr tbl)"
proof (cases ok)
  case False
  with assms show ?thesis by (simp add: upsert_link_failed)
next
  case True
  obtain state hb declared band where "w = build_row now i state hb declared t band" using assms(1) by (auto simp: built_def)
  from link_table_current [OF assms(2) this, of schema lp' tbl'] assms(3) True show ?thesis
    by (auto simp: row_shows_def split: option.splits)
qed

lemma upsert_links_show:
  assumes "\<forall>iw\<in>set iws. built t now iw" "planner_ok lp tbl" "upsert_links schema t iws oks (lp, tbl) = (lp', tbl')"
  shows "planner_ok lp' tbl'
    \<and> (oks = replicate (length iws) True \<and> (\<forall>iw\<in>set iws. fst iw = i \<longrightarrow> snd iw = w) \<and> (row_shows i (triple w) tbl \<or> i \<in> fst ` set iws)
        \<longrightarrow> row_shows i (triple w) tbl')"
  using assms
proof (induction iws arbitrary: oks lp tbl)
  case Nil
  then show ?case by simp
next
  case (Cons iw iws)
  obtain j v where iw: "iw = (j, v)" by (cases iw)
  obtain lp1 tbl1 where one: "upsert_link schema (oks \<noteq> [] \<and> hd oks) t (j, v) (lp, tbl) = (lp1, tbl1)"
    by (cases "upsert_link schema (oks \<noteq> [] \<and> hd oks) t (j, v) (lp, tbl)")
  have "built t now (j, v)" using Cons.prems(1) iw by simp
  note step = upsert_link_shows [OF this Cons.prems(2) one, of i "triple w"]
  have "\<forall>iw\<in>set iws. built t now iw" "planner_ok lp1 tbl1" "upsert_links schema t iws (tl oks) (lp1, tbl1) = (lp', tbl')"
    using Cons.prems iw one step by simp_all
  note rest = Cons.IH [OF this]
  show ?case
    using step rest iw by (cases "j = i") auto
qed

text \<open>One tick as a whole.\<close>

lemma upsert_turn_rows:
  assumes "mn' = upsert_turn me oks t now mn" "planner_ok (mn_planner mn) (mn_table mn)"
  shows "planner_ok (mn_planner mn') (mn_table mn')
    \<and> (has_row i (mn_table mn) \<longrightarrow> has_row i (mn_table mn'))
    \<and> (missing_by i P (mn_planner mn, mn_table mn) \<longrightarrow> missing_by i P (mn_planner mn', mn_table mn'))
    \<and> lp_heartbeat_s (mn_planner mn') = lp_heartbeat_s (mn_planner mn)
    \<and> (i \<in> set (lk_expected (mn_links mn)) \<and> oks = replicate (length (lk_expected (mn_links mn))) True \<longrightarrow>
        row_shows i (triple (row_of t now i (mn_links mn))) (mn_table mn')
        \<and> (missing_by i (\<lambda>_. False) (mn_planner mn, mn_table mn) \<longrightarrow> has_row i (mn_table mn'))
        \<and> (missing_by i (\<lambda>at_mono. t - at_mono \<ge> lp_heartbeat_s (mn_planner mn)) (mn_planner mn, mn_table mn)
            \<longrightarrow> missing_by i (\<lambda>_. False) (mn_planner mn', mn_table mn')))"
proof -
  let ?is = "lk_expected (mn_links mn)"
  let ?iws = "map (\<lambda>j. (j, row_of t now j (mn_links mn))) ?is"
  have zip: "zip ?is (fst (link_rows t now ?is (mn_links mn))) = ?iws"
    by (simp add: link_rows_map zip_map2) (simp add: zip_same_conv_map)
  have b: "\<forall>iw\<in>set ?iws. built t now iw" by (auto simp: built_row_of)
  have step: "upsert_links (me_schema me) t ?iws oks (mn_planner mn, mn_table mn) = (mn_planner mn', mn_table mn')"
    by (simp add: assms(1) upsert_turn_def split_def Let_def zip)
  note rows = upsert_links_row [OF b step, of i P]
  note table = upsert_links_show [OF b assms(2) step, of i "row_of t now i (mn_links mn)"]
  show ?thesis using rows table by (auto simp: image_iff)
qed

definition written_by :: "rat \<Rightarrow> link_planner \<Rightarrow> bool" where
  "written_by T lp \<longleftrightarrow> (\<forall>i. case lp_written lp i of None \<Rightarrow> True | Some (_, at_mono) \<Rightarrow> at_mono \<le> T)"

lemma upsert_link_times:
  "written_by T (fst st) \<Longrightarrow> t \<le> T \<Longrightarrow> written_by T (fst (upsert_link schema ok t iw st))"
  by (auto simp: written_by_def upsert_link_def forget_def record_write_def split: option.splits prod.splits sum.splits)

lemma upsert_links_times:
  "written_by T (fst st) \<Longrightarrow> t \<le> T \<Longrightarrow> written_by T (fst (upsert_links schema t iws oks st))"
  by (induction schema t iws oks st rule: upsert_links.induct) (simp_all add: upsert_link_times)

lemma written_by_missing: "written_by T (fst st) \<Longrightarrow> missing_by i (\<lambda>at_mono. at_mono \<le> T) st"
  by (auto simp: written_by_def missing_by_def split: option.split prod.split)

lemma lookup_deleted:
  "lookup_row [''id''] (filter (\<lambda>r. r ''id'' \<notin> PStr ` set ids) tbl) [PStr i]
     = (if i \<in> set ids then None else lookup_row [''id''] tbl [PStr i])"
  by (induction tbl) (auto simp: lookup_row_Cons)

lemma monitor_run_Cons: "monitor_run me tbl (e # es) = monitor_step me e (monitor_run me tbl es)"
  by (simp add: monitor_run_def)

lemma consume_turn_keeps:
  "mn_planner (consume_turn me opens answer t wall mn) = mn_planner mn"
  "mn_table (consume_turn me opens answer t wall mn) = mn_table mn"
  by (auto simp: consume_turn_def split: polled.split)

text \<open>Without a deletion nothing is lost.\<close>

lemma monitor_step_keeps:
  assumes "planner_ok (mn_planner mn) (mn_table mn)" "\<not> is_deletion e" "mn' = monitor_step me e mn"
  shows "(has_row i (mn_table mn) \<longrightarrow> has_row i (mn_table mn'))
    \<and> (missing_by i P (mn_planner mn, mn_table mn) \<longrightarrow> missing_by i P (mn_planner mn', mn_table mn'))"
  using assms upsert_turn_rows [OF refl assms(1), of me]
  by (cases e) (simp_all add: consume_turn_keeps)

lemma monitor_step_ok:
  assumes "planner_ok (mn_planner mn) (mn_table mn)" "mn' = monitor_step me e mn"
  shows "planner_ok (mn_planner mn') (mn_table mn') \<and> lp_heartbeat_s (mn_planner mn') = lp_heartbeat_s (mn_planner mn)
    \<and> (written_by T (mn_planner mn) \<and> event_time e \<le> T \<longrightarrow> written_by T (mn_planner mn'))"
proof (cases e)
  case (Polled opens answer t wall)
  with assms show ?thesis by (simp add: consume_turn_keeps)
next
  case (Upserted oks t now)
  with upsert_turn_rows [OF refl assms(1), of me oks t now] assms(2) upsert_links_times [of T _ t]
  show ?thesis by (auto simp: upsert_turn_def split_def Let_def)
next
  case (Deleted ids t)
  with assms show ?thesis by (auto simp: planner_ok_def lookup_deleted split: if_splits)
qed

lemma monitor_run_ok:
  assumes "mn = monitor_run me tbl es"
  shows "planner_ok (mn_planner mn) (mn_table mn) \<and> lp_heartbeat_s (mn_planner mn) = me_status_heartbeat me
    \<and> ((\<forall>e\<in>set es. event_time e \<le> T) \<longrightarrow> written_by T (mn_planner mn))"
  using assms
proof (induction es arbitrary: mn)
  case Nil
  then show ?case by (simp add: monitor_run_def link_monitor_loop_def planner_ok_def written_by_def)
next
  case (Cons e es)
  with monitor_step_ok [of "monitor_run me tbl es" mn me e T] show ?case by (auto simp: monitor_run_Cons)
qed

lemma monitor_run_keeps:
  assumes "list_all (\<lambda>e. \<not> is_deletion e) new" "mn = monitor_run me tbl old" "mn' = monitor_run me tbl (new @ old)"
  shows "(has_row i (mn_table mn) \<longrightarrow> has_row i (mn_table mn'))
    \<and> (missing_by i P (mn_planner mn, mn_table mn) \<longrightarrow> missing_by i P (mn_planner mn', mn_table mn'))"
  using assms
proof (induction new arbitrary: mn')
  case (Cons e new)
  have "planner_ok (mn_planner (monitor_run me tbl (new @ old))) (mn_table (monitor_run me tbl (new @ old)))"
    using monitor_run_ok by blast
  from monitor_step_keeps [OF this, of e mn' me i P] Cons show ?case by (auto simp: monitor_run_Cons)
qed simp

lemma monitor_expected: "lk_expected (mn_links (monitor_run me tbl es)) = csv (me_expected me)"
  by (simp add: monitor_links links_expected) (simp add: link_monitor_loop_def make_links_def)

section \<open>What the table tells\<close>

lemma row_triple_built:
  "triple (build_row now i state hb declared t (Some band)) = (PStr state, PStr (lower band), PBool declared)"
  by (simp add: build_row_def triple_def Let_def dget_def dget_or_def)

text \<open>
  C20. The table tells the truth about the links. Take any run of the link monitor: polls that bring heartbeats, errors
  or nothing, a consumer that cannot be opened, ticks with writes that fail or are cancelled, and rows
  deleted by others. After a tick whose writes went through, the row of an expected link says the
  classification of what its heartbeats show at that moment (\<open>reach_spec\<close>), the band held, and whether the
  link is declared idle, also where the planner wrote nothing or only the liveness columns; and a row
  is missing only if somebody deleted one.
\<close>

theorem link_status_table:
  assumes "sorted (rev (map event_time es))" "\<forall>e\<in>set es. event_time e \<le> t"
    and "mn = monitor_run me tbl es" "i \<in> set (csv (me_expected me))"
    and "mn' = monitor_step me (Upserted (replicate (length (csv (me_expected me))) True) t now) mn"
  shows "case lookup_row [''id''] (mn_table mn') [PStr i] of
      Some r \<Rightarrow> row_triple r =
        (PStr (classify (reach_spec (me_down_after me) (me_start me) (me_restore_arrivals me) (me_fresh_max_age me)
            (events_of i (heard me es)) t) (shown i t (mn_links mn)) (i \<in> set (csv (me_declared me)))),
         PStr (lower (shown i t (mn_links mn))), PBool (i \<in> set (csv (me_declared me))))
    | None \<Rightarrow> list_ex is_deletion es"
proof -
  have ok: "planner_ok (mn_planner mn) (mn_table mn)" using monitor_run_ok [OF assms(3)] by simp
  have turn: "mn' = upsert_turn me (replicate (length (csv (me_expected me))) True) t now mn" using assms(5) by simp
  have expected: "lk_expected (mn_links mn) = csv (me_expected me)" by (simp add: assms(3) monitor_expected)
  note rows = upsert_turn_rows [OF turn ok, of i "\<lambda>_. False", unfolded expected]
  have "mn_links mn = foldr link_step (heard me es) (make_links (csv (me_expected me)) (csv (me_declared me)) (me_down_after me)
      (me_start me) (me_restore_arrivals me) (me_fresh_max_age me) (me_traffic_hold me))"
    by (simp add: assms(3) monitor_links) (simp add: link_monitor_loop_def)
  from row_reachability [OF heard_sorted [OF assms(1)] _ this assms(4), of t now] heard_times [OF assms(2)] rows assms(4)
  have shows_it: "row_shows i (PStr (classify (reach_spec (me_down_after me) (me_start me) (me_restore_arrivals me) (me_fresh_max_age me)
            (events_of i (heard me es)) t) (shown i t (mn_links mn)) (i \<in> set (csv (me_declared me)))),
         PStr (lower (shown i t (mn_links mn))), PBool (i \<in> set (csv (me_declared me)))) (mn_table mn')"
    by (simp add: row_triple_built)
  have "has_row i (mn_table mn')" if "\<not> list_ex is_deletion es"
  proof -
    have "list_all (\<lambda>e. \<not> is_deletion e) es" using that by (simp add: list_ex_iff list_all_iff)
    from monitor_run_keeps [OF this refl refl, where old = "[]" and me = me and tbl = tbl and i = i and P = "\<lambda>_. False"] rows assms(3,4) show ?thesis
      by (simp add: missing_never monitor_run_def link_monitor_loop_def)
  qed
  then have "has_row i (mn_table mn') \<or> list_ex is_deletion es" by blast
  with shows_it show ?thesis by (auto simp: row_shows_def has_row_def split: option.split)
qed

text \<open>
  C21. A deleted row returns. Whatever happened before, once nobody deletes rows any more, two ticks whose writes
  go through bring the row of every expected link back, if the first of them comes at least
  \<open>status_heartbeat_s\<close> after all that happened before; what fails in between does not matter.
\<close>

theorem link_row_returns:
  assumes "\<forall>e\<in>set old. event_time e \<le> T" "t1 - T \<ge> me_status_heartbeat me"
    and "list_all (\<lambda>e. \<not> is_deletion e) (later @ between)" "i \<in> set (csv (me_expected me))"
    and "sure = replicate (length (csv (me_expected me))) True"
  shows "lookup_row [''id''] (mn_table (monitor_run me tbl
      (Upserted sure t2 now2 # later @ Upserted sure t1 now1 # between @ old))) [PStr i] \<noteq> None"
proof -
  let ?at_start = "monitor_run me tbl old" and ?before = "monitor_run me tbl (between @ old)"
  let ?after = "monitor_run me tbl (Upserted sure t1 now1 # between @ old)"
  let ?last = "monitor_run me tbl (later @ Upserted sure t1 now1 # between @ old)"
  have "missing_by i (\<lambda>at_mono. at_mono \<le> T) (mn_planner ?at_start, mn_table ?at_start)"
    by (rule written_by_missing) (use monitor_run_ok [OF refl, of me tbl old T] assms(1) in simp)
  then have "missing_by i (\<lambda>at_mono. at_mono \<le> T) (mn_planner ?before, mn_table ?before)"
    using monitor_run_keeps [OF _ refl refl, where new = between and me = me and tbl = tbl and old = old and i = i] assms(3) by simp
  then have "missing_by i (\<lambda>at_mono. t1 - at_mono \<ge> me_status_heartbeat me) (mn_planner ?before, mn_table ?before)"
    using assms(2) by (auto simp: missing_by_def split: option.splits)
  then have "missing_by i (\<lambda>_. False) (mn_planner ?after, mn_table ?after)"
    using upsert_turn_rows [OF refl, of ?before me sure t1 now1] monitor_run_ok [OF refl, of me tbl "between @ old"] assms(4,5)
    by (simp add: monitor_run_Cons monitor_expected)
  then have "missing_by i (\<lambda>_. False) (mn_planner ?last, mn_table ?last)"
    using monitor_run_keeps [OF _ refl refl, where new = later and me = me and tbl = tbl and old = "Upserted sure t1 now1 # between @ old" and i = i] assms(3) by simp
  then have "has_row i (mn_table (monitor_step me (Upserted sure t2 now2) ?last))"
    using upsert_turn_rows [OF refl, of ?last me sure t2 now2] monitor_run_ok [OF refl, of me tbl] assms(4,5)
    by (simp add: monitor_expected)
  then show ?thesis by (simp add: has_row_def monitor_run_Cons)
qed

section \<open>Examples\<close>

text \<open>A monitor of two links; the payload a is a heartbeat of the first.\<close>

definition sample_monitor :: monitor_env where
  "sample_monitor = \<lparr>me_expected = ''fob1, fob2'', me_declared = [], me_down_after = 15, me_start = 0, me_restore_arrivals = 3,
     me_fresh_max_age = 15, me_traffic_hold = 10, me_status_heartbeat = 30,
     me_parse = (\<lambda>bs. if bs = ''a'' then Some \<lparr>pb_link_id = ''fob1'', pb_emitted_at = 10000000, pb_traffic = 1, pb_bridge_lag = 0\<rparr>
       else None),
     me_traffic_name = (\<lambda>v. if v = 1 then Some ''LINK_TRAFFIC_ACTIVE'' else None), me_schema = (\<lambda>_. PNone)\<rparr>"

text \<open>The consumer opens at the second poll; a tick whose first write fails, bytes that are no heartbeat, a deletion.\<close>

definition sample_monitor_run :: "monitor_event list" where
  "sample_monitor_run = [Deleted [''fob2''] 16, Polled True Error_Frame 15 15000000, Polled True (Payload ''x'') 14 14000000,
     Upserted [False, True] 13 13000000, Polled True (Payload ''a'') 11 11000000, Polled False (Payload ''a'') 9 9000000]"

theorem link_status_table_witness:
  "map_option row_triple (lookup_row [''id''] (mn_table (monitor_step sample_monitor (Upserted [True, True] 20 20000000)
      (monitor_run sample_monitor [] sample_monitor_run))) [PStr ''fob1''])
    = Some (PStr ''up'', PStr ''active'', PBool False)"
proof -
  let ?mn = "monitor_run sample_monitor [] sample_monitor_run"
  let ?row = "lookup_row [''id''] (mn_table (monitor_step sample_monitor (Upserted [True, True] 20 20000000) ?mn)) [PStr ''fob1'']"
  have times: "sorted (rev (map event_time sample_monitor_run))" "\<forall>e\<in>set sample_monitor_run. event_time e \<le> 20"
    by (simp_all add: sample_monitor_run_def)
  have expected: "csv (me_expected sample_monitor) = [''fob1'', ''fob2'']" "csv (me_declared sample_monitor) = []" by code_simp+
  have "?row \<noteq> None" by code_simp
  then obtain r where r: "?row = Some r" by blast
  have band: "shown ''fob1'' 20 (mn_links ?mn) = ''ACTIVE''" by code_simp
  have "classify (reach_spec (me_down_after sample_monitor) (me_start sample_monitor) (me_restore_arrivals sample_monitor)
      (me_fresh_max_age sample_monitor) (events_of ''fob1'' (heard sample_monitor sample_monitor_run)) 20) ''ACTIVE'' False = ''up''"
    by code_simp
  moreover have "lower ''ACTIVE'' = ''active''" by code_simp
  ultimately show ?thesis
    using link_status_table [OF times refl, where i = "''fob1''" and me = sample_monitor and tbl = "[]" and now = 20000000, OF _ refl]
    expected band r by (simp add: numeral_2_eq_2)
qed

text \<open>The row of fob2, deleted at 16, is back after the ticks at 50 and 51.\<close>

theorem link_row_returns_witness:
  "lookup_row [''id''] (mn_table (monitor_run sample_monitor []
      ([Upserted [True, True] 51 51000000, Upserted [False] (101/2) 50500000, Upserted [True, True] 50 50000000] @ sample_monitor_run)))
    [PStr ''fob2''] \<noteq> None"
proof -
  have expected: "csv (me_expected sample_monitor) = [''fob1'', ''fob2'']" by code_simp
  have "\<forall>e\<in>set sample_monitor_run. event_time e \<le> 16" "50 - 16 \<ge> me_status_heartbeat sample_monitor"
    by (simp_all add: sample_monitor_run_def sample_monitor_def)
  from link_row_returns [OF this, where between = "[]" and later = "[Upserted [False] (101/2) 50500000]" and i = "''fob2''", OF _ _ refl]
    expected show ?thesis by (simp add: numeral_2_eq_2)
qed

end
