(* ===== verification/Manifest.thy ===== *)
theory Manifest
  imports Prelude
begin

text \<open>
  \<open>produces_manifest.py\<close>: expansion of the topic templates of the manifest. A template is text with
  \<open>${VAR}\<close>, \<open>${VAR:-default}\<close>, whose default is a template again, and \<open>${VAR|us}\<close>.

  The environment maps names to texts. A KeyError carries the name here, the code's carries a message
  with it. Reading the YAML file (\<open>load\<close>) is outside, and so is the interpreter's recursion limit.
\<close>

section \<open>Expansion\<close>

definition is_open :: "char \<Rightarrow> char \<Rightarrow> bool" where
  "is_open c d \<longleftrightarrow> c = CHR ''$'' \<and> d = CHR ''{''"

text \<open>\<open>_close\<close>: how many characters precede the brace that closes the body; None is the ValueError.\<close>

fun close_from :: "nat \<Rightarrow> string \<Rightarrow> nat option" where
  "close_from depth [] = None"
| "close_from depth [c] = (if c = CHR ''}'' \<and> depth = 1 then Some 0 else None)"
| "close_from depth (c # d # s) =
     (if is_open c d then map_option (\<lambda>n. n + 2) (close_from (depth + 1) s)
      else if c = CHR ''}'' then
        (if depth = 1 then Some 0 else map_option Suc (close_from (depth - 1) (d # s)))
      else map_option Suc (close_from depth (d # s)))"

text \<open>\<open>s.partition(sep)\<close>: what stands before and after the first \<open>sep\<close>, None where there is none.\<close>

fun partition_at :: "string \<Rightarrow> string \<Rightarrow> (string \<times> string) option" where
  "partition_at sep [] = (if sep = [] then Some ([], []) else None)"
| "partition_at sep (c # s) =
     (if take (length sep) (c # s) = sep then Some ([], drop (length sep) (c # s))
      else map_option (\<lambda>(a, b). (c # a, b)) (partition_at sep s))"

definition underscored :: "string \<Rightarrow> string" where
  "underscored = map (\<lambda>c. if c = CHR ''-'' then CHR ''_'' else c)"

text \<open>\<open>env.get(name)\<close>, an empty value counting as none.\<close>

definition env_value :: "(string \<Rightarrow> string option) \<Rightarrow> string \<Rightarrow> string option" where
  "env_value env name = (case env name of Some v \<Rightarrow> (if v = [] then None else Some v) | None \<Rightarrow> None)"

text \<open>A body without a default: the name, and the filter if there is one.\<close>

definition expand_name :: "(string \<Rightarrow> string option) \<Rightarrow> string \<Rightarrow> string res" where
  "expand_name env body =
     (let (name, flt) = (case partition_at ''|'' body of Some (a, b) \<Rightarrow> (a, Some b) | None \<Rightarrow> (body, None)) in
      if flt \<noteq> None \<and> flt \<noteq> Some ''us'' then Inl ValueError
      else (case env_value env name of
          None \<Rightarrow> Inl (KeyError name)
        | Some v \<Rightarrow> Inr (if flt \<noteq> None then underscored v else v)))"

lemma close_from_less: "close_from depth s = Some n \<Longrightarrow> n < length s"
  by (induction depth s arbitrary: n rule: close_from.induct) (auto split: if_splits)

lemma partition_at_length: "partition_at sep s = Some (a, b) \<Longrightarrow> length b \<le> length s"
  by (induction sep s arbitrary: a b rule: partition_at.induct) (auto split: if_splits)

text \<open>What is appended first raises first.\<close>

definition rappend :: "string res \<Rightarrow> string res \<Rightarrow> string res" where
  "rappend a b = rbind a (\<lambda>v. rbind b (\<lambda>r. Inr (v @ r)))"

function expand :: "(string \<Rightarrow> string option) \<Rightarrow> string \<Rightarrow> string res" where
  "expand env [] = Inr []"
| "expand env [c] = Inr [c]"
| "expand env (c # d # s) =
     (if \<not> is_open c d then rappend (Inr [c]) (expand env (d # s))
      else (case close_from 1 s of
          None \<Rightarrow> Inl ValueError
        | Some n \<Rightarrow>
            rappend
              (case partition_at '':-'' (take n s) of
                Some (name, alt) \<Rightarrow>
                  (case env_value env name of Some v \<Rightarrow> Inr v | None \<Rightarrow> expand env alt)
              | None \<Rightarrow> expand_name env (take n s))
              (expand env (drop (Suc n) s))))"
  by pat_completeness auto

termination
  by (relation "measure (length \<circ> snd)") (auto dest!: close_from_less partition_at_length)

section \<open>Templates as syntax\<close>

text \<open>What the module's grammar describes: pieces of text and variables, a default being pieces again.\<close>

datatype piece = Text string | Plain string | Us string | Or_else string "piece list"

fun print_piece :: "piece \<Rightarrow> string" where
  "print_piece (Text t) = t"
| "print_piece (Plain n) = ''${'' @ n @ ''}''"
| "print_piece (Us n) = ''${'' @ n @ ''|us}''"
| "print_piece (Or_else n ps) = ''${'' @ n @ '':-'' @ concat (map print_piece ps) @ ''}''"

fun value_of :: "(string \<Rightarrow> string option) \<Rightarrow> piece \<Rightarrow> string res" where
  "value_of env (Text t) = Inr t"
| "value_of env (Plain n) = (case env_value env n of Some v \<Rightarrow> Inr v | None \<Rightarrow> Inl (KeyError n))"
| "value_of env (Us n) = (case env_value env n of Some v \<Rightarrow> Inr (underscored v) | None \<Rightarrow> Inl (KeyError n))"
| "value_of env (Or_else n ps) =
     (case env_value env n of
        Some v \<Rightarrow> Inr v
      | None \<Rightarrow> rbind (rmap (value_of env) ps) (\<lambda>vs. Inr (concat vs)))"

text \<open>Text that opens no variable, not even with what follows it; a name without the grammar's characters.\<close>

fun plain_text :: "string \<Rightarrow> bool" where
  "plain_text [] = True"
| "plain_text [c] = (c \<noteq> CHR ''$'')"
| "plain_text (c # d # s) = (\<not> is_open c d \<and> plain_text (d # s))"

definition plain_name :: "string \<Rightarrow> bool" where
  "plain_name n \<longleftrightarrow> list_all (\<lambda>c. c \<notin> set ''$}:|'') n"

text \<open>\<open>inner\<close> is a piece of a default, where a closing brace would end the default.\<close>

fun wf_piece :: "bool \<Rightarrow> piece \<Rightarrow> bool" where
  "wf_piece inner (Text t) = (plain_text t \<and> (inner \<longrightarrow> CHR ''}'' \<notin> set t))"
| "wf_piece inner (Plain n) = plain_name n"
| "wf_piece inner (Us n) = plain_name n"
| "wf_piece inner (Or_else n ps) = (plain_name n \<and> list_all (wf_piece True) ps)"

section \<open>Finding the closing brace\<close>

text \<open>A text whose braces are balanced: the search for a closing brace passes it.\<close>

definition passed :: "string \<Rightarrow> bool" where
  "passed t \<longleftrightarrow> (\<forall>depth s. 0 < depth \<longrightarrow>
     close_from depth (t @ s) = map_option (\<lambda>n. n + length t) (close_from depth s))"

lemma passed_text: "plain_text t \<Longrightarrow> CHR ''}'' \<notin> set t \<Longrightarrow> passed t"
proof (induction t rule: plain_text.induct)
  case (2 c)
  have "close_from depth (c # s) = map_option Suc (close_from depth s)" for depth s
    using 2 by (cases s) (auto simp: is_open_def)
  then show ?case by (simp add: passed_def)
next
  case (3 c d t)
  then show ?case by (auto simp: passed_def option.map_comp comp_def)
qed (simp add: passed_def option.map_ident)

lemma passed_append: "passed t \<Longrightarrow> passed u \<Longrightarrow> passed (t @ u)"
  by (simp add: passed_def option.map_comp comp_def algebra_simps)

lemma passed_concat: "(\<And>t. t \<in> set ts \<Longrightarrow> passed t) \<Longrightarrow> passed (concat ts)"
proof (induction ts)
  case (Cons t ts)
  then show ?case using passed_append [of t "concat ts"] by simp
qed (simp add: passed_def option.map_ident)

lemma passed_braces:
  assumes "passed t" shows "passed (''${'' @ t @ ''}'')"
proof -
  have inner: "close_from (depth + 1) (''}'' @ s) = map_option Suc (close_from depth s)" if "0 < depth" for depth s
    using that by (cases s) (auto simp: is_open_def)
  have "close_from depth ((''${'' @ t @ ''}'') @ s) = map_option (\<lambda>n. n + length (''${'' @ t @ ''}'')) (close_from depth s)"
    if "0 < depth" for depth s
  proof -
    have "close_from depth ((''${'' @ t @ ''}'') @ s) = map_option (\<lambda>n. n + 2) (close_from (depth + 1) (t @ ''}'' @ s))"
      by (simp add: is_open_def)
    also have "\<dots> = map_option (\<lambda>n. n + 2) (map_option (\<lambda>n. n + length t) (close_from (depth + 1) (''}'' @ s)))"
      using assms unfolding passed_def by simp
    finally show ?thesis
      by (simp only: inner [OF that] option.map_comp comp_def) simp
  qed
  then show ?thesis unfolding passed_def by blast
qed

lemma plain_name_text: "plain_name n \<Longrightarrow> plain_text n \<and> CHR ''}'' \<notin> set n"
  by (induction n rule: plain_text.induct) (auto simp: plain_name_def is_open_def)

lemma passed_name: "plain_name n \<Longrightarrow> passed n" "passed ''|us''" "passed '':-''"
  by (simp_all add: passed_text plain_name_text is_open_def)

lemma passed_piece: "wf_piece True p \<Longrightarrow> passed (print_piece p)"
proof (induction p)
  case (Us n)
  then have "passed (n @ ''|us'')" using passed_name by (intro passed_append) auto
  from passed_braces [OF this] show ?case by simp
next
  case (Or_else n ps)
  then have "passed (concat (map print_piece ps))" by (intro passed_concat) (auto simp: list_all_iff)
  with Or_else.prems have "passed (n @ '':-'' @ concat (map print_piece ps))"
    using passed_name by (intro passed_append) auto
  from passed_braces [OF this] show ?case by simp
next
  case (Plain n)
  with passed_braces [of n] passed_name(1) show ?case by simp
qed (simp add: passed_text)

lemma close_body: "passed t \<Longrightarrow> close_from 1 (t @ ''}'' @ s) = Some (length t)"
proof -
  assume "passed t"
  moreover have "close_from 1 (''}'' @ s) = Some 0" by (cases s) (auto simp: is_open_def)
  ultimately show ?thesis by (simp add: passed_def)
qed

section \<open>Expansion of a template\<close>

lemma expand_text: "plain_text t \<Longrightarrow> expand env (t @ s) = rappend (Inr t) (expand env s)"
proof (induction t rule: plain_text.induct)
  case (2 c)
  then show ?case by (cases s) (auto simp: is_open_def rappend_def)
next
  case (3 c d t)
  then show ?case by (cases "expand env s") (auto simp: rappend_def)
qed (cases "expand env s"; simp add: rappend_def)

lemma expand_braces:
  assumes "passed t"
  shows "expand env (''${'' @ t @ ''}'' @ s) = rappend
    (case partition_at '':-'' t of
       Some (name, alt) \<Rightarrow> (case env_value env name of Some v \<Rightarrow> Inr v | None \<Rightarrow> expand env alt)
     | None \<Rightarrow> expand_name env t) (expand env s)"
  using close_body [OF assms, of s] by (simp add: is_open_def cong: option.case_cong)

lemma partition_name:
  "plain_name n \<Longrightarrow> partition_at '':-'' n = None" "plain_name n \<Longrightarrow> partition_at '':-'' (n @ ''|us'') = None"
  "plain_name n \<Longrightarrow> partition_at ''|'' n = None" "plain_name n \<Longrightarrow> partition_at ''|'' (n @ ''|us'') = Some (n, ''us'')"
  "plain_name n \<Longrightarrow> partition_at '':-'' (n @ '':-'' @ s) = Some (n, s)"
  by (induction n) (auto simp: plain_name_def)

lemma expand_piece:
  "wf_piece inner p \<Longrightarrow> expand env (print_piece p @ s) = rappend (value_of env p) (expand env s)"
proof (induction p arbitrary: s inner)
  case (Text t)
  then show ?case by (simp add: expand_text)
next
  case (Plain n)
  then show ?case
    using expand_braces [of n env s]
    by (cases "env_value env n") (simp_all add: passed_name partition_name expand_name_def del: expand.simps)
next
  case (Us n)
  then have "passed (n @ ''|us'')" using passed_name by (intro passed_append) auto
  from expand_braces [OF this, of env s] Us show ?case
    by (simp add: partition_name expand_name_def del: expand.simps cong: option.case_cong)
next
  case (Or_else n ps)
  have body: "expand env (concat (map print_piece qs)) = rbind (rmap (value_of env) qs) (\<lambda>vs. Inr (concat vs))"
    if "set qs \<subseteq> set ps" for qs
    using that
  proof (induction qs)
    case (Cons q qs)
    with Or_else.IH [of q True "concat (map print_piece qs)"] Or_else.prems show ?case
      by (cases "value_of env q"; cases "rmap (value_of env) qs") (auto simp: list_all_iff rappend_def)
  qed simp
  have "passed (n @ '':-'' @ concat (map print_piece ps))"
    using Or_else.prems passed_name by (intro passed_append passed_concat) (auto simp: list_all_iff intro: passed_piece)
  from expand_braces [OF this, of env s] Or_else.prems body [of ps] show ?case
    by (simp add: partition_name [simplified] del: expand.simps cong: option.case_cong)
qed

text \<open>
  Expansion computes what the template says. A template written in the module's grammar, defaults nested
  to any depth, expands to the values of its pieces in order: text as it is, a variable's value, or the
  expansion of its default where the variable is unset or empty, with '-' replaced by '_' under the filter.
  It raises, a KeyError for the name, exactly where the first variable without value and default stands.
\<close>

lemma expand_template:
  assumes "list_all (wf_piece False) ps"
  shows "expand env (concat (map print_piece ps)) = rbind (rmap (value_of env) ps) (\<lambda>vs. Inr (concat vs))"
  using assms
proof (induction ps)
  case (Cons p ps)
  then show ?case
    by (cases "value_of env p"; cases "rmap (value_of env) ps")
      (simp_all add: expand_piece [of False p env "concat (map print_piece ps)"] rappend_def del: expand.simps)
qed simp

text \<open>The body before the default is never read for a filter: \<open>${A|us:-x}\<close> asks for a variable called \<open>A|us\<close>.\<close>

lemma filter_before_default:
  "expand (\<lambda>n. if n = ''A'' then Some ''p-q'' else None) ''${A|us:-x}'' = Inr ''x''"
  by code_simp

end
