(* ===== verification/Backfill.thy ===== *)
theory Backfill
  imports Pg_Store Values
begin

text \<open>
  \<open>backfill_element_labels.py\<close>: the one-time script that stamps element rows without labels from the
  asset's record. One transaction locks the two element tables, counts, updates and compares the
  counts with the ones the operator expects.

  The transaction is at the server's default isolation: each statement sees the committed rows of
  its own moment. The locked tables cannot change under it; the record table is not locked, so the
  records are a function of the statement. An UPDATE joining several records stamps from one of
  them, here the first. A statement may raise (\<open>bk_fails\<close>), and the commit may be refused or its
  answer lost. The command line parser is outside; \<open>check_args\<close> is what \<open>parse_args\<close> checks of the
  parsed arguments. Of the report the figures and the text of a record are modelled; the lines of one
  asset come in the order of its rows, where ORDER BY leaves it open.
\<close>

section \<open>The statements\<close>

definition records_for :: "table \<Rightarrow> row \<Rightarrow> table" where
  "records_for records e = filter (\<lambda>t. t ''asset_id'' \<noteq> PNone \<and> t ''asset_id'' = e ''asset_id'') records"

text \<open>\<open>LEFT JOIN\<close>: a row without a record once, with None.\<close>

definition left_join :: "table \<Rightarrow> row \<Rightarrow> row option list" where
  "left_join records e = (case records_for records e of [] \<Rightarrow> [None] | ts \<Rightarrow> map Some ts)"

definition unlabelled :: "row \<Rightarrow> bool" where
  "unlabelled e \<longleftrightarrow> e ''originator_nation'' = PNone"

record counts =
  ct_unlabelled :: nat
  ct_stampable :: nat
  ct_no_record :: nat
  ct_record_unlabelled :: nat

definition count_rows :: "table \<Rightarrow> table \<Rightarrow> counts" where
  "count_rows records tbl =
     (let js = concat (map (left_join records) (filter unlabelled tbl)) in
      \<lparr>ct_unlabelled = length js,
       ct_stampable = length (filter (\<lambda>j. case j of Some t \<Rightarrow> \<not> unlabelled t | None \<Rightarrow> False) js),
       ct_no_record = length (filter (\<lambda>j. j = None) js),
       ct_record_unlabelled = length (filter (\<lambda>j. case j of Some t \<Rightarrow> unlabelled t | None \<Rightarrow> False) js)\<rparr>)"

text \<open>The row after the UPDATE, None where its condition does not hold.\<close>

definition stamp :: "table \<Rightarrow> row \<Rightarrow> row option" where
  "stamp records e =
     (if \<not> unlabelled e then None
      else (case filter (\<lambda>t. \<not> unlabelled t) (records_for records e) of
          [] \<Rightarrow> None
        | t # _ \<Rightarrow> Some (e(''originator_nation'' := t ''originator_nation'', ''releasable_to'' := t ''releasable_to''))))"

definition update_rows :: "table \<Rightarrow> table \<Rightarrow> table \<times> nat" where
  "update_rows records tbl =
     (map (\<lambda>e. case stamp records e of Some e1 \<Rightarrow> e1 | None \<Rightarrow> e) tbl,
      length (filter (\<lambda>e. stamp records e \<noteq> None) tbl))"

section \<open>The report\<close>

text \<open>A group of \<open>build_breakdown_sql\<close>: the asset, whether it has a record, its nation and release list.\<close>

type_synonym breakdown_key = "py \<times> bool \<times> py \<times> py"

definition breakdown_key :: "row \<times> row option \<Rightarrow> breakdown_key" where
  "breakdown_key j =
     (case snd j of
        None \<Rightarrow> (fst j ''asset_id'', False, PNone, PNone)
      | Some t \<Rightarrow> (fst j ''asset_id'', True, t ''originator_nation'', t ''releasable_to''))"

definition joined :: "table \<Rightarrow> table \<Rightarrow> (row \<times> row option) list" where
  "joined records tbl = concat (map (\<lambda>e. map (Pair e) (left_join records e)) (filter unlabelled tbl))"

definition breakdown :: "table \<Rightarrow> table \<Rightarrow> (breakdown_key \<times> nat) list" where
  "breakdown records tbl =
     (let ks = map breakdown_key (joined records tbl)
      in map (\<lambda>k. (k, length (filter (\<lambda>x. x = k) ks))) (remdups ks))"

definition record_text :: "(py \<Rightarrow> string) \<Rightarrow> breakdown_key \<Rightarrow> string res" where
  "record_text repr k =
     (case k of (_, has_record, nation, releasable) \<Rightarrow>
       if \<not> has_record then Inr ''none''
       else if \<not> truthy nation then Inr ''unlabelled''
       else rbind (py_list (py_or releasable (PList []))) (\<lambda>xs.
         Inr (py_str repr nation @ '':'' @ py_str repr (PList xs))))"

text \<open>What \<open>report\<close> prints and returns for one table.\<close>

definition report_table :: "(py \<Rightarrow> string) \<Rightarrow> table \<Rightarrow> table \<Rightarrow> (counts \<times> (breakdown_key \<times> nat \<times> string) list) res" where
  "report_table repr records tbl =
     rbind (rmap (\<lambda>kn. rbind (record_text repr (fst kn)) (\<lambda>s. Inr (fst kn, snd kn, s))) (breakdown records tbl)) (\<lambda>ls.
       Inr (count_rows records tbl, ls))"

section \<open>The transaction\<close>

datatype backfill_stmt = Lock | Count_State | Count_Telemetry | Update_State | Update_Telemetry | Report

datatype commit = Committed | Commit_Refused | Commit_Lost

record backfill_run =
  bk_fails :: "backfill_stmt \<Rightarrow> bool"
  bk_records :: "backfill_stmt \<Rightarrow> table"
  bk_commit :: commit

datatype exit = Exit nat | Raised

definition halt_exit :: nat where
  "halt_exit = 3"

text \<open>Two tables: the element rows and the telemetry rows.\<close>

definition apply_backfill :: "backfill_run \<Rightarrow> int \<times> int \<Rightarrow> table \<times> table \<Rightarrow> exit \<times> (table \<times> table)" where
  "apply_backfill bk expect tbls =
     (let (ns, nt) = expect; (es, ts) = tbls in
      if bk_fails bk Lock \<or> bk_fails bk Count_State then (Raised, tbls)
      else if int (ct_stampable (count_rows (bk_records bk Count_State) es)) \<noteq> ns then (Exit halt_exit, tbls)
      else if bk_fails bk Count_Telemetry then (Raised, tbls)
      else if int (ct_stampable (count_rows (bk_records bk Count_Telemetry) ts)) \<noteq> nt then (Exit halt_exit, tbls)
      else if bk_fails bk Update_State then (Raised, tbls)
      else
        (let (es1, ds) = update_rows (bk_records bk Update_State) es in
         if int ds \<noteq> ns then (Exit halt_exit, tbls)
         else if bk_fails bk Update_Telemetry then (Raised, tbls)
         else
           (let (ts1, dt) = update_rows (bk_records bk Update_Telemetry) ts in
            if int dt \<noteq> nt then (Exit halt_exit, tbls)
            else (case bk_commit bk of
                Commit_Refused \<Rightarrow> (Raised, tbls)
              | Commit_Lost \<Rightarrow> (Raised, (es1, ts1))
              | Committed \<Rightarrow> (if bk_fails bk Report then Raised else Exit 0, (es1, ts1))))))"

text \<open>\<open>parse_args\<close> and \<open>run\<close>: exit code 2 for arguments or a store that are not given.\<close>

definition check_args :: "bool \<Rightarrow> int option \<Rightarrow> int option \<Rightarrow> bool" where
  "check_args apply_flag expect_state expect_telemetry \<longleftrightarrow>
     (if apply_flag then expect_state \<noteq> None \<and> expect_telemetry \<noteq> None
      else expect_state = None \<and> expect_telemetry = None)"

definition run_backfill ::
  "bool \<Rightarrow> backfill_run \<Rightarrow> bool \<Rightarrow> int option \<Rightarrow> int option \<Rightarrow> table \<times> table \<Rightarrow> exit \<times> (table \<times> table)" where
  "run_backfill store_configured bk apply_flag expect_state expect_telemetry tbls =
     (if \<not> check_args apply_flag expect_state expect_telemetry then (Exit 2, tbls)
      else if \<not> store_configured then (Exit 2, tbls)
      else if apply_flag then apply_backfill bk (the expect_state, the expect_telemetry) tbls
      else (if bk_fails bk Report then Raised else Exit 0, tbls))"

section \<open>What a run does\<close>

text \<open>What the UPDATE promises: each unlabelled row of a labelled record gets its labels, all else is as before.\<close>

definition stamped_from :: "table \<Rightarrow> row \<Rightarrow> row \<Rightarrow> bool" where
  "stamped_from records e e1 \<longleftrightarrow>
     (if unlabelled e \<and> list_ex (\<lambda>t. \<not> unlabelled t) (records_for records e)
      then list_ex (\<lambda>t. \<not> unlabelled t
             \<and> e1 = e(''originator_nation'' := t ''originator_nation'', ''releasable_to'' := t ''releasable_to''))
             (records_for records e)
      else e1 = e)"

lemma stamp_None: "stamp records e = None \<longleftrightarrow> \<not> (unlabelled e \<and> list_ex (\<lambda>t. \<not> unlabelled t) (records_for records e))"
proof -
  have "list_ex P xs \<longleftrightarrow> filter P xs \<noteq> []" for P :: "row \<Rightarrow> bool" and xs by (induction xs) auto
  then show ?thesis by (auto simp: stamp_def split: list.splits)
qed

lemma stamp_stamped: "stamped_from records e (case stamp records e of Some e1 \<Rightarrow> e1 | None \<Rightarrow> e)"
proof (cases "stamp records e")
  case None
  with stamp_None [of records e] show ?thesis by (auto simp: stamped_from_def)
next
  case (Some e1)
  then obtain t ts where t: "filter (\<lambda>t. \<not> unlabelled t) (records_for records e) = t # ts"
    "e1 = e(''originator_nation'' := t ''originator_nation'', ''releasable_to'' := t ''releasable_to'')" "unlabelled e"
    by (auto simp: stamp_def split: if_splits list.splits)
  then have "t \<in> set (records_for records e)" "\<not> unlabelled t" by (auto simp: filter_eq_Cons_iff)
  with t Some show ?thesis by (auto simp: stamped_from_def list_ex_iff)
qed

lemma update_stamped: "list_all2 (stamped_from records) tbl (fst (update_rows records tbl))"
  by (simp add: update_rows_def list_all2_map2 stamp_stamped list_all2_same)

text \<open>With one record per asset the count announces what the UPDATE does.\<close>

lemma stampable_updated:
  assumes "distinct (map (\<lambda>t. t ''asset_id'') records)"
  shows "ct_stampable (count_rows records tbl) = snd (update_rows records tbl)"
proof -
  have one: "length (records_for records e) \<le> 1" for e
  proof -
    have "distinct (map (\<lambda>t. t ''asset_id'') (records_for records e))"
      using assms by (simp add: records_for_def distinct_map_filter)
    moreover have "set (map (\<lambda>t. t ''asset_id'') (records_for records e)) \<subseteq> {e ''asset_id''}"
      by (auto simp: records_for_def)
    ultimately show ?thesis by (metis card_mono distinct_card finite.emptyI finite_insert is_singletonI is_singleton_altdef length_map)
  qed
  have row: "length (filter (\<lambda>j. case j of Some t \<Rightarrow> \<not> unlabelled t | None \<Rightarrow> False) (left_join records e))
      = (if stamp records e \<noteq> None then 1 else 0)" if "unlabelled e" for e
    using one [of e] that by (cases "records_for records e") (auto simp: left_join_def stamp_def)
  show ?thesis
    unfolding count_rows_def update_rows_def Let_def
    by (induction tbl) (simp_all add: row, simp add: stamp_def)
qed

text \<open>
  C40. The backfill is all or nothing, and touches nothing else. With exit code 0 every row of both tables
  is as before, except that a row without labels whose asset has a labelled record carries the labels
  of such a record as the UPDATE saw it, and the numbers of rows stamped are the expected ones. With any
  other exit code both tables are as before; a raise leaves them as before or, when only the answer to the
  commit or the closing report was lost, fully stamped. And when the records stand still, one per
  asset, and no statement fails, the expectation decides: it is met exactly by the counts announced.
\<close>

theorem backfill_whole:
  assumes "run_backfill configured bk flag ns nt (es, ts) = (r, es1, ts1)"
  shows "(r = Exit 0 \<and> flag \<longrightarrow>
          list_all2 (stamped_from (bk_records bk Update_State)) es es1
        \<and> list_all2 (stamped_from (bk_records bk Update_Telemetry)) ts ts1
        \<and> ns = Some (int (snd (update_rows (bk_records bk Update_State) es)))
        \<and> nt = Some (int (snd (update_rows (bk_records bk Update_Telemetry) ts))))
    \<and> (r \<noteq> Exit 0 \<and> r \<noteq> Raised \<or> \<not> flag \<longrightarrow> es1 = es \<and> ts1 = ts)
    \<and> (r = Raised \<longrightarrow> es1 = es \<and> ts1 = ts
        \<or> list_all2 (stamped_from (bk_records bk Update_State)) es es1
          \<and> list_all2 (stamped_from (bk_records bk Update_Telemetry)) ts ts1)
    \<and> (configured \<and> flag \<and> bk_fails bk = (\<lambda>_. False) \<and> bk_commit bk = Committed \<and> bk_records bk = (\<lambda>_. records)
        \<and> distinct (map (\<lambda>t. t ''asset_id'') records) \<longrightarrow>
        (r = Exit 0 \<longleftrightarrow> ns = Some (int (ct_stampable (count_rows records es))) \<and> nt = Some (int (ct_stampable (count_rows records ts)))))"
  using assms update_stamped [of "bk_records bk Update_State" es] update_stamped [of "bk_records bk Update_Telemetry" ts]
    stampable_updated [of records]
  by (auto simp: run_backfill_def apply_backfill_def check_args_def halt_exit_def split: if_splits prod.splits commit.splits)

section \<open>The report adds up\<close>

lemma grouped_sum:
  "(\<Sum>kn\<leftarrow>filter (\<lambda>kn. P (fst kn)) (map (\<lambda>k. (k, length (filter (\<lambda>x. x = k) xs))) (remdups xs)). snd kn) = length (filter P xs)"
proof -
  have "(\<Sum>kn\<leftarrow>filter (\<lambda>kn. P (fst kn)) (map (\<lambda>k. (k, length (filter (\<lambda>x. x = k) xs))) (remdups xs)). snd kn)
      = (\<Sum>k\<leftarrow>remdups (filter P xs). length (filter (\<lambda>x. x = k) xs))"
    by (simp add: filter_map comp_def remdups_filter)
  also have "\<dots> = (\<Sum>k\<leftarrow>remdups (filter P xs). count_list (filter P xs) k)"
    by (rule arg_cong [where f = sum_list], rule map_cong)
      (auto simp: count_list_eq_length_filter intro!: arg_cong [where f = length] filter_cong)
  also have "\<dots> = length (filter P xs)"
    by (simp add: sum_list_distinct_conv_sum_set sum_count_set)
  finally show ?thesis .
qed

lemma joined_left: "map snd (joined records tbl) = concat (map (left_join records) (filter unlabelled tbl))"
  by (simp add: joined_def map_concat comp_def)

text \<open>
  The lines per asset add up to the figures of the table: all of them to the unlabelled rows, those without a record,
  with an unlabelled and with a labelled record to the three parts. A record whose nation is the empty text counts
  as labelled here, and its line says unlabelled.
\<close>

lemma report_adds_up:
  fixes records tbl
  defines "part P \<equiv> (\<Sum>kn\<leftarrow>filter (\<lambda>kn. P (fst kn)) (breakdown records tbl). snd kn)"
  shows "part (\<lambda>_. True) = ct_unlabelled (count_rows records tbl)"
    and "part (\<lambda>k. \<not> fst (snd k)) = ct_no_record (count_rows records tbl)"
    and "part (\<lambda>k. fst (snd k) \<and> fst (snd (snd k)) = PNone) = ct_record_unlabelled (count_rows records tbl)"
    and "part (\<lambda>k. fst (snd k) \<and> fst (snd (snd k)) \<noteq> PNone) = ct_stampable (count_rows records tbl)"
proof -
  have part: "part P = length (filter (\<lambda>j. P (breakdown_key j)) (joined records tbl))" for P
    unfolding part_def breakdown_def Let_def grouped_sum by (simp add: filter_map comp_def)
  have figures: "length (filter Q (concat (map (left_join records) (filter unlabelled tbl)))) = length (filter (\<lambda>j. Q (snd j)) (joined records tbl))" for Q
    unfolding joined_left [symmetric] by (simp add: filter_map comp_def)
  show "part (\<lambda>_. True) = ct_unlabelled (count_rows records tbl)"
    using figures [of "\<lambda>_. True"] by (simp add: part count_rows_def Let_def)
  show "part (\<lambda>k. \<not> fst (snd k)) = ct_no_record (count_rows records tbl)"
    unfolding part count_rows_def Let_def counts.simps figures
    by (rule arg_cong [where f = length], rule filter_cong) (auto simp: breakdown_key_def split: option.split)
  show "part (\<lambda>k. fst (snd k) \<and> fst (snd (snd k)) = PNone) = ct_record_unlabelled (count_rows records tbl)"
    unfolding part count_rows_def Let_def counts.simps figures
    by (rule arg_cong [where f = length], rule filter_cong) (auto simp: breakdown_key_def unlabelled_def split: option.split)
  show "part (\<lambda>k. fst (snd k) \<and> fst (snd (snd k)) \<noteq> PNone) = ct_stampable (count_rows records tbl)"
    unfolding part count_rows_def Let_def counts.simps figures
    by (rule arg_cong [where f = length], rule filter_cong) (auto simp: breakdown_key_def unlabelled_def split: option.split)
qed

lemma empty_nation_line:
  "record_text repr (breakdown_key (e, Some (sample(''originator_nation'' := PStr [])))) = Inr ''unlabelled''
   \<and> \<not> unlabelled (sample(''originator_nation'' := PStr []))"
  by (simp add: record_text_def breakdown_key_def unlabelled_def)

section \<open>An example\<close>

definition sample_record :: row where
  "sample_record = (\<lambda>c. if c = ''asset_id'' then PStr ''a1'' else if c = ''originator_nation'' then PStr ''USA''
     else if c = ''releasable_to'' then PList [PStr ''FVEY''] else PNone)"

definition sample_element :: row where
  "sample_element = (\<lambda>c. if c = ''asset_id'' then PStr ''a1'' else PNone)"

definition sample_backfill :: backfill_run where
  "sample_backfill = \<lparr>bk_fails = (\<lambda>_. False), bk_records = (\<lambda>_. [sample_record]), bk_commit = Committed\<rparr>"

theorem backfill_whole_witness:
  "fst (run_backfill True sample_backfill True (Some 1) (Some 0) ([sample_element], [])) = Exit 0
   \<and> fst (run_backfill True sample_backfill True (Some 2) (Some 0) ([sample_element], [])) \<noteq> Exit 0"
proof -
  have n: "ct_stampable (count_rows [sample_record] [sample_element]) = 1" "ct_stampable (count_rows [sample_record] []) = 0"
    by code_simp+
  have "fst (run_backfill True sample_backfill True (Some k) (Some 0) ([sample_element], [])) = Exit 0 \<longleftrightarrow> k = 1" for k
  proof -
    obtain r es1 ts1 where run: "run_backfill True sample_backfill True (Some k) (Some 0) ([sample_element], []) = (r, es1, ts1)"
      by (rule prod_cases3)
    from backfill_whole [OF run, of "[sample_record]"] n have "r = Exit 0 \<longleftrightarrow> k = 1"
      by (simp add: sample_backfill_def)
    with run show ?thesis by simp
  qed
  then show ?thesis by simp
qed

end
