(* ===== verification/Sweep_Loops.thy ===== *)
theory Sweep_Loops
  imports Munition_History
begin

text \<open>
  The loops \<open>reporting_sweep_loop\<close>, \<open>effector_sweep_loop\<close> and \<open>munition_track_sweep_loop\<close> as sequences of
  turns. A turn is the clock it reads and whether the store answers; a failure is logged and the next
  turn comes. The effector loop also counts into \<open>EFFECTOR_UNRESOLVED\<close>. What a sequence of turns does
  to a row is a fact of the contract \<open>sweep\<close>, whatever the sweep.
\<close>

section \<open>The loops\<close>

type_synonym turn = "int \<times> bool"

fun sweep_turns :: "(int \<Rightarrow> 'r list \<Rightarrow> 'r list \<times> nat) \<Rightarrow> turn list \<Rightarrow> 'r list \<times> nat \<Rightarrow> 'r list \<times> nat" where
  "sweep_turns swept [] st = st"
| "sweep_turns swept ((now, ok) # turns) st =
     sweep_turns swept turns (if ok then (fst (swept now (fst st)), snd st + snd (swept now (fst st))) else st)"

definition reporting_sweep_loop :: "rat \<Rightarrow> turn list \<Rightarrow> table \<Rightarrow> table" where
  "reporting_sweep_loop stale_after_s turns t = fst (sweep_turns (sweep_reporting_staleness stale_after_s) turns (t, 0))"

text \<open>The rows and the counter.\<close>

definition effector_sweep_loop :: "rat \<Rightarrow> turn list \<Rightarrow> table \<times> nat \<Rightarrow> table \<times> nat" where
  "effector_sweep_loop timeout_s turns st = sweep_turns (sweep_effector_timeouts timeout_s) turns st"

text \<open>Of the track loop each turn reads the clock twice, and either half may fail.\<close>

definition munition_track_sweep_loop :: "rat \<Rightarrow> (turn \<times> turn) list \<Rightarrow> munition_store \<Rightarrow> munition_store" where
  "munition_track_sweep_loop silence_s turns st =
     fold (\<lambda>((now1, ok1), (now2, ok2)). sweep_pass silence_s ok1 now1 ok2 now2) turns st"

section \<open>What a sequence of turns does\<close>

text \<open>The first turn that answers and finds the row due.\<close>

definition due_turn :: "(int \<Rightarrow> 'r \<Rightarrow> bool) \<Rightarrow> turn list \<Rightarrow> 'r \<Rightarrow> turn option" where
  "due_turn guard turns r = find (\<lambda>(now, ok). ok \<and> guard now r) turns"

definition at_due :: "(int \<Rightarrow> 'r \<Rightarrow> bool) \<Rightarrow> (int \<Rightarrow> 'r \<Rightarrow> 'r) \<Rightarrow> turn list \<Rightarrow> 'r \<Rightarrow> 'r" where
  "at_due guard act turns r = (case due_turn guard turns r of Some (now, _) \<Rightarrow> act now r | None \<Rightarrow> r)"

context sweep begin

lemma due_after: "due_turn guard turns (act now r) = None" if "guard now r"
  using act_clears [OF that] by (auto simp: due_turn_def find_None_iff)

lemma turns_rows:
  "sweep_turns (\<lambda>now. sweep_rows (guard now) (act now)) turns (t, n)
     = (map (at_due guard act turns) t, n + length (filter (\<lambda>r. due_turn guard turns r \<noteq> None) t))"
proof (induction turns arbitrary: t n)
  case Nil
  then show ?case by (simp add: at_due_def due_turn_def map_idI)
next
  case (Cons turn turns)
  obtain now ok where turn: "turn = (now, ok)" by (cases turn)
  show ?case
  proof (cases ok)
    case True
    have due: "due_turn guard (turn # turns) r = (if guard now r then Some turn else due_turn guard turns r)" for r
      using True by (simp add: turn due_turn_def)
    have row: "at_due guard act turns (if guard now r then act now r else r) = at_due guard act (turn # turns) r" for r
      by (simp add: at_due_def due due_after) (simp add: turn)
    have num: "length (filter (guard now) us)
        + length (filter (\<lambda>r. due_turn guard turns r \<noteq> None) (map (\<lambda>r. if guard now r then act now r else r) us))
      = length (filter (\<lambda>r. due_turn guard (turn # turns) r \<noteq> None) us)" for us
      by (induction us) (auto simp: due due_after)
    have step: "sweep_turns (\<lambda>now. sweep_rows (guard now) (act now)) (turn # turns) (t, n)
      = sweep_turns (\<lambda>now. sweep_rows (guard now) (act now)) turns
          (map (\<lambda>r. if guard now r then act now r else r) t, n + length (filter (guard now) t))"
      using True by (simp add: turn sweep_rows_def)
    show ?thesis unfolding step Cons.IH using num [of t] by (simp add: row comp_def)
  next
    case False
    then have "due_turn guard (turn # turns) = due_turn guard turns" by (simp add: fun_eq_iff turn due_turn_def)
    then show ?thesis using False by (simp add: turn Cons.IH at_due_def [abs_def])
  qed
qed

end

lemma effector_loop_rows:
  "effector_sweep_loop w turns (t, n) = (map (at_due (effector_guard w) effector_act turns) t,
     n + length (filter (\<lambda>r. due_turn (effector_guard w) turns r \<noteq> None) t))"
  using effector_sweep.turns_rows [of w turns t n]
  by (simp add: effector_sweep_loop_def sweep_effector_timeouts_def [abs_def])

lemma reporting_loop_rows: "reporting_sweep_loop w turns t = map (at_due (staleness_guard w) staleness_act turns) t"
  using stale.turns_rows [of w turns t 0] by (simp add: reporting_sweep_loop_def sweep_reporting_staleness_def [abs_def])

text \<open>
  C37. The sweep loops act once, at the first turn that can. Whatever turns fail, after any number of them a launch
  without an outcome is unresolved exactly if some answered turn came after its timeout, stamped by
  the first of those, and otherwise as it was; and the counter has grown by exactly the number of
  launches so marked, none counted twice. In the same way a telemetry row reads not_reporting from the first
  answered turn that finds its sample stale.
\<close>

theorem sweep_loops_once:
  assumes "effector_sweep_loop timeout turns (t, n) = (t1, n1)" "reporting_sweep_loop stale turns u = u1"
  shows "t1 = map (\<lambda>r. case find (\<lambda>(now, ok). ok \<and> r ''terminal_state'' = PNone \<and> older_than (r ''launched_at'') now timeout) turns of
          Some (now, _) \<Rightarrow> r(''terminal_state'' := PStr ''unresolved'', ''terminated_at'' := PTime now, ''updated_at'' := PTime now)
        | None \<Rightarrow> r) t
    \<and> n1 = n + length (filter (\<lambda>r. r ''terminal_state'' = PNone
        \<and> list_ex (\<lambda>(now, ok). ok \<and> older_than (r ''launched_at'') now timeout) turns) t)
    \<and> u1 = map (\<lambda>r. case find (\<lambda>(now, ok). ok \<and> staleness_guard stale now r) turns of
          Some (now, _) \<Rightarrow> staleness_act now r
        | None \<Rightarrow> r) u"
proof (intro conjI)
  have e: "t1 = map (at_due (effector_guard timeout) effector_act turns) t"
    "n1 = n + length (filter (\<lambda>r. due_turn (effector_guard timeout) turns r \<noteq> None) t)"
    using assms(1) by (simp_all add: effector_loop_rows)
  show "t1 = map (\<lambda>r. case find (\<lambda>(now, ok). ok \<and> r ''terminal_state'' = PNone \<and> older_than (r ''launched_at'') now timeout) turns of
          Some (now, _) \<Rightarrow> r(''terminal_state'' := PStr ''unresolved'', ''terminated_at'' := PTime now, ''updated_at'' := PTime now)
        | None \<Rightarrow> r) t"
    unfolding e at_due_def [abs_def] due_turn_def effector_guard_def effector_act_def by (rule refl)
  have "due_turn (effector_guard timeout) turns r \<noteq> None \<longleftrightarrow> r ''terminal_state'' = PNone
      \<and> list_ex (\<lambda>(now, ok). ok \<and> older_than (r ''launched_at'') now timeout) turns" for r
    by (auto simp: due_turn_def find_None_iff effector_guard_def list_ex_iff)
  then show "n1 = n + length (filter (\<lambda>r. r ''terminal_state'' = PNone
        \<and> list_ex (\<lambda>(now, ok). ok \<and> older_than (r ''launched_at'') now timeout) turns) t)"
    by (simp only: e)
  show "u1 = map (\<lambda>r. case find (\<lambda>(now, ok). ok \<and> staleness_guard stale now r) turns of
          Some (now, _) \<Rightarrow> staleness_act now r | None \<Rightarrow> r) u"
    using assms(2) by (simp add: reporting_loop_rows at_due_def [abs_def] due_turn_def)
qed

theorem sweep_loops_once_witness:
  "snd (effector_sweep_loop 300 [(301000000, False), (302000000, True), (400000000, True)]
     ([\<lambda>c. if c = ''launched_at'' then PTime 0 else PNone], 0)) = 1"
  using sweep_loops_once [OF surjective_pairing refl, THEN conjunct2, THEN conjunct1,
      of 300 "[(301000000, False), (302000000, True), (400000000, True)]"
        "[\<lambda>c. if c = ''launched_at'' then PTime 0 else PNone]" 0]
  by (simp add: interval_us_def)

end
