(* ===== verification/Distance.thy ===== *)
theory Distance
  imports Complex_Main
begin

text \<open>
  \<open>edge_assignment.great_circle_km\<close> over the reals: the formula is exact here, the code computes it in floats.
  \<open>atan2(y, x)\<close> is written out for the arguments that occur, neither of them negative.
\<close>

definition earth_radius_km :: real where
  "earth_radius_km = 63710088 / 10000"

definition radians :: "real \<Rightarrow> real" where
  "radians d = d * pi / 180"

definition quadrant_angle :: "real \<Rightarrow> real \<Rightarrow> real" where
  "quadrant_angle y x = (if x = 0 then (if y = 0 then 0 else pi / 2) else arctan (y / x))"

definition haversine :: "real \<Rightarrow> real \<Rightarrow> real \<Rightarrow> real \<Rightarrow> real" where
  "haversine lat1 lon1 lat2 lon2 =
     (sin (radians (lat2 - lat1) / 2))\<^sup>2
     + cos (radians lat1) * cos (radians lat2) * (sin (radians (lon2 - lon1) / 2))\<^sup>2"

definition great_circle_km :: "real \<Rightarrow> real \<Rightarrow> real \<Rightarrow> real \<Rightarrow> real" where
  "great_circle_km lat1 lon1 lat2 lon2 =
     (let a = haversine lat1 lon1 lat2 lon2 in earth_radius_km * 2 * quadrant_angle (sqrt a) (sqrt (1 - a)))"

lemma cos_latitude: "\<bar>lat\<bar> \<le> 90 \<Longrightarrow> 0 \<le> cos (radians lat)"
proof (rule cos_ge_zero)
  assume "\<bar>lat\<bar> \<le> 90"
  then have "lat * pi \<le> 90 * pi" "- 90 * pi \<le> lat * pi" 
    using mult_right_mono [of lat 90 pi] mult_right_mono [of "- 90" lat pi] by (simp_all add: abs_le_iff)
  then show "- (pi / 2) \<le> radians lat" "radians lat \<le> pi / 2" by (simp_all add: radians_def)
qed

text \<open>Neither square root has a negative argument when the latitudes are latitudes.\<close>

lemma haversine_range:
  assumes "\<bar>lat1\<bar> \<le> 90" "\<bar>lat2\<bar> \<le> 90"
  shows "0 \<le> haversine lat1 lon1 lat2 lon2 \<and> haversine lat1 lon1 lat2 lon2 \<le> 1"
proof
  let ?p = "radians lat1" and ?q = "radians lat2" and ?s = "(sin (radians (lon2 - lon1) / 2))\<^sup>2"
  have pos: "0 \<le> cos ?p * cos ?q" using assms by (simp add: cos_latitude)
  then show "0 \<le> haversine lat1 lon1 lat2 lon2" by (simp add: haversine_def)
  have diff: "radians (lat2 - lat1) = ?q - ?p" by (simp add: radians_def field_simps)
  have half: "(sin (x / 2))\<^sup>2 = (1 - cos x) / 2" for x :: real
    using cos_double_sin [of "x / 2"] by simp
  have "?s \<le> 1" by (simp only: abs_square_le_1 abs_sin_le_one)
  then have "cos ?p * cos ?q * ?s \<le> cos ?p * cos ?q" using pos mult_left_mono [of ?s 1] by simp
  also have "\<dots> \<le> (1 + cos (?q - ?p)) / 2"
    using cos_le_one [of "?q + ?p"] unfolding cos_add cos_diff by (simp add: algebra_simps)
  finally show "haversine lat1 lon1 lat2 lon2 \<le> 1"
    by (simp add: haversine_def diff half field_simps)
qed

lemma quadrant_range: "0 \<le> y \<Longrightarrow> 0 \<le> x \<Longrightarrow> 0 \<le> quadrant_angle y x \<and> quadrant_angle y x \<le> pi / 2"
  using arctan_ubound [of "y / x"] by (auto simp: quadrant_angle_def)

text \<open>Distances lie between 0 and half the circumference, are symmetric, and 0 from a point to itself.\<close>

lemma great_circle_bounds:
  assumes "\<bar>lat1\<bar> \<le> 90" "\<bar>lat2\<bar> \<le> 90"
  shows "0 \<le> great_circle_km lat1 lon1 lat2 lon2 \<and> great_circle_km lat1 lon1 lat2 lon2 \<le> pi * earth_radius_km
    \<and> great_circle_km lat1 lon1 lat2 lon2 = great_circle_km lat2 lon2 lat1 lon1
    \<and> great_circle_km lat1 lon1 lat1 lon1 = 0"
proof (intro conjI)
  have "0 \<le> quadrant_angle (sqrt (haversine lat1 lon1 lat2 lon2)) (sqrt (1 - haversine lat1 lon1 lat2 lon2))
      \<and> quadrant_angle (sqrt (haversine lat1 lon1 lat2 lon2)) (sqrt (1 - haversine lat1 lon1 lat2 lon2)) \<le> pi / 2"
    using haversine_range [OF assms] by (intro quadrant_range) simp_all
  then show "0 \<le> great_circle_km lat1 lon1 lat2 lon2" "great_circle_km lat1 lon1 lat2 lon2 \<le> pi * earth_radius_km"
    by (simp_all add: great_circle_km_def earth_radius_km_def Let_def)
  have neg: "(sin (radians (x - y) / 2))\<^sup>2 = (sin (radians (y - x) / 2))\<^sup>2" for x y
    using sin_minus [of "radians (y - x) / 2"] by (simp add: radians_def algebra_simps diff_divide_distrib power2_commute)
  then show "great_circle_km lat1 lon1 lat2 lon2 = great_circle_km lat2 lon2 lat1 lon1"
    unfolding great_circle_km_def haversine_def by (simp add: neg [of lat2 lat1] neg [of lon2 lon1] mult.commute)
  show "great_circle_km lat1 lon1 lat1 lon1 = 0"
    by (simp add: great_circle_km_def haversine_def radians_def quadrant_angle_def)
qed

end
