(* ===== verification/Spec2Isabelle.thy ===== *)
theory Spec2Isabelle
  imports Process_Life Restart Feed Engagement_Examples Uplink_Loop Link_Monitor Manifest Backfill Sweep_Loops Distance
begin

text \<open>
  The OpenDDIL projector: a Kafka consumer that turns each message into rows of Postgres, from which the
  user interface reads. This development models the Python code under \<open>src/src\<close> and proves what makes it correct.
  File names below are relative to that directory.

  \<^bold>\<open>The program.\<close> \<open>main()\<close> loads the configuration, checks it, opens the connection pool, loads the declared
  munitions and starts one \<open>ConsumerWorker\<close> per configured topic. A worker drains a batch from Kafka,
  coalesces it, decodes each message and hands it to the topic's handler. Most handlers are functions from
  a message to a \<open>Write\<close>, one row of one table, which \<open>PostgresPool.execute\<close> turns into one SQL statement;
  the three handlers of mode custom (launches, munition tracks, element telemetry) use the pool
  themselves. The batch's offsets are committed afterwards. Beside the workers run three sweeps
  over the tables (staleness, launch timeouts, silent tracks), the retention loop, and two monitors: one
  probes the bridge to the parent tier and emits heartbeats, the other receives the heartbeats of
  the child tiers and keeps the table of links.

  \<^bold>\<open>The theories,\<close> in the order they build on each other:

  \<^item> \<open>Prelude\<close>, \<open>Values\<close>: Python values, exceptions as \<open>exc + 'a\<close>, and the conversions the code uses.
  \<^item> \<open>Write_Sql\<close>, \<open>Pg_Store\<close>, \<open>Pg_Execute\<close> (\<open>persistence/postgres.py\<close>): a \<open>Write\<close>, the statement and parameters built
    from it, the effect of the statement on a table, and the retry loops: a Write changes exactly the
    row under its key, to the row it promises, however often it is retried.
  \<^item> \<open>Lifecycle\<close>, \<open>Sweeps\<close>, \<open>Sweep_Loops\<close> (\<open>lifecycle_status.py\<close>, \<open>reporting_sweep.py\<close>, \<open>effector_sweep.py\<close>,
    \<open>munition_track_sweep.py\<close>): the two status columns, the staleness sweep and its agreement with the
    status function, and the three loops as sequences of turns.
  \<^item> \<open>Terminal\<close>, \<open>Munitions\<close>, \<open>Munition_History\<close> (the launch and track operations of \<open>persistence/postgres.py\<close>), \<open>Custom_Handlers\<close>,
    \<open>Resupply\<close>, \<open>Engagement\<close>, \<open>Engagement_Examples\<close> (\<open>handlers/effector_launch.py\<close>, \<open>handlers/munition_track.py\<close>): the engagement
    tables, from one row's phases through whole histories to the invariant over all writers of any tiers.
  \<^item> \<open>Edge_Assignment\<close>, \<open>Distance\<close> (\<open>edge_assignment.py\<close>), \<open>Handler_Base\<close> (\<open>handlers/base.py\<close>), \<open>Handlers_Asset\<close>,
    \<open>Handlers_Other\<close> (the other files of \<open>handlers/\<close>), \<open>Telemetry_Lifecycle\<close>, \<open>Asset_Life\<close>: the handlers that answer with a Write,
    each on every branch, and what becomes of an asset's row under messages, sweeps and retention.
  \<^item> \<open>Element_Diff\<close>, \<open>Element_Delivery\<close>, \<open>Element_Handler\<close>, \<open>Element_Store\<close>, \<open>Element_Examples\<close>
    (\<open>handlers/asset_element_telemetry.py\<close>): the diff against the last written state, the handler with its
    memory and its transaction; the memory mirrors the table, except for assets whose last commit was not
    acknowledged, and the table follows the feed within the deadbands.
  \<^item> \<open>Consumer\<close>, \<open>Delivery\<close>, \<open>Telemetry_Batches\<close>, \<open>Feed\<close> (\<open>ConsumerWorker\<close> of \<open>main.py\<close>, \<open>decoders/\<close>): what is delivered at least
    once, what is not, when coalescing is harmless, what a bad message can hide, and that a table follows its topic's log through
    redelivery, failed commits and deaths inside a turn.
  \<^item> \<open>Links\<close>, \<open>Link_Spec\<close>, \<open>Link_Monitor\<close> (\<open>link_monitor.py\<close>), \<open>Edge_Buffer\<close>, \<open>Uplink\<close>, \<open>Uplink_Loop\<close>
    (\<open>edge_buffer_monitor.py\<close>), \<open>Heartbeat\<close> (\<open>link_heartbeat.py\<close> between the two): the monitors, said of the heartbeats
    and exchanges they saw, and how late the buffer row can be about what the relay does.
  \<^item> \<open>Config\<close> (\<open>config.py\<close>), \<open>Prune\<close>, \<open>Retention\<close> (\<open>build_prune_targets\<close> and \<open>prune_loop\<close> of \<open>main.py\<close>), \<open>Declared_Load\<close>
    (\<open>effector_declared_load.py\<close>), \<open>Startup\<close> (\<open>main()\<close>), \<open>Manifest\<close> (\<open>produces_manifest.py\<close>), \<open>Backfill\<close>
    (\<open>backfill_element_labels.py\<close>).
  \<^item> \<open>Projector\<close>, \<open>Process_Life\<close>, \<open>Restart\<close> (\<open>main()\<close> and \<open>ConsumerWorker._persist\<close>): the running process, which joins the parts above
    over one store: starts, messages through the configured handlers, turns of the sweeps and of the
    retention, SIGHUP and the stop signal are its events. Its invariant joins those of the parts, and its effect
    on the assets' rows is that of the machine of \<open>Asset_Life\<close>. A restart shows in the element rows by their two label
    columns at most. A worker whose \<open>_persist\<close> raised hears no message until the next start.

  \<^bold>\<open>State and operations.\<close> A table is the list of its rows, a row a function from columns to values, NULL
  being \<open>PNone\<close>. A class of the code is a record with its fields (\<open>link_tracker\<close>, \<open>uplink\<close>, \<open>asset_state\<close>,
  \<open>worker_setup\<close>), an operation a function from the old state to the new one and what it
  returns; a raise is \<open>Inl\<close>. The custom handlers are written in a small monad (\<open>io\<close>) over the store and
  the notes, so that what was written before a raise stays written. Operations and their
  rivals are sequences of steps: the events of \<open>Engagement\<close>, the step relation of \<open>Asset_Life\<close>, the steps of \<open>Delivery\<close>
  and \<open>Feed\<close> with crashes and failed commits, the events of \<open>Link_Monitor\<close>, the turns of \<open>Sweep_Loops\<close>, the events of \<open>Projector\<close>. There a message
  or a turn is one step; an interleaving inside a handler, between two of its transactions, is modelled only for
  the insert race of the tracks (the rivals of \<open>tier\<close>).

  \<^bold>\<open>The contracts.\<close> Four locales state what the parts rely on:

  \<^item> \<open>row_store\<close> and its extension \<open>overwriting_store\<close> (\<open>Pg_Store\<close>): a write changes one key's row by a function that is
    idempotent and, between writes of the same columns, keeps the last only. The interpretations \<open>pg\<close> and \<open>pgo\<close>
    are the statements the code sends; retries, coalescing and redelivery rest on them.
  \<^item> \<open>sweep\<close> (\<open>Sweeps\<close>): an UPDATE whose SET falsifies its WHERE touches a row once. Interpretations: the
    staleness sweep (\<open>stale\<close>), launch timeouts (\<open>effector_sweep\<close>), silence (\<open>silence\<close>) and the
    healing of tracks (\<open>heal\<close>).
  \<^item> \<open>terminal_machine\<close> (\<open>Terminal\<close>): in flight, provisionally closed by a timer, decided by a
    detonation; no call leads back, and the first result stands. Interpretations: launches (\<open>launch\<close>)
    and tracks (\<open>track\<close>), whose words differ.

  \<^bold>\<open>Bounds and termination.\<close> The retry loops of the pool have no last attempt; they run over the list of what
  happens to each attempt and answer \<open>Retrying\<close> when it ends first, so every statement about them
  holds for any number of failures. The insert race of a track ends by the second turn of its loop
  (\<open>Munition_History\<close>), so no fuel is needed. The drain is bounded by the batch size, a parameter. The
  strategy builder recurses on the size of the configuration, the template expansion on the
  length of the text.

  \<^bold>\<open>Idealisations.\<close> Floats are exact rationals with the three IEEE specials, so rounding is not modelled;
  instants are whole microseconds; strings are lists of bytes. What the code gets from elsewhere is a
  parameter: the JSON parser and the YAML reader by what they return, the generated protobuf classes by
  what they parse and serialise, \<open>datetime.fromisoformat\<close>, the schema's defaults, and the server's and the
  broker's answers by lists of outcomes. Where a property needs a promise of such a parameter, it is a hypothesis,
  and the witness instantiates it.

  \<^bold>\<open>Where the code and its comments part.\<close> Some properties state behaviour that the comments exclude: a drain that
  fills its batch drops a message, coalescing can drop a terminal claim and a bad message
  can hide the good ones of its key (\<open>Delivery\<close>, \<open>Telemetry_Batches\<close>), a
  detonation whose result is no number is lost (\<open>Engagement\<close>), a key that is not UTF-8 ends its consumer (\<open>Delivery\<close>),
  and an element mapping can load without a retention (\<open>Retention\<close>). The other statements name these cases in
  their hypotheses.

  \<^bold>\<open>Not modelled.\<close> \<open>metrics.py\<close>: declarations of counters of a third-party library (the counts the handlers make are
  notes of their models). The Kafka clients and asyncpg themselves, sleeping, and the log lines, except where a
  throttle or a set of logged things is state. The asyncio scheduler: tasks take their steps in any order. The two monitors are not events of \<open>Projector\<close>, since
  they write tables of their own. The printing and \<open>argparse\<close> of the backfill. The text of YAML files, apart from the refusal of duplicate keys.
  An uplink threshold configured as infinite or NaN.
  The data error of the server for a looked-up key that is no text (a lookup with such a key finds no row instead), and the
  \<open>TypeError\<close> of \<open>warn_provenance_fallback\<close> for an asset id that is no key of a dict. \<open>resolve_provenance_from_proto\<close>, which nothing calls.
\<close>

end
